(* ===== verification/Hid_Prelude.thy ===== *)
theory Hid_Prelude
  imports Complex_Main
begin

text \<open>
  Shared ground of the development: the exceptions of the Python code as one
  datatype, Python values as \<open>json.loads\<close> builds them, decimal rendering of
  integers as \<open>str\<close> and f-strings do it, and the generic lemmas on lists and
  integers that several components use.

  A Python \<open>str\<close> or \<open>bytes\<close> is a HOL \<open>string\<close> (a list of 8-bit characters):
  the modelled code compares, joins and measures ASCII text only.  A function
  that may raise returns a sum, \<open>Inl\<close> the exception.  A coroutine call that
  may raise after it has changed some state returns the new state together
  with \<open>exn option\<close>, so that the state at the time of the exception is kept.
\<close>

section \<open>Exceptions\<close>

datatype exn =
    InputError | BackendError | PatchError | Refused
  | KeyError | IndexError | AttributeError | TypeError | ValueError
  | StructError | RuntimeError | IncompleteRead | AssertionError | OSError | SystemExit
  | TimeoutExpired | CalledProcessError | ZeroDivisionError

type_synonym 'a res = "exn + 'a"

section \<open>JSON values\<close>

text \<open>
  What \<open>json.loads\<close> can return.  \<open>JInt\<close> is \<open>int\<close>, \<open>JBool\<close> is \<open>bool\<close> (two
  different types for \<open>type(v) is int\<close>, although \<open>True == 1\<close>), \<open>JFloat\<close> a finite
  float by its rational value.  A dictionary is an association list of its
  items.
\<close>

datatype json =
    JNull
  | JBool bool
  | JInt int
  | JFloat rat
  | JStr string
  | JList "json list"
  | JObj "(string \<times> json) list"

text \<open>\<open>value == n\<close> for an integer literal \<open>n\<close>: bools and floats compare by value.\<close>

fun py_eq_int :: "json \<Rightarrow> int \<Rightarrow> bool" where
  "py_eq_int (JBool b) n = ((if b then 1 else 0) = n)"
| "py_eq_int (JInt i) n = (i = n)"
| "py_eq_int (JFloat q) n = (q = of_int n)"
| "py_eq_int _ n = False"

text \<open>\<open>value.get(name, default)\<close>: only a dictionary has the method.\<close>

fun py_get :: "json \<Rightarrow> string \<Rightarrow> json \<Rightarrow> json res" where
  "py_get (JObj fs) name d = Inr (case map_of fs name of None \<Rightarrow> d | Some v \<Rightarrow> v)"
| "py_get _ name d = Inl AttributeError"

section \<open>Decimal digits\<close>

fun nat_str :: "nat \<Rightarrow> string" where
  "nat_str n = (if n < 10 then [char_of (48 + n)]
                else nat_str (n div 10) @ [char_of (48 + n mod 10)])"

declare nat_str.simps [simp del]

definition int_str :: "int \<Rightarrow> string" where
  "int_str i = (if i < 0 then ''-'' @ nat_str (nat (- i)) else nat_str (nat i))"

lemma nat_str_digits: "c \<in> set (nat_str n) \<Longrightarrow> \<exists>d<10. c = char_of (48 + d :: nat)"
proof (induction n rule: nat_str.induct)
  case (1 n)
  show ?case
  proof (cases "n < 10")
    case True
    with "1.prems" show ?thesis by (subst (asm) nat_str.simps) auto
  next
    case False
    with "1.prems" have "c \<in> set (nat_str (n div 10)) \<or> c = char_of (48 + n mod 10)"
      by (subst (asm) nat_str.simps) auto
    with False "1.IH" show ?thesis by (metis mod_less_divisor zero_less_numeral)
  qed
qed

section \<open>Searching text\<close>

text \<open>\<open>s.find(p)\<close>, \<open>None\<close> for -1\<close>

fun is_prefix :: "string \<Rightarrow> string \<Rightarrow> bool" where
  "is_prefix [] s = True"
| "is_prefix (c # cs) [] = False"
| "is_prefix (c # cs) (d # ds) = (c = d \<and> is_prefix cs ds)"

fun find_sub :: "string \<Rightarrow> string \<Rightarrow> nat option" where
  "find_sub p [] = (if p = [] then Some 0 else None)"
| "find_sub p (c # cs) =
     (if is_prefix p (c # cs) then Some 0 else map_option Suc (find_sub p cs))"

lemma find_sub_bound: "find_sub p s = Some i \<Longrightarrow> i + length p \<le> length s"
proof (induction p s arbitrary: i rule: find_sub.induct)
  case (2 p c cs)
  have "is_prefix p s \<Longrightarrow> length p \<le> length s" for s
    by (induction p s rule: is_prefix.induct) auto
  with 2 show ?case by (fastforce split: if_splits)
qed (auto split: if_splits)

text \<open>\<open>s.rsplit(c, 1)[1]\<close>\<close>

definition after_last :: "char \<Rightarrow> string \<Rightarrow> string option" where
  "after_last c s = (if c \<in> set s then Some (rev (takeWhile (\<lambda>d. d \<noteq> c) (rev s))) else None)"

lemma after_last_append: "c \<notin> set rest \<Longrightarrow> after_last c (a @ [c] @ rest) = Some rest"
proof -
  assume "c \<notin> set rest"
  then have "takeWhile (\<lambda>d. d \<noteq> c) (rev rest @ c # rev a) = rev rest"
    by (subst takeWhile_append2) auto
  then show ?thesis by (simp add: after_last_def)
qed

text \<open>\<open>s.splitlines()\<close> of a text\<close>

definition is_break :: "char \<Rightarrow> bool" where
  "is_break c \<longleftrightarrow> c \<in> set [CHR 0x0A, CHR 0x0D, CHR 0x0B, CHR 0x0C, CHR 0x1C, CHR 0x1D, CHR 0x1E]"

fun splitlines_acc :: "string \<Rightarrow> string \<Rightarrow> string list" where
  "splitlines_acc acc [] = (if acc = [] then [] else [rev acc])"
| "splitlines_acc acc (c # cs) =
     (if \<not> is_break c then splitlines_acc (c # acc) cs
      else rev acc #
        (if c = CHR 0x0D \<and> take 1 cs = [CHR 0x0A] then splitlines_acc [] (tl cs) else splitlines_acc [] cs))"

definition splitlines :: "string \<Rightarrow> string list" where
  "splitlines s = splitlines_acc [] s"

section \<open>Generic lemmas\<close>

named_theorems removal_simps

lemma set_removeAll_minus [removal_simps]: "set (removeAll x xs) = set xs - {x}"
  by auto

lemma distinct_snoc: "x \<notin> set xs \<Longrightarrow> distinct xs \<Longrightarrow> distinct (xs @ [x])"
  by simp

end
