(* ===== verification/Hid_Keys.thy ===== *)
theory Hid_Keys
  imports Hid_Prelude
begin

text \<open>
  \<open>python/rkmoon_hid/keys.py\<close>: the table from normalised Windows virtual keys
  to kvmd key names and the table of mouse buttons.  A dictionary display keeps
  the last of two equal keys; the two tables have none, so the association
  lists are read with \<open>map_of\<close>.
\<close>

definition KEYS_items :: "(int \<times> string) list" where
  "KEYS_items =
     map (\<lambda>v. (v, ''Key'' @ [char_of v])) [0x41..0x5A] @
     map (\<lambda>v. (v, ''Digit'' @ [char_of v])) [0x30..0x39] @
     map (\<lambda>i. (0x70 + i, ''F'' @ int_str (i + 1))) [0..11] @
     map (\<lambda>i. (0x60 + i, ''Numpad'' @ int_str i)) [0..9] @
     [(0x08, ''Backspace''), (0x09, ''Tab''), (0x0C, ''Numpad5''), (0x0D, ''Enter''),
      (0x10, ''ShiftLeft''), (0x11, ''ControlLeft''), (0x12, ''AltLeft''), (0x13, ''Pause''),
      (0x14, ''CapsLock''), (0x1B, ''Escape''), (0x20, ''Space''), (0x21, ''PageUp''),
      (0x22, ''PageDown''), (0x23, ''End''), (0x24, ''Home''), (0x25, ''ArrowLeft''),
      (0x26, ''ArrowUp''), (0x27, ''ArrowRight''), (0x28, ''ArrowDown''),
      (0x2C, ''PrintScreen''), (0x2D, ''Insert''), (0x2E, ''Delete''), (0x5B, ''MetaLeft''),
      (0x5C, ''MetaRight''), (0x5D, ''ContextMenu''), (0x6A, ''NumpadMultiply''),
      (0x6B, ''NumpadAdd''), (0x6D, ''NumpadSubtract''), (0x6E, ''NumpadDecimal''),
      (0x6F, ''NumpadDivide''), (0x90, ''NumLock''), (0x91, ''ScrollLock''),
      (0xA0, ''ShiftLeft''), (0xA1, ''ShiftRight''), (0xA2, ''ControlLeft''),
      (0xA3, ''ControlRight''), (0xA4, ''AltLeft''), (0xA5, ''AltRight''),
      (0xBA, ''Semicolon''), (0xBB, ''Equal''), (0xBC, ''Comma''), (0xBD, ''Minus''),
      (0xBE, ''Period''), (0xBF, ''Slash''), (0xC0, ''Backquote''), (0xDB, ''BracketLeft''),
      (0xDC, ''Backslash''), (0xDD, ''BracketRight''), (0xDE, ''Quote''),
      (0xE2, ''IntlBackslash'')]"

definition KEYS :: "int \<Rightarrow> string option" where
  "KEYS = map_of KEYS_items"

definition BUTTONS_items :: "(int \<times> string) list" where
  "BUTTONS_items = [(1, ''left''), (2, ''middle''), (3, ''right''), (4, ''up''), (5, ''down'')]"

definition BUTTONS :: "int \<Rightarrow> string option" where
  "BUTTONS = map_of BUTTONS_items"

section \<open>The tables are functions on 0..255 and 1..5\<close>

lemma KEYS_items_distinct: "distinct (map fst KEYS_items)"
  by code_simp

lemma KEYS_items_range: "\<forall>(v, k) \<in> set KEYS_items. 0 \<le> v \<and> v \<le> 255 \<and> k \<noteq> []"
  by code_simp

lemma KEYS_range: "KEYS v = Some k \<Longrightarrow> 0 \<le> v \<and> v \<le> 255 \<and> k \<noteq> []"
  using KEYS_items_range unfolding KEYS_def by (fastforce dest: map_of_SomeD)

lemma ran_KEYS: "ran KEYS = snd ` set KEYS_items"
  by (simp add: KEYS_def ran_distinct KEYS_items_distinct)

lemma KEYS_in_ran: "KEYS v = Some k \<Longrightarrow> k \<in> snd ` set KEYS_items"
  by (metis ran_KEYS ranI)

lemma ShiftLeft_is_key: "''ShiftLeft'' \<in> snd ` set KEYS_items"
  by code_simp

lemma BUTTONS_items_distinct: "distinct (map fst BUTTONS_items)"
  by (simp add: BUTTONS_items_def)

lemma BUTTONS_range: "BUTTONS b = Some n \<longleftrightarrow> (b, n) \<in> set BUTTONS_items"
  by (simp add: BUTTONS_def BUTTONS_items_distinct)

lemma BUTTONS_names: "BUTTONS b = Some n \<Longrightarrow> n \<in> snd ` set BUTTONS_items"
  by (auto simp: BUTTONS_range intro: rev_image_eqI)

lemma BUTTONS_inj: "BUTTONS a = Some n \<Longrightarrow> BUTTONS b = Some n \<Longrightarrow> a = b"
  by (auto simp: BUTTONS_range BUTTONS_items_def)

lemma BUTTONS_defined: "1 \<le> b \<Longrightarrow> b \<le> 5 \<Longrightarrow> \<exists>n. BUTTONS b = Some n"
proof -
  assume "1 \<le> b" "b \<le> 5"
  then have "b = 1 \<or> b = 2 \<or> b = 3 \<or> b = 4 \<or> b = 5" by arith
  then show ?thesis by (auto simp: BUTTONS_def BUTTONS_items_def)
qed

end
