(* ===== verification/Hid_Events.thy ===== *)
theory Hid_Events
  imports Hid_Keys
begin

text \<open>
  The first half of \<open>python/rkmoon_hid/lease.py\<close>: the normalised input events,
  their validation (\<open>integer\<close>, \<open>parse_event\<close>) and the splitting of a motion
  into reports of at most 127 units per axis (\<open>chunks\<close>).

  \<open>parse_event\<close> returns the dictionary it was given; here its result is the
  event the dictionary denotes, one constructor per admitted \<open>"op"\<close> with the
  fields that \<open>"op"\<close> allows.  \<open>event_items\<close> gives the dictionary back, and
  \<open>parse_event_items\<close> and \<open>parse_event_sound\<close> say that the two agree.
\<close>

section \<open>Events\<close>

datatype event =
    EPing
  | EBye
  | EKey int bool
  | EButton int bool
  | EMove int int
  | EWheel int int
  | EAbsolute int int

definition integer :: "(string \<times> json) list \<Rightarrow> string \<Rightarrow> int \<Rightarrow> int \<Rightarrow> int res" where
  "integer e name low high =
     (case map_of e name of
        Some (JInt value) \<Rightarrow>
          if low \<le> value \<and> value \<le> high then Inr value else Inl InputError
      | _ \<Rightarrow> Inl InputError)"

definition allowed :: "string \<Rightarrow> string list option" where
  "allowed = map_of
     [(''ping'', [''op'']), (''bye'', [''op'']), (''key'', [''op'', ''vk'', ''down'']),
      (''button'', [''op'', ''button'', ''down'']), (''move'', [''op'', ''x'', ''y'']),
      (''wheel'', [''op'', ''x'', ''y'']), (''absolute'', [''op'', ''x'', ''y''])]"

definition parse_xy ::
  "(int \<Rightarrow> int \<Rightarrow> event) \<Rightarrow> (string \<times> json) list \<Rightarrow> int \<Rightarrow> int \<Rightarrow> event res" where
  "parse_xy mk e low high =
     (case integer e ''x'' low high of
        Inl err \<Rightarrow> Inl err
      | Inr x \<Rightarrow>
          (case integer e ''y'' low high of
             Inl err \<Rightarrow> Inl err
           | Inr y \<Rightarrow> Inr (mk x y)))"

definition parse_fields :: "string \<Rightarrow> (string \<times> json) list \<Rightarrow> event res" where
  "parse_fields op e =
     (if op = ''key'' \<or> op = ''button'' then
        (case map_of e ''down'' of
           Some (JBool down) \<Rightarrow>
             if op = ''key'' then
               (case integer e ''vk'' 0 255 of
                  Inl err \<Rightarrow> Inl err
                | Inr vk \<Rightarrow> if KEYS vk = None then Inl InputError else Inr (EKey vk down))
             else
               (case integer e ''button'' 1 5 of
                  Inl err \<Rightarrow> Inl err
                | Inr b \<Rightarrow> if BUTTONS b = None then Inl InputError else Inr (EButton b down))
         | _ \<Rightarrow> Inl InputError)
      else if op = ''move'' then parse_xy EMove e (-32767) 32767
      else if op = ''wheel'' then parse_xy EWheel e (-32767) 32767
      else if op = ''absolute'' then parse_xy EAbsolute e (-32768) 32767
      else if op = ''ping'' then Inr EPing
      else Inr EBye)"

definition parse_event :: "json \<Rightarrow> event res" where
  "parse_event e =
     (case e of
        JObj fs \<Rightarrow>
          (case map_of fs ''op'' of
             Some (JStr op) \<Rightarrow>
               (case allowed op of
                  None \<Rightarrow> Inl InputError
                | Some names \<Rightarrow>
                    if set (map fst fs) \<noteq> set names then Inl InputError
                    else parse_fields op fs)
           | _ \<Rightarrow> Inl InputError)
      | _ \<Rightarrow> Inl InputError)"

section \<open>What is a valid event\<close>

fun valid_event :: "event \<Rightarrow> bool" where
  "valid_event EPing = True"
| "valid_event EBye = True"
| "valid_event (EKey vk down) = (KEYS vk \<noteq> None)"
| "valid_event (EButton b down) = (1 \<le> b \<and> b \<le> 5)"
| "valid_event (EMove x y) = (\<bar>x\<bar> \<le> 32767 \<and> \<bar>y\<bar> \<le> 32767)"
| "valid_event (EWheel x y) = (\<bar>x\<bar> \<le> 32767 \<and> \<bar>y\<bar> \<le> 32767)"
| "valid_event (EAbsolute x y) =
     (-32768 \<le> x \<and> x \<le> 32767 \<and> -32768 \<le> y \<and> y \<le> 32767)"

text \<open>The items of the dictionary an event stands for.\<close>

fun event_items :: "event \<Rightarrow> (string \<times> json) list" where
  "event_items EPing = [(''op'', JStr ''ping'')]"
| "event_items EBye = [(''op'', JStr ''bye'')]"
| "event_items (EKey vk down) =
     [(''op'', JStr ''key''), (''vk'', JInt vk), (''down'', JBool down)]"
| "event_items (EButton b down) =
     [(''op'', JStr ''button''), (''button'', JInt b), (''down'', JBool down)]"
| "event_items (EMove x y) = [(''op'', JStr ''move''), (''x'', JInt x), (''y'', JInt y)]"
| "event_items (EWheel x y) = [(''op'', JStr ''wheel''), (''x'', JInt x), (''y'', JInt y)]"
| "event_items (EAbsolute x y) =
     [(''op'', JStr ''absolute''), (''x'', JInt x), (''y'', JInt y)]"

lemmas parse_defs = parse_event_def parse_fields_def parse_xy_def integer_def allowed_def

lemma integer_Inr_iff:
  "integer e name low high = Inr v \<longleftrightarrow>
     map_of e name = Some (JInt v) \<and> low \<le> v \<and> v \<le> high"
  by (auto simp: integer_def split: option.splits json.splits)

lemma integer_Inl: "integer e name low high = Inl err \<Longrightarrow> err = InputError"
  by (auto simp: integer_def split: option.splits json.splits if_splits)

lemma parse_xy_Inr_iff:
  "parse_xy mk e low high = Inr ev \<longleftrightarrow>
     (\<exists>x y. map_of e ''x'' = Some (JInt x) \<and> map_of e ''y'' = Some (JInt y) \<and>
        low \<le> x \<and> x \<le> high \<and> low \<le> y \<and> y \<le> high \<and> ev = mk x y)"
  by (auto simp: parse_xy_def integer_Inr_iff split: sum.splits)
     (auto simp: integer_def split: option.splits json.splits if_splits)

lemma parse_xy_Inl: "parse_xy mk e low high = Inl err \<Longrightarrow> err = InputError"
  by (auto simp: parse_xy_def dest: integer_Inl split: sum.splits)

text \<open>Every rejection is the one exception the session handler expects.\<close>

lemma parse_event_Inl: "parse_event e = Inl err \<Longrightarrow> err = InputError"
  by (auto simp: parse_event_def parse_fields_def dest: integer_Inl parse_xy_Inl
           split: json.splits option.splits if_splits sum.splits)

lemma parse_event_items:
  assumes "valid_event ev"
  shows "parse_event (JObj (event_items ev)) = Inr ev"
proof (cases ev)
  case (EKey vk down)
  with assms obtain k where "KEYS vk = Some k" by auto
  with EKey show ?thesis
    using KEYS_range [of vk k] by (simp add: parse_defs)
next
  case (EButton b down)
  with assms obtain n where "BUTTONS b = Some n" using BUTTONS_defined by auto
  with EButton assms show ?thesis by (simp add: parse_defs)
qed (use assms in \<open>auto simp: parse_defs\<close>)

lemma parse_event_sound:
  assumes "parse_event (JObj fs) = Inr ev"
  shows "valid_event ev \<and> map_of fs = map_of (event_items ev)"
proof -
  from assms obtain op names where op: "map_of fs ''op'' = Some (JStr op)"
    and names: "allowed op = Some names" and dom: "fst ` set fs = set names"
    and ev: "parse_fields op fs = Inr ev"
    by (auto simp: parse_event_def split: json.splits option.splits if_splits)
  have D: "dom (map_of fs) = set names"
    using dom by (simp add: dom_map_of_conv_image_fst)
  have "valid_event ev \<and> dom (map_of (event_items ev)) = set names \<and>
        (\<forall>n\<in>set names. map_of fs n = map_of (event_items ev) n)"
    using names op ev
    by (auto simp: allowed_def parse_fields_def integer_Inr_iff parse_xy_Inr_iff abs_le_iff
             split: if_splits option.splits json.splits sum.splits)
  then have valid: "valid_event ev" and E: "dom (map_of (event_items ev)) = set names"
    and eq: "\<And>n. n \<in> set names \<Longrightarrow> map_of fs n = map_of (event_items ev) n" by auto
  have "map_of fs n = map_of (event_items ev) n" for n
  proof (cases "n \<in> set names")
    case True
    then show ?thesis by (rule eq)
  next
    case False
    with D E have "n \<notin> dom (map_of fs)" and "n \<notin> dom (map_of (event_items ev))" by simp_all
    then show ?thesis by (simp only: domIff not_not)
  qed
  with valid show ?thesis by auto
qed

section \<open>Splitting a motion\<close>

text \<open>
  \<open>chunks\<close> is a generator; the list holds what it yields, in order.
\<close>

definition clamp127 :: "int \<Rightarrow> int" where
  "clamp127 v = max (-127) (min 127 v)"

function chunks :: "int \<Rightarrow> int \<Rightarrow> (int \<times> int) list" where
  "chunks x y =
     (if x \<noteq> 0 \<or> y \<noteq> 0 then
        let a = clamp127 x; b = clamp127 y
        in (a, b) # chunks (x - a) (y - b)
      else [])"
  by pat_completeness auto
termination
  by (relation "measure (\<lambda>(x, y). nat (\<bar>x\<bar> + \<bar>y\<bar>))") (auto simp: clamp127_def)

declare chunks.simps [simp del]

lemma clamp127_bound: "\<bar>clamp127 v\<bar> \<le> 127"
  by (simp add: clamp127_def)

lemma clamp127_zero [simp]: "clamp127 v = 0 \<longleftrightarrow> v = 0"
  by (auto simp: clamp127_def)

lemma clamp127_rest: "\<bar>v - clamp127 v\<bar> = max 0 (\<bar>v\<bar> - 127)"
  by (auto simp: clamp127_def)

lemma clamp127_sign:
  "0 \<le> v \<Longrightarrow> 0 \<le> clamp127 v \<and> clamp127 v \<le> v"
  "v \<le> 0 \<Longrightarrow> v \<le> clamp127 v \<and> clamp127 v \<le> 0"
  by (auto simp: clamp127_def)

lemma chunks_zero [simp]: "chunks 0 0 = []"
  by (simp add: chunks.simps)

lemma chunks_step:
  "x \<noteq> 0 \<or> y \<noteq> 0 \<Longrightarrow>
     chunks x y = (clamp127 x, clamp127 y) # chunks (x - clamp127 x) (y - clamp127 y)"
  by (subst chunks.simps) (auto simp: Let_def)

lemma chunks_induct [case_names stop more]:
  assumes "P 0 0"
    and "\<And>x y. x \<noteq> 0 \<or> y \<noteq> 0 \<Longrightarrow> P (x - clamp127 x) (y - clamp127 y) \<Longrightarrow> P x y"
  shows "P x y"
  by (induction x y rule: chunks.induct) (metis assms)

lemma chunks_sum:
  "(\<Sum>(a, b)\<leftarrow>chunks x y. a) = x \<and> (\<Sum>(a, b)\<leftarrow>chunks x y. b) = y"
proof (induction x y rule: chunks_induct)
  case (more x y)
  then show ?case by (simp add: chunks_step [of x y])
qed simp

lemma chunks_member:
  assumes "x \<noteq> 0 \<or> y \<noteq> 0" and "c \<in> set (chunks x y)"
  obtains "c = (clamp127 x, clamp127 y)" | "c \<in> set (chunks (x - clamp127 x) (y - clamp127 y))"
  using assms(2) unfolding chunks_step [OF assms(1)] by auto

lemma chunks_bounded:
  "(a, b) \<in> set (chunks x y) \<Longrightarrow> \<bar>a\<bar> \<le> 127 \<and> \<bar>b\<bar> \<le> 127 \<and> (a, b) \<noteq> (0, 0)"
proof (induction x y rule: chunks_induct)
  case (more x y)
  from more.hyps more.prems show ?case
  proof (cases rule: chunks_member)
    case 1
    then show ?thesis using more.hyps clamp127_bound by auto
  next
    case 2
    then show ?thesis by (rule more.IH)
  qed
qed simp

lemma chunks_length:
  "int (length (chunks x y)) = (max \<bar>x\<bar> \<bar>y\<bar> + 126) div 127"
proof (induction x y rule: chunks_induct)
  case stop
  show ?case by simp
next
  case (more x y)
  define m where "m = max \<bar>x\<bar> \<bar>y\<bar>"
  from more.hyps have pos: "1 \<le> m" by (auto simp: m_def)
  have rest: "max \<bar>x - clamp127 x\<bar> \<bar>y - clamp127 y\<bar> = max 0 (m - 127)"
    unfolding clamp127_rest m_def by linarith
  have "int (length (chunks x y)) = 1 + (max 0 (m - 127) + 126) div 127"
    using more by (simp add: chunks_step [of x y] rest)
  also have "\<dots> = (m + 126) div 127"
    using pos by (cases "m \<le> 127") auto
  finally show ?case by (simp add: m_def)
qed

text \<open>Every chunk points the way the motion does, so no report overshoots.\<close>

lemma chunks_direction:
  "(a, b) \<in> set (chunks x y) \<Longrightarrow>
     (0 \<le> x \<longrightarrow> 0 \<le> a \<and> a \<le> x) \<and> (x \<le> 0 \<longrightarrow> x \<le> a \<and> a \<le> 0) \<and>
     (0 \<le> y \<longrightarrow> 0 \<le> b \<and> b \<le> y) \<and> (y \<le> 0 \<longrightarrow> y \<le> b \<and> b \<le> 0)"
proof (induction x y rule: chunks_induct)
  case stop
  then show ?case by simp
next
  case (more x y)
  from more.hyps more.prems show ?case
  proof (cases rule: chunks_member)
    case 1
    then show ?thesis by (simp add: clamp127_sign)
  next
    case 2
    note IH = more.IH [OF 2]
    show ?thesis
      using IH clamp127_sign(1) [of x] clamp127_sign(2) [of x]
        clamp127_sign(1) [of y] clamp127_sign(2) [of y] by linarith
  qed
qed

lemma parse_event_map_of:
  assumes "map_of fs = map_of gs"
  shows "parse_event (JObj fs) = parse_event (JObj gs)"
proof -
  have k: "set (map fst fs) = set (map fst gs)"
    using assms by (metis dom_map_of_conv_image_fst list.set_map)
  have f: "\<And>op. parse_fields op fs = parse_fields op gs"
    unfolding parse_fields_def parse_xy_def integer_def assms ..
  show ?thesis
    unfolding parse_event_def json.case k assms f ..
qed

text \<open>
  C15. \<open>parse_event\<close> accepts exactly the dictionaries that denote a valid event: the right
  fields and no other, integers that are not booleans, everything in range.
\<close>

theorem parse_event_iff:
  "parse_event j = Inr ev \<longleftrightarrow>
     (\<exists>fs. j = JObj fs \<and> valid_event ev \<and> map_of fs = map_of (event_items ev))"
proof
  assume p: "parse_event j = Inr ev"
  then obtain fs where "j = JObj fs"
    by (cases j) (simp_all add: parse_event_def)
  with p parse_event_sound show "\<exists>fs. j = JObj fs \<and> valid_event ev \<and> map_of fs = map_of (event_items ev)"
    by blast
next
  assume "\<exists>fs. j = JObj fs \<and> valid_event ev \<and> map_of fs = map_of (event_items ev)"
  then show "parse_event j = Inr ev"
    using parse_event_map_of parse_event_items by metis
qed

text \<open>
  The reports of a motion add up to it, each is within 127 units per axis and none
  is empty, and there are as few as possible.
\<close>

lemma chunks_split:
  "(\<Sum>(a, b)\<leftarrow>chunks x y. a) = x \<and> (\<Sum>(a, b)\<leftarrow>chunks x y. b) = y \<and>
   int (length (chunks x y)) = (max \<bar>x\<bar> \<bar>y\<bar> + 126) div 127 \<and>
   list_all (\<lambda>(a, b). \<bar>a\<bar> \<le> 127 \<and> \<bar>b\<bar> \<le> 127 \<and> (a, b) \<noteq> (0, 0)) (chunks x y)"
  using chunks_sum [of x y] chunks_length [of x y]
  by (auto simp: list_all_iff dest!: chunks_bounded)

end
