(* ===== verification/Hid_Queue.thy ===== *)
theory Hid_Queue
  imports Hid_Events
begin

text \<open>
  The bounded event queue between the socket reader and the consumer of a
  session (class \<open>Queue\<close> of \<open>python/rkmoon_hid/lease.py\<close>).  Adjacent motion is
  merged; everything else keeps its place.

  \<open>observe\<close> says what the USB host can tell from a list of events: where the
  pointer is at every key, button and wheel event, which of these there are,
  and where the pointer ends.  The lemmas show that merging is invisible to it,
  that the queue never exceeds its capacity, and that a consumer waiting for
  \<open>ready\<close> is never left asleep over a queue with events in it.
\<close>

section \<open>The queue\<close>

record queue =
  items :: "event list"
  capacity :: nat
  ready :: bool
  highwater :: nat

definition new_queue :: "nat \<Rightarrow> queue" where
  "new_queue n = \<lparr>items = [], capacity = n, ready = False, highwater = 0\<rparr>"

definition append_event :: "queue \<Rightarrow> event \<Rightarrow> queue res" where
  "append_event q ev =
     (if length (items q) \<ge> capacity q then Inl InputError
      else Inr (q\<lparr>items := items q @ [ev],
                  highwater := max (highwater q) (length (items q @ [ev])),
                  ready := True\<rparr>))"

definition put :: "queue \<Rightarrow> event \<Rightarrow> queue res" where
  "put q ev =
     (case (ev, if items q = [] then None else Some (last (items q))) of
        (EAbsolute _ _, Some (EAbsolute _ _)) \<Rightarrow> Inr (q\<lparr>items := butlast (items q) @ [ev]\<rparr>)
      | (EMove ex ey, Some (EMove lx ly)) \<Rightarrow>
          let x = lx + ex; y = ly + ey in
          if \<bar>x\<bar> \<le> 32767 \<and> \<bar>y\<bar> \<le> 32767
          then Inr (q\<lparr>items := butlast (items q) @ [EMove x y]\<rparr>)
          else append_event q ev
      | _ \<Rightarrow> append_event q ev)"

text \<open>
  \<open>pop\<close> suspends while the queue is empty, with \<open>ready\<close> cleared; the
  result \<open>None\<close> is the suspended call.
\<close>

definition pop :: "queue \<Rightarrow> event option \<times> queue" where
  "pop q =
     (case items q of
        [] \<Rightarrow> (None, q\<lparr>ready := False\<rparr>)
      | e # es \<Rightarrow> (Some e, q\<lparr>items := es\<rparr>))"

section \<open>What the host can tell\<close>

fun observe :: "int \<times> int \<Rightarrow> event list \<Rightarrow> ((int \<times> int) \<times> event) list \<times> (int \<times> int)" where
  "observe p [] = ([], p)"
| "observe p (EMove x y # es) = observe (fst p + x, snd p + y) es"
| "observe p (EAbsolute x y # es) = observe (x, y) es"
| "observe p (e # es) = ((p, e) # fst (observe p es), snd (observe p es))"

definition same_effect :: "event list \<Rightarrow> event list \<Rightarrow> bool" where
  "same_effect xs ys \<longleftrightarrow> (\<forall>p. observe p xs = observe p ys)"

fun is_motion :: "event \<Rightarrow> bool" where
  "is_motion (EMove _ _) = True"
| "is_motion (EAbsolute _ _) = True"
| "is_motion _ = False"

lemma observe_append:
  "observe p (xs @ ys) =
     (fst (observe p xs) @ fst (observe (snd (observe p xs)) ys),
      snd (observe (snd (observe p xs)) ys))"
  by (induction p xs rule: observe.induct) auto

lemma observe_edges: "map snd (fst (observe p xs)) = filter (\<lambda>e. \<not> is_motion e) xs"
  by (induction p xs rule: observe.induct) auto

lemma same_effect_refl: "same_effect xs xs"
  by (simp add: same_effect_def)

lemma same_effect_trans: "same_effect xs ys \<Longrightarrow> same_effect ys zs \<Longrightarrow> same_effect xs zs"
  by (simp add: same_effect_def)

lemma same_effect_append:
  "same_effect xs ys \<Longrightarrow> same_effect us vs \<Longrightarrow> same_effect (xs @ us) (ys @ vs)"
  by (simp add: same_effect_def observe_append del: split_paired_All)

section \<open>One operation\<close>

text \<open>The invariant: capacity, high-water mark, and no lost wake-up.\<close>

definition queue_ok :: "queue \<Rightarrow> bool" where
  "queue_ok q \<longleftrightarrow>
     length (items q) \<le> highwater q \<and> highwater q \<le> capacity q \<and>
     (items q \<noteq> [] \<longrightarrow> ready q)"

lemma queue_ok_new: "queue_ok (new_queue n)"
  by (simp add: queue_ok_def new_queue_def)

lemma put_cases:
  assumes "put q ev = Inr q'"
  obtains (append) "append_event q ev = Inr q'"
  | (absolute) bs ax ay x y where "items q = bs @ [EAbsolute ax ay]" "ev = EAbsolute x y"
      "q' = q\<lparr>items := bs @ [EAbsolute x y]\<rparr>"
  | (move) bs lx ly x y where "items q = bs @ [EMove lx ly]" "ev = EMove x y"
      "q' = q\<lparr>items := bs @ [EMove (lx + x) (ly + y)]\<rparr>"
proof (cases "items q" rule: rev_cases)
  case Nil
  with assms append show ?thesis by (auto simp: put_def split: event.splits)
next
  case (snoc bs l)
  with assms append absolute move show ?thesis
    by (cases ev; cases l) (auto simp: put_def Let_def split: if_splits)
qed

lemma append_event_Inr:
  "append_event q ev = Inr q' \<longleftrightarrow>
     length (items q) < capacity q \<and>
     q' = q\<lparr>items := items q @ [ev],
            highwater := max (highwater q) (Suc (length (items q))), ready := True\<rparr>"
  by (auto simp: append_event_def)

lemma put_capacity: "put q ev = Inr q' \<Longrightarrow> capacity q' = capacity q"
  by (erule put_cases) (auto simp: append_event_Inr)

lemma put_ok: "queue_ok q \<Longrightarrow> put q ev = Inr q' \<Longrightarrow> queue_ok q'"
  by (erule put_cases) (auto simp: append_event_Inr queue_ok_def)

lemma put_effect: "put q ev = Inr q' \<Longrightarrow> same_effect (items q') (items q @ [ev])"
  by (erule put_cases)
     (auto simp: append_event_Inr same_effect_def observe_append algebra_simps)

lemma put_Inl:
  "put q ev = Inl err \<Longrightarrow> err = InputError \<and> length (items q) \<ge> capacity q"
  by (auto simp: put_def append_event_def Let_def split: event.splits if_splits)

lemma pop_capacity: "pop q = (r, q') \<Longrightarrow> capacity q' = capacity q"
  by (auto simp: pop_def split: list.splits)

lemma pop_ok: "queue_ok q \<Longrightarrow> pop q = (r, q') \<Longrightarrow> queue_ok q'"
  by (auto simp: pop_def queue_ok_def split: list.splits)

lemma pop_Some: "pop q = (Some e, q') \<Longrightarrow> items q = e # items q'"
  by (auto simp: pop_def split: list.splits)

lemma pop_None: "pop q = (None, q') \<Longrightarrow> items q = [] \<and> items q' = []"
  by (auto simp: pop_def split: list.splits)

section \<open>The buffer as its two clients use it\<close>

text \<open>
  A session interleaves the reader's \<open>put\<close> with the consumer's \<open>pop\<close> in an
  order the event loop chooses.  \<open>run_buffer\<close> runs one such order; it stops at
  the first exception of \<open>put\<close>, which revokes the lease.
\<close>

datatype 'e buffer_op = Enq 'e | Deq

fun enqueued :: "'e buffer_op list \<Rightarrow> 'e list" where
  "enqueued [] = []"
| "enqueued (Enq e # ops) = e # enqueued ops"
| "enqueued (Deq # ops) = enqueued ops"

fun run_buffer ::
  "('q \<Rightarrow> 'e \<Rightarrow> 'q res) \<Rightarrow> ('q \<Rightarrow> 'e option \<times> 'q) \<Rightarrow> 'q \<Rightarrow> 'e buffer_op list \<Rightarrow> ('e list \<times> 'q) res"
where
  "run_buffer enq deq q [] = Inr ([], q)"
| "run_buffer enq deq q (Enq e # ops) =
     (case enq q e of Inl err \<Rightarrow> Inl err | Inr q' \<Rightarrow> run_buffer enq deq q' ops)"
| "run_buffer enq deq q (Deq # ops) =
     (case deq q of
        (None, q') \<Rightarrow> run_buffer enq deq q' ops
      | (Some e, q') \<Rightarrow>
          (case run_buffer enq deq q' ops of
             Inl err \<Rightarrow> Inl err
           | Inr (es, q'') \<Rightarrow> Inr (e # es, q'')))"

locale coalescing_buffer =
  fixes enq :: "'q \<Rightarrow> 'e \<Rightarrow> 'q res"
    and deq :: "'q \<Rightarrow> 'e option \<times> 'q"
    and contents :: "'q \<Rightarrow> 'e list"
    and inv :: "'q \<Rightarrow> bool"
    and equiv :: "'e list \<Rightarrow> 'e list \<Rightarrow> bool"
  assumes equiv_refl: "equiv xs xs"
    and equiv_trans: "equiv xs ys \<Longrightarrow> equiv ys zs \<Longrightarrow> equiv xs zs"
    and equiv_append: "equiv xs ys \<Longrightarrow> equiv us vs \<Longrightarrow> equiv (xs @ us) (ys @ vs)"
    and enq_inv: "inv q \<Longrightarrow> enq q e = Inr q' \<Longrightarrow> inv q'"
    and enq_contents: "inv q \<Longrightarrow> enq q e = Inr q' \<Longrightarrow> equiv (contents q') (contents q @ [e])"
    and deq_inv: "inv q \<Longrightarrow> deq q = (r, q') \<Longrightarrow> inv q'"
    and deq_some: "inv q \<Longrightarrow> deq q = (Some e, q') \<Longrightarrow> contents q = e # contents q'"
    and deq_none: "inv q \<Longrightarrow> deq q = (None, q') \<Longrightarrow> contents q = [] \<and> contents q' = []"
begin

lemma run_Enq:
  "run_buffer enq deq q (Enq e # ops) = Inr res \<longleftrightarrow>
     (\<exists>q1. enq q e = Inr q1 \<and> run_buffer enq deq q1 ops = Inr res)"
  by (auto split: sum.splits)

lemma run_Deq:
  assumes "run_buffer enq deq q (Deq # ops) = Inr (out, q')"
  obtains (empty) q1 where "deq q = (None, q1)" "run_buffer enq deq q1 ops = Inr (out, q')"
  | (item) e q1 out1 where "deq q = (Some e, q1)" "run_buffer enq deq q1 ops = Inr (out1, q')"
      "out = e # out1"
  using assms by (auto split: prod.splits option.splits sum.splits)

lemma run_inv:
  "inv q \<Longrightarrow> run_buffer enq deq q ops = Inr (out, q') \<Longrightarrow> inv q'"
proof (induction ops arbitrary: q out)
  case (Cons op ops)
  show ?case
  proof (cases op)
    case (Enq e)
    with Cons.prems show ?thesis unfolding Enq run_Enq by (blast intro: enq_inv Cons.IH)
  next
    case Deq
    from Cons.prems(2) [unfolded Deq] show ?thesis
      by (cases rule: run_Deq) (blast intro: Cons.IH deq_inv Cons.prems(1))+
  qed
qed simp

lemma run_equiv:
  "inv q \<Longrightarrow> run_buffer enq deq q ops = Inr (out, q') \<Longrightarrow>
     equiv (out @ contents q') (contents q @ enqueued ops)"
proof (induction ops arbitrary: q out)
  case Nil
  then show ?case by (simp add: equiv_refl)
next
  case (Cons op ops)
  show ?case
  proof (cases op)
    case (Enq e)
    with Cons.prems obtain q1 where q1: "enq q e = Inr q1"
      and run: "run_buffer enq deq q1 ops = Inr (out, q')"
      unfolding Enq run_Enq by blast
    have "equiv (out @ contents q') (contents q1 @ enqueued ops)"
      using Cons.IH [OF enq_inv [OF Cons.prems(1) q1] run] .
    moreover have "equiv (contents q1 @ enqueued ops) ((contents q @ [e]) @ enqueued ops)"
      by (rule equiv_append [OF enq_contents [OF Cons.prems(1) q1] equiv_refl])
    ultimately show ?thesis using Enq by (auto intro: equiv_trans)
  next
    case Deq
    from Cons.prems(2) [unfolded Deq] show ?thesis
    proof (cases rule: run_Deq)
      case (empty q1)
      with Cons.IH [OF deq_inv empty(2)] deq_none [OF Cons.prems(1) empty(1)] Cons.prems(1) Deq
      show ?thesis by simp
    next
      case (item e q1 out1)
      have "equiv ([e] @ (out1 @ contents q')) ([e] @ (contents q1 @ enqueued ops))"
        using item Cons.prems(1) by (intro equiv_append equiv_refl Cons.IH) (blast intro: deq_inv)+
      with Deq item(3) deq_some [OF Cons.prems(1) item(1)] show ?thesis by simp
    qed
  qed
qed

end

interpretation hq: coalescing_buffer put pop items queue_ok same_effect
  by unfold_locales
     (blast intro: same_effect_refl same_effect_trans same_effect_append put_ok put_effect
        pop_ok pop_Some dest: pop_None)+

lemma run_buffer_capacity:
  "run_buffer put pop q ops = Inr (out, q') \<Longrightarrow> capacity q' = capacity q"
proof (induction ops arbitrary: q out)
  case (Cons op ops)
  show ?case
  proof (cases op)
    case (Enq e)
    with Cons.prems show ?thesis unfolding Enq hq.run_Enq by (metis put_capacity Cons.IH)
  next
    case Deq
    from Cons.prems [unfolded Deq] show ?thesis
      by (cases rule: hq.run_Deq) (auto dest!: pop_capacity Cons.IH)
  qed
qed simp

text \<open>
  C12. Whatever the order of \<open>put\<close> and \<open>pop\<close>, the events that come out and those still
  queued have the effect of the events put in: the same edges, each with the pointer at the
  same place, and the same final place.  The queue stays within its capacity and is never
  left unannounced.
\<close>

theorem queue_keeps_effect:
  assumes "run_buffer put pop (new_queue n) ops = Inr (out, q)"
  shows "observe p (out @ items q) = observe p (enqueued ops) \<and> length (items q) \<le> n \<and>
    (items q \<noteq> [] \<longrightarrow> ready q)"
proof -
  have "queue_ok q" and "capacity q = n"
    using hq.run_inv [OF queue_ok_new assms] run_buffer_capacity [OF assms] by (simp_all add: new_queue_def)
  moreover have "observe p (out @ items q) = observe p (enqueued ops)"
    using hq.run_equiv [OF queue_ok_new assms] by (simp add: new_queue_def same_effect_def del: split_paired_All)
  ultimately show ?thesis
    by (simp add: queue_ok_def)
qed

theorem queue_keeps_effect_witness:
  "observe (0, 0) ([EMove 1 1] @ [EKey 65 True, EMove 5 6]) =
     observe (0, 0) [EMove 1 1, EKey 65 True, EMove 2 2, EMove 3 4]"
proof -
  have "run_buffer put pop (new_queue 3)
      [Enq (EMove 1 1), Enq (EKey 65 True), Deq, Enq (EMove 2 2), Enq (EMove 3 4)] =
    Inr ([EMove 1 1], \<lparr>items = [EKey 65 True, EMove 5 6], capacity = 3, ready = True, highwater = 2\<rparr>)"
    by (simp add: new_queue_def put_def append_event_def pop_def)
  from queue_keeps_effect [OF this, of "(0, 0)"] show ?thesis by simp
qed

lemma put_refused:
  assumes "put q ev = Inl err"
  shows "err = InputError \<and> length (items q) \<ge> capacity q \<and>
    (items q \<noteq> [] \<longrightarrow> (case (last (items q), ev) of
        (EAbsolute _ _, EAbsolute _ _) \<Rightarrow> False
      | (EMove lx ly, EMove x y) \<Rightarrow> \<bar>lx + x\<bar> > 32767 \<or> \<bar>ly + y\<bar> > 32767
      | _ \<Rightarrow> True))"
  using assms put_Inl [OF assms]
  by (auto simp: put_def Let_def split: event.splits if_splits)

lemma put_refused_witness:
  "put \<lparr>items = [EMove 32767 0], capacity = 1, ready = True, highwater = 1\<rparr> (EMove 1 0) = Inl InputError
   \<and> (1 :: nat) \<ge> 1"
proof -
  have *: "put \<lparr>items = [EMove 32767 0], capacity = 1, ready = True, highwater = 1\<rparr> (EMove 1 0) = Inl InputError"
    by (simp add: put_def append_event_def)
  from put_refused [OF *] * show ?thesis by simp
qed

end
