(* ===== verification/Hid_Sink.thy ===== *)
theory Hid_Sink
  imports Hid_Keys
begin

text \<open>
  The interface between a lease and an input backend.  The backend is an object
  with one coroutine per kind of report.  A \<open>sink\<close> is such an object: \<open>send\<close>
  performs one call on a state \<open>'s\<close> of the outside world and says whether it
  raised; \<open>has_move_many\<close> is \<open>hasattr(events, "move_many")\<close>.  \<open>KvmdStream\<close>
  and \<open>Kvmd\<close> of \<open>backend.py\<close> are sinks (theories \<open>Hid_Stream\<close> and \<open>Hid_Http\<close>).

  A trace is what an observer between the bridge and kvmd writes down: every
  call with its outcome, and every flush of the stream.  \<open>open_keys\<close> reads off
  a trace the keys that were pressed and not released by a later call that
  succeeded; \<open>unacked_keys\<close> counts a release written to the stream only once a
  later flush has confirmed it.
\<close>

section \<open>Backend calls\<close>

datatype call =
    CKey string bool
  | CButton string bool
  | CMove int int
  | CMoveMany "(int \<times> int) list"
  | CAbsolute int int
  | CWheel int int

record 's sink =
  send :: "call \<Rightarrow> 's \<Rightarrow> 's \<times> exn option"
  has_move_many :: bool

text \<open>Calls in a row, up to the first that raises.\<close>

fun send_all :: "'s sink \<Rightarrow> call list \<Rightarrow> 's \<Rightarrow> 's \<times> exn option" where
  "send_all k [] s = (s, None)"
| "send_all k (c # cs) s =
     (case send k c s of
        (s', None) \<Rightarrow> send_all k cs s'
      | (s', Some e) \<Rightarrow> (s', Some e))"

section \<open>What a call does to the keys and buttons held\<close>

text \<open>
  A press counts from the moment it is sent, whatever its outcome (a request
  that timed out may still have been applied); a release counts when it
  succeeded.
\<close>

fun key_effect :: "call \<Rightarrow> bool \<Rightarrow> string set \<Rightarrow> string set" where
  "key_effect (CKey n True) ok S = insert n S"
| "key_effect (CKey n False) ok S = (if ok then S - {n} else S)"
| "key_effect c ok S = S"

fun button_effect :: "call \<Rightarrow> bool \<Rightarrow> string set \<Rightarrow> string set" where
  "button_effect (CButton n True) ok S = insert n S"
| "button_effect (CButton n False) ok S = (if ok then S - {n} else S)"
| "button_effect c ok S = S"

fun is_report :: "call \<Rightarrow> bool" where
  "is_report (CKey _ _) = False"
| "is_report (CButton _ _) = False"
| "is_report _ = True"

lemma effect_report [simp]:
  "is_report c \<Longrightarrow> key_effect c ok S = S" "is_report c \<Longrightarrow> button_effect c ok S = S"
  by (cases c; simp)+

lemma effect_CKey [simp]: "button_effect (CKey n d) ok S = S"
  by (cases d) simp_all

lemma effect_CButton [simp]: "key_effect (CButton n d) ok S = S"
  by (cases d) simp_all

lemma key_effect_mono: "S \<subseteq> T \<Longrightarrow> key_effect c ok S \<subseteq> key_effect c ok T"
  by (cases "(c, ok, S)" rule: key_effect.cases) auto

lemma key_effect_ok: "key_effect c True S \<subseteq> key_effect c ok S"
  by (cases "(c, ok, S)" rule: key_effect.cases) auto

section \<open>What a lease needs of a sink\<close>

locale hid_sink =
  fixes k :: "'s sink"
    and keys_out :: "'s \<Rightarrow> string set"
    and buttons_out :: "'s \<Rightarrow> string set"
  assumes keys_bound:
      "send k c s = (s', r) \<Longrightarrow> keys_out s' \<subseteq> key_effect c (r = None) (keys_out s)"
    and buttons_bound:
      "send k c s = (s', r) \<Longrightarrow> buttons_out s' \<subseteq> button_effect c (r = None) (buttons_out s)"
begin

lemma send_all_reports:
  "list_all is_report cs \<Longrightarrow> send_all k cs s = (s', r) \<Longrightarrow>
     keys_out s' \<subseteq> keys_out s \<and> buttons_out s' \<subseteq> buttons_out s"
proof (induction cs arbitrary: s)
  case (Cons c cs)
  obtain s1 r1 where c: "send k c s = (s1, r1)" by fastforce
  have s1: "keys_out s1 \<subseteq> keys_out s \<and> buttons_out s1 \<subseteq> buttons_out s"
    using Cons.prems(1) keys_bound [OF c] buttons_bound [OF c] by simp
  show ?case
  proof (cases r1)
    case None
    with Cons.prems c have "send_all k cs s1 = (s', r)" by simp
    with Cons.IH Cons.prems(1) s1 show ?thesis by (simp, blast)
  next
    case (Some e)
    with Cons.prems c s1 show ?thesis by simp
  qed
qed simp

end

text \<open>A sink that never raises and whose record of keys and buttons is exact.\<close>

locale reliable_sink =
  fixes k :: "'s sink"
    and keys_out :: "'s \<Rightarrow> string set"
    and buttons_out :: "'s \<Rightarrow> string set"
  assumes never_raises: "send k c s = (s', r) \<Longrightarrow> r = None"
    and keys_exact: "send k c s = (s', r) \<Longrightarrow> keys_out s' = key_effect c True (keys_out s)"
    and buttons_exact:
      "send k c s = (s', r) \<Longrightarrow> buttons_out s' = button_effect c True (buttons_out s)"
begin

lemma send_all_reliable:
  "list_all is_report cs \<Longrightarrow> send_all k cs s = (s', r) \<Longrightarrow>
     r = None \<and> keys_out s' = keys_out s \<and> buttons_out s' = buttons_out s"
proof (induction cs arbitrary: s)
  case (Cons c cs)
  obtain s1 r1 where c: "send k c s = (s1, r1)" by fastforce
  from Cons.prems c never_raises [OF c] have "send_all k cs s1 = (s', r)" by simp
  with Cons.IH Cons.prems(1) keys_exact [OF c] buttons_exact [OF c] show ?case by simp
qed simp

end

sublocale reliable_sink \<subseteq> hid_sink
  by unfold_locales (auto simp: keys_exact buttons_exact never_raises)

section \<open>Traces\<close>

datatype via = Http | Ws

datatype entry = Sent via call bool | Flushed bool

text \<open>The newest entry comes first.\<close>

type_synonym trace = "entry list"

definition traced :: "via \<Rightarrow> 's sink \<Rightarrow> ('s \<times> trace) sink" where
  "traced v k =
     \<lparr>send = (\<lambda>c (s, t). case send k c s of (s', r) \<Rightarrow> ((s', Sent v c (r = None) # t), r)),
      has_move_many = has_move_many k\<rparr>"

fun open_keys :: "trace \<Rightarrow> string set" where
  "open_keys [] = {}"
| "open_keys (Sent v c ok # t) = key_effect c ok (open_keys t)"
| "open_keys (Flushed ok # t) = open_keys t"

fun open_buttons :: "trace \<Rightarrow> string set" where
  "open_buttons [] = {}"
| "open_buttons (Sent v c ok # t) = button_effect c ok (open_buttons t)"
| "open_buttons (Flushed ok # t) = open_buttons t"

text \<open>
  The flag says whether a flush after this point succeeded.  A release over
  HTTP is confirmed by its own reply.
\<close>

fun unacked_keys :: "bool \<Rightarrow> trace \<Rightarrow> string set" where
  "unacked_keys f [] = {}"
| "unacked_keys f (Sent v c ok # t) = key_effect c (ok \<and> (v = Http \<or> f)) (unacked_keys f t)"
| "unacked_keys f (Flushed ok # t) = unacked_keys (f \<or> ok) t"

text \<open>Every event of the stream is behind a flush that succeeded.\<close>

fun ws_settled :: "trace \<Rightarrow> bool" where
  "ws_settled [] = True"
| "ws_settled (Flushed ok # t) = (ok \<or> ws_settled t)"
| "ws_settled (Sent v c ok # t) = (v = Http \<and> ws_settled t)"

lemma unacked_keys_flushed: "unacked_keys True t = open_keys t"
  by (induction t rule: open_keys.induct) simp_all

lemma open_subset_unacked: "open_keys t \<subseteq> unacked_keys f t"
proof (induction f t rule: unacked_keys.induct)
  case (2 f v c ok t)
  have "key_effect c ok (open_keys t) \<subseteq> key_effect c ok (unacked_keys f t)"
    by (rule key_effect_mono) (rule 2)
  also have "\<dots> \<subseteq> key_effect c (ok \<and> (v = Http \<or> f)) (unacked_keys f t)"
    using key_effect_ok by (cases ok) auto
  finally show ?case by simp
qed simp_all

lemma ws_settled_unacked: "ws_settled t \<Longrightarrow> unacked_keys False t = open_keys t"
proof (induction t)
  case (Cons e t)
  show ?case
  proof (cases e)
    case (Sent v c ok)
    with Cons show ?thesis by simp
  next
    case (Flushed ok)
    with Cons show ?thesis by (cases ok) (simp_all add: unacked_keys_flushed)
  qed
qed simp

text \<open>Whatever sink is traced, the trace obeys the interface.\<close>

lemma send_traced:
  "send (traced v k) c (s, t) = (st', r) \<longleftrightarrow>
     (\<exists>s'. send k c s = (s', r) \<and> st' = (s', Sent v c (r = None) # t))"
  by (auto simp: traced_def split: prod.splits)

lemma traced_trace:
  "send (traced v k) c st = (st', r) \<Longrightarrow> snd st' = Sent v c (r = None) # snd st"
  by (cases st) (auto simp: traced_def split: prod.splits)

interpretation tr: hid_sink "traced v k" "\<lambda>st. open_keys (snd st)" "\<lambda>st. open_buttons (snd st)"
  for v k
proof unfold_locales
  fix c :: call and st st' :: "'a \<times> trace" and r
  assume "send (traced v k) c st = (st', r)"
  from traced_trace [OF this] show "open_keys (snd st') \<subseteq> key_effect c (r = None) (open_keys (snd st))"
    and "open_buttons (snd st') \<subseteq> button_effect c (r = None) (open_buttons (snd st))"
    by simp_all
qed

text \<open>Over HTTP the same holds of the confirmed record.\<close>

interpretation ack: hid_sink "traced Http k" "\<lambda>st. unacked_keys False (snd st)"
    "\<lambda>st. open_buttons (snd st)"
  for k
proof unfold_locales
  fix c :: call and st st' :: "'a \<times> trace" and r
  assume "send (traced Http k) c st = (st', r)"
  from traced_trace [OF this] show "unacked_keys False (snd st') \<subseteq> key_effect c (r = None) (unacked_keys False (snd st))"
    and "open_buttons (snd st') \<subseteq> button_effect c (r = None) (open_buttons (snd st))"
    by simp_all
qed

section \<open>The recording backend of the tests\<close>

text \<open>
  The class \<open>Fake\<close> of \<open>tests/test_hid.py\<close>: it records every call, raises on a
  press when \<open>fail_down\<close> is set and on a release when \<open>fail_release\<close> is set
  (a button press never fails).  It has no \<open>move_many\<close>.
\<close>

fun fake_raises :: "bool \<Rightarrow> bool \<Rightarrow> call \<Rightarrow> bool" where
  "fake_raises fail_down fail_release (CKey n d) = ((d \<and> fail_down) \<or> (\<not> d \<and> fail_release))"
| "fake_raises fail_down fail_release (CButton n d) = (\<not> d \<and> fail_release)"
| "fake_raises fail_down fail_release c = False"

definition fake_sink :: "bool \<Rightarrow> bool \<Rightarrow> call list sink" where
  "fake_sink fail_down fail_release =
     \<lparr>send = (\<lambda>c evs. (evs @ [c],
                         if fake_raises fail_down fail_release c then Some BackendError else None)),
      has_move_many = False\<rparr>"

text \<open>The keys and buttons down after the recorded events, all of them applied.\<close>

definition fake_keys :: "call list \<Rightarrow> string set" where
  "fake_keys evs = fold (\<lambda>c. key_effect c True) evs {}"

definition fake_buttons :: "call list \<Rightarrow> string set" where
  "fake_buttons evs = fold (\<lambda>c. button_effect c True) evs {}"

lemma fake_raises_False [simp]: "\<not> fake_raises False False c"
  by (cases c) simp_all

interpretation fk: reliable_sink "fake_sink False False" fake_keys fake_buttons
  by unfold_locales (auto simp: fake_sink_def fake_keys_def fake_buttons_def)

text \<open>\<open>check\<close> always passes; \<open>select_mouse\<close> notes the mode, or raises and notes nothing.\<close>

record fake_mouse =
  fail_select :: bool
  fake_absolute :: bool
  fake_modes :: "string list"

definition fake_check :: "fake_mouse \<Rightarrow> fake_mouse \<times> exn option" where
  "fake_check f = (f, None)"

definition fake_select_mouse :: "string \<Rightarrow> fake_mouse \<Rightarrow> fake_mouse \<times> exn option" where
  "fake_select_mouse mode f =
     (if fail_select f then (f, Some BackendError)
      else (f\<lparr>fake_modes := fake_modes f @ [mode], fake_absolute := (mode = ''absolute'')\<rparr>, None))"

text \<open>The mode it reports is the last one it noted.\<close>

lemma fake_mouse_mode:
  assumes "fake_modes f \<noteq> [] \<longrightarrow> fake_absolute f = (last (fake_modes f) = ''absolute'')"
    and "fake_select_mouse mode f = (f', r)"
  shows "fake_modes f' \<noteq> [] \<longrightarrow> fake_absolute f' = (last (fake_modes f') = ''absolute'')"
    and "r = None \<Longrightarrow> fake_absolute f' = (mode = ''absolute'')" and "r \<noteq> None \<Longrightarrow> f' = f"
  using assms by (auto simp: fake_select_mouse_def split: if_splits)

end
