(* ===== verification/Hid_Lease.thy ===== *)
theory Hid_Lease
  imports Hid_Queue Hid_Sink
begin

text \<open>
  The class \<open>Lease\<close> of \<open>python/rkmoon_hid/lease.py\<close>: which virtual keys, host
  keys and buttons a session holds, how an event becomes requests to the input
  backend, and how everything is released at the end.

  The backend is a \<open>sink\<close> (theory \<open>Hid_Sink\<close>).
\<close>

section \<open>The lease\<close>

datatype mouse_mode = Relative | Absolute

record lease =
  mode :: mouse_mode
  virtual :: "int list"
  possibly_down :: "string list"
  buttons :: "string list"
  wheel_x :: int
  wheel_y :: int

text \<open>
  The three Python sets are lists without repetition; \<open>tuple(set)\<close> may come in
  any order, and every lemma below holds for any order of the list.
\<close>

definition new_lease :: "mouse_mode \<Rightarrow> lease" where
  "new_lease m = \<lparr>mode = m, virtual = [], possibly_down = [], buttons = [],
                  wheel_x = 0, wheel_y = 0\<rparr>"

text \<open>\<open>any(KEYS[v]==key for v in self.virtual)\<close>\<close>

definition alias_down :: "lease \<Rightarrow> string \<Rightarrow> bool" where
  "alias_down l key \<longleftrightarrow> (\<exists>v\<in>set (virtual l). KEYS v = Some key)"

text \<open>
  \<open>int(n / d)\<close> truncates toward zero.  The quotient is a float, exact enough
  here: \<open>\<bar>n\<bar> < 33000\<close> and \<open>d = 120\<close>, so a quotient that is not an integer is at
  least 1/120 away from one.
\<close>

definition trunc_div :: "int \<Rightarrow> int \<Rightarrow> int" where
  "trunc_div n d = (if 0 \<le> n then n div d else - ((- n) div d))"

definition apply_key ::
  "'s sink \<Rightarrow> int \<Rightarrow> bool \<Rightarrow> lease \<Rightarrow> 's \<Rightarrow> lease \<times> 's \<times> exn option" where
  "apply_key k vk down l s =
     (case KEYS vk of
        None \<Rightarrow> (l, s, Some KeyError)
      | Some key \<Rightarrow>
          if down then
            if vk \<in> set (virtual l) then (l, s, None)
            else
              let already = alias_down l key;
                  l1 = l\<lparr>virtual := virtual l @ [vk]\<rparr>
              in if already then (l1, s, None)
                 else
                   let l2 = l1\<lparr>possibly_down := List.insert key (possibly_down l1)\<rparr>;
                       (s', r) = send k (CKey key True) s
                   in (l2, s', r)
          else
            let l1 = l\<lparr>virtual := removeAll vk (virtual l)\<rparr>
            in if \<not> alias_down l1 key \<and> key \<in> set (possibly_down l1) then
                 (case send k (CKey key False) s of
                    (s', None) \<Rightarrow>
                      (l1\<lparr>possibly_down := removeAll key (possibly_down l1)\<rparr>, s', None)
                  | (s', Some e) \<Rightarrow> (l1, s', Some e))
               else (l1, s, None))"

definition apply_button ::
  "'s sink \<Rightarrow> int \<Rightarrow> bool \<Rightarrow> lease \<Rightarrow> 's \<Rightarrow> lease \<times> 's \<times> exn option" where
  "apply_button k n down l s =
     (case BUTTONS n of
        None \<Rightarrow> (l, s, Some KeyError)
      | Some b \<Rightarrow>
          if down then
            if b \<in> set (buttons l) then (l, s, None)
            else
              let (s', r) = send k (CButton b True) s
              in (l\<lparr>buttons := buttons l @ [b]\<rparr>, s', r)
          else if b \<in> set (buttons l) then
            (case send k (CButton b False) s of
               (s', None) \<Rightarrow> (l\<lparr>buttons := removeAll b (buttons l)\<rparr>, s', None)
             | (s', Some e) \<Rightarrow> (l, s', Some e))
          else (l, s, None))"

definition move_calls :: "'s sink \<Rightarrow> int \<Rightarrow> int \<Rightarrow> call list" where
  "move_calls k x y =
     (let parts = chunks x y in
      if has_move_many k then (if parts \<noteq> [] then [CMoveMany parts] else [])
      else map (\<lambda>(a, b). CMove a b) parts)"

text \<open>The whole of \<open>apply\<close>; \<open>ping\<close> and \<open>bye\<close> have no branch there.\<close>

fun apply_event :: "'s sink \<Rightarrow> event \<Rightarrow> lease \<Rightarrow> 's \<Rightarrow> lease \<times> 's \<times> exn option" where
  "apply_event k (EKey vk down) l s = apply_key k vk down l s"
| "apply_event k (EButton n down) l s = apply_button k n down l s"
| "apply_event k (EMove x y) l s =
     (if mode l \<noteq> Relative then (l, s, Some InputError)
      else (l, send_all k (move_calls k x y) s))"
| "apply_event k (EAbsolute x y) l s =
     (if mode l \<noteq> Absolute then (l, s, Some InputError)
      else (l, send k (CAbsolute x y) s))"
| "apply_event k (EWheel x y) l s =
     (let wx = wheel_x l + x; wy = wheel_y l + y;
          nx = trunc_div wx 120; ny = trunc_div wy 120
      in (l\<lparr>wheel_x := wx - nx * 120, wheel_y := wy - ny * 120\<rparr>,
          send_all k (map (\<lambda>(a, b). CWheel a b) (chunks nx ny)) s))"
| "apply_event k EPing l s = (l, s, None)"
| "apply_event k EBye l s = (l, s, None)"

text \<open>
  \<open>release\<close>: both loops run over a snapshot and swallow exceptions; what could
  not be released stays tracked.
\<close>

fun release_keys :: "'s sink \<Rightarrow> string list \<Rightarrow> lease \<Rightarrow> 's \<Rightarrow> lease \<times> 's" where
  "release_keys k [] l s = (l, s)"
| "release_keys k (key # ks) l s =
     (case send k (CKey key False) s of
        (s', None) \<Rightarrow>
          release_keys k ks (l\<lparr>possibly_down := removeAll key (possibly_down l)\<rparr>) s'
      | (s', Some _) \<Rightarrow> release_keys k ks l s')"

fun release_buttons :: "'s sink \<Rightarrow> string list \<Rightarrow> lease \<Rightarrow> 's \<Rightarrow> lease \<times> 's" where
  "release_buttons k [] l s = (l, s)"
| "release_buttons k (b # bs) l s =
     (case send k (CButton b False) s of
        (s', None) \<Rightarrow> release_buttons k bs (l\<lparr>buttons := removeAll b (buttons l)\<rparr>) s'
      | (s', Some _) \<Rightarrow> release_buttons k bs l s')"

definition release :: "'s sink \<Rightarrow> lease \<Rightarrow> 's \<Rightarrow> lease \<times> 's \<times> bool" where
  "release k l s =
     (let l0 = l\<lparr>virtual := [], wheel_x := 0, wheel_y := 0\<rparr>;
          (l1, s1) = release_keys k (possibly_down l0) l0 s;
          (l2, s2) = release_buttons k (buttons l1) l1 s1
      in (l2, s2, possibly_down l2 = [] \<and> buttons l2 = []))"

text \<open>The consumer's loop over the events it pops, up to the first exception.\<close>

fun apply_all :: "'s sink \<Rightarrow> event list \<Rightarrow> lease \<Rightarrow> 's \<Rightarrow> lease \<times> 's \<times> exn option" where
  "apply_all k [] l s = (l, s, None)"
| "apply_all k (e # es) l s =
     (case apply_event k e l s of
        (l', s', None) \<Rightarrow> apply_all k es l' s'
      | (l', s', Some x) \<Rightarrow> (l', s', Some x))"

section \<open>Well-formed leases\<close>

definition lease_wf :: "lease \<Rightarrow> bool" where
  "lease_wf l \<longleftrightarrow>
     distinct (virtual l) \<and> distinct (possibly_down l) \<and> distinct (buttons l) \<and>
     (\<forall>v\<in>set (virtual l). \<exists>key\<in>set (possibly_down l). KEYS v = Some key) \<and>
     set (possibly_down l) \<subseteq> snd ` set KEYS_items \<and>
     set (buttons l) \<subseteq> snd ` set BUTTONS_items \<and>
     \<bar>wheel_x l\<bar> < 120 \<and> \<bar>wheel_y l\<bar> < 120"

lemma trunc_div_rest:
  assumes "0 < d"
  shows "\<bar>n - trunc_div n d * d\<bar> < d"
proof (cases "0 \<le> n")
  case True
  then have "n - trunc_div n d * d = n mod d" by (simp add: trunc_div_def minus_div_mult_eq_mod)
  with assms show ?thesis by simp
next
  case False
  have "n - trunc_div n d * d = - ((- n) - (- n) div d * d)"
    using False by (simp add: trunc_div_def)
  also have "\<dots> = - ((- n) mod d)" by (simp only: minus_div_mult_eq_mod)
  finally show ?thesis using assms by simp
qed

lemma lease_wf_new: "lease_wf (new_lease m)"
  by (simp add: lease_wf_def new_lease_def)

text \<open>The branches of a key and of a button event.\<close>

lemma apply_key_cases:
  assumes "apply_key k vk d l s = (l', s', r)"
  obtains (unknown) "KEYS vk = None" "l' = l" "s' = s" "r = Some KeyError"
  | (repeat) key where "KEYS vk = Some key" "d" "vk \<in> set (virtual l)" "l' = l" "s' = s" "r = None"
  | (shared) key where "KEYS vk = Some key" "d" "vk \<notin> set (virtual l)" "alias_down l key"
      "l' = l\<lparr>virtual := virtual l @ [vk]\<rparr>" "s' = s" "r = None"
  | (press) key where "KEYS vk = Some key" "d" "vk \<notin> set (virtual l)" "\<not> alias_down l key"
      "l' = l\<lparr>virtual := virtual l @ [vk], possibly_down := List.insert key (possibly_down l)\<rparr>"
      "send k (CKey key True) s = (s', r)"
  | (quiet) key where "KEYS vk = Some key" "\<not> d"
      "alias_down (l\<lparr>virtual := removeAll vk (virtual l)\<rparr>) key \<or> key \<notin> set (possibly_down l)"
      "l' = l\<lparr>virtual := removeAll vk (virtual l)\<rparr>" "s' = s" "r = None"
  | (lift) key where "KEYS vk = Some key" "\<not> d" "key \<in> set (possibly_down l)"
      "\<not> alias_down (l\<lparr>virtual := removeAll vk (virtual l)\<rparr>) key"
      "l' = l\<lparr>virtual := removeAll vk (virtual l),
              possibly_down := removeAll key (possibly_down l)\<rparr>"
      "send k (CKey key False) s = (s', None)" "r = None"
  | (stuck) key e where "KEYS vk = Some key" "\<not> d" "key \<in> set (possibly_down l)"
      "\<not> alias_down (l\<lparr>virtual := removeAll vk (virtual l)\<rparr>) key"
      "l' = l\<lparr>virtual := removeAll vk (virtual l)\<rparr>"
      "send k (CKey key False) s = (s', Some e)" "r = Some e"
proof (cases "KEYS vk")
  case None
  with assms unknown show ?thesis by (simp add: apply_key_def)
next
  case (Some key)
  note key = this
  note eq = assms [unfolded apply_key_def Some option.case Let_def]
  show ?thesis
  proof (cases d)
    case True
    show ?thesis
    proof (cases "vk \<in> set (virtual l)")
      case vk: True
      with eq True have "l' = l" "s' = s" "r = None" by simp_all
      with True vk key repeat show ?thesis by blast
    next
      case vk: False
      show ?thesis
      proof (cases "alias_down l key")
        case True
        with eq \<open>d\<close> vk have "l' = l\<lparr>virtual := virtual l @ [vk]\<rparr>" "s' = s" "r = None"
          by simp_all
        with True \<open>d\<close> vk key shared show ?thesis by blast
      next
        case False
        with eq \<open>d\<close> vk have "l' = l\<lparr>virtual := virtual l @ [vk],
            possibly_down := List.insert key (possibly_down l)\<rparr>"
          and "send k (CKey key True) s = (s', r)"
          by (auto split: prod.splits)
        with False \<open>d\<close> vk press key show ?thesis by blast
      qed
    qed
  next
    case False
    let ?l1 = "l\<lparr>virtual := removeAll vk (virtual l)\<rparr>"
    show ?thesis
    proof (cases "\<not> alias_down ?l1 key \<and> key \<in> set (possibly_down l)")
      case True
      obtain s1 r1 where up: "send k (CKey key False) s = (s1, r1)" by fastforce
      show ?thesis
      proof (cases r1)
        case None
        with eq False True up have "l' = ?l1\<lparr>possibly_down := removeAll key (possibly_down ?l1)\<rparr>"
          "s' = s1" "r = None" by simp_all
        with True False up None key lift show ?thesis by simp
      next
        case (Some e)
        with eq False True up have "l' = ?l1" "s' = s1" "r = Some e" by simp_all
        with True False up Some key stuck show ?thesis by simp
      qed
    next
      case quieted: False
      with eq False have "l' = ?l1" "s' = s" "r = None" by auto
      with quieted False key quiet show ?thesis by blast
    qed
  qed
qed

lemma apply_button_cases:
  assumes "apply_button k n d l s = (l', s', r)"
  obtains (unknown) "BUTTONS n = None" "l' = l" "s' = s" "r = Some KeyError"
  | (quiet) b where "BUTTONS n = Some b" "d = (b \<in> set (buttons l))" "l' = l" "s' = s" "r = None"
  | (press) b where "BUTTONS n = Some b" "d" "b \<notin> set (buttons l)"
      "l' = l\<lparr>buttons := buttons l @ [b]\<rparr>" "send k (CButton b True) s = (s', r)"
  | (lift) b where "BUTTONS n = Some b" "\<not> d" "b \<in> set (buttons l)"
      "l' = l\<lparr>buttons := removeAll b (buttons l)\<rparr>"
      "send k (CButton b False) s = (s', None)" "r = None"
  | (stuck) b e where "BUTTONS n = Some b" "\<not> d" "b \<in> set (buttons l)" "l' = l"
      "send k (CButton b False) s = (s', Some e)" "r = Some e"
proof (cases "BUTTONS n")
  case None
  with assms unknown show ?thesis by (simp add: apply_button_def)
next
  case (Some b)
  note eq = assms [unfolded apply_button_def Some option.case]
  obtain s1 r1 where down: "send k (CButton b True) s = (s1, r1)" by fastforce
  obtain s2 r2 where up: "send k (CButton b False) s = (s2, r2)" by fastforce
  show ?thesis
  proof (cases "d = (b \<in> set (buttons l))")
    case True
    with eq have "l' = l" "s' = s" "r = None" by (auto split: if_splits)
    with Some True quiet show ?thesis by blast
  next
    case False
    show ?thesis
    proof (cases d)
      case True
      with eq False down have "l' = l\<lparr>buttons := buttons l @ [b]\<rparr>" "s' = s1" "r = r1"
        by simp_all
      with True False down Some press show ?thesis by blast
    next
      case lifted: False
      show ?thesis
      proof (cases r2)
        case None
        with eq False lifted up have "l' = l\<lparr>buttons := removeAll b (buttons l)\<rparr>"
          "s' = s2" "r = None" by simp_all
        with False lifted up None Some lift show ?thesis by blast
      next
        case (Some e)
        with eq False lifted up have "l' = l" "s' = s2" "r = Some e" by simp_all
        with False lifted up Some \<open>BUTTONS n = Some b\<close> stuck show ?thesis by blast
      qed
    qed
  qed
qed

lemma apply_key_wf: "lease_wf l \<Longrightarrow> apply_key k vk d l s = (l', s', r) \<Longrightarrow> lease_wf l'"
  by (erule apply_key_cases)
     (auto simp: lease_wf_def alias_down_def distinct_removeAll dest: KEYS_in_ran)

lemma apply_button_wf:
  "lease_wf l \<Longrightarrow> apply_button k n d l s = (l', s', r) \<Longrightarrow> lease_wf l'"
  by (erule apply_button_cases)
     (auto simp: lease_wf_def distinct_removeAll dest: BUTTONS_names)

lemma apply_event_wf:
  assumes "lease_wf l" and "apply_event k e l s = (l', s', r)"
  shows "lease_wf l'"
proof (cases e)
  case (EWheel x y)
  with assms show ?thesis by (auto simp: lease_wf_def Let_def trunc_div_rest)
qed (use assms in \<open>auto intro: apply_key_wf apply_button_wf split: if_splits\<close>)

lemma apply_all_wf: "lease_wf l \<Longrightarrow> apply_all k es l s = (l', s', r) \<Longrightarrow> lease_wf l'"
  by (induction es arbitrary: l s)
    (auto split: prod.splits option.splits dest: apply_event_wf)

end
