(* ===== verification/Hid_Lease_Laws.thy ===== *)
theory Hid_Lease_Laws
  imports Hid_Lease
begin

text \<open>
  What a lease guarantees over its backend.

  Safety, for any sink and any pattern of failures: whatever may still be down
  at the host is tracked by the lease, and a release that reports success
  leaves nothing down.  Function, over a backend that works: the host's keys
  are the image of the pressed virtual keys (aliases counted), every report
  changes the host's state, motion and wheel units are conserved.
\<close>

section \<open>Tracking\<close>

definition tracks :: "string set \<Rightarrow> string set \<Rightarrow> lease \<Rightarrow> bool" where
  "tracks K B l \<longleftrightarrow> K \<subseteq> set (possibly_down l) \<and> B \<subseteq> set (buttons l)"

lemma reports_moves: "list_all is_report (move_calls k x y)"
  by (auto simp: move_calls_def Let_def list_all_iff)

lemma reports_wheel: "list_all is_report (map (\<lambda>(a, b). CWheel a b) cs)"
  by (auto simp: list_all_iff)

lemma mode_apply_key: "apply_key k vk d l s = (l', s', r) \<Longrightarrow> mode l' = mode l"
  by (erule apply_key_cases) simp_all

lemma mode_apply_button: "apply_button k n d l s = (l', s', r) \<Longrightarrow> mode l' = mode l"
  by (erule apply_button_cases) simp_all

lemma mode_apply: "apply_event k e l s = (l', s', r) \<Longrightarrow> mode l' = mode l"
  by (cases e)
     (auto simp: Let_def split: if_splits dest: mode_apply_key mode_apply_button)

context hid_sink
begin

abbreviation tracked :: "'s \<Rightarrow> lease \<Rightarrow> bool" where
  "tracked s l \<equiv> tracks (keys_out s) (buttons_out s) l"

lemma apply_key_tracked:
  assumes "tracked s l" and "apply_key k vk d l s = (l', s', r)"
  shows "tracked s' l'"
  using assms(2)
proof (cases rule: apply_key_cases)
  case (press key)
  with assms(1) keys_bound [OF press(6)] buttons_bound [OF press(6)] show ?thesis
    by (auto simp: tracks_def)
next
  case (lift key)
  with assms(1) keys_bound [OF lift(6)] buttons_bound [OF lift(6)] show ?thesis
    by (auto simp: tracks_def)
next
  case (stuck key e)
  with assms(1) keys_bound [OF stuck(6)] buttons_bound [OF stuck(6)] show ?thesis
    by (auto simp: tracks_def)
qed (use assms(1) in \<open>simp_all add: tracks_def\<close>)

lemma apply_button_tracked:
  assumes "tracked s l" and "apply_button k n d l s = (l', s', r)"
  shows "tracked s' l'"
  using assms(2)
proof (cases rule: apply_button_cases)
  case (press b)
  with assms(1) keys_bound [OF press(5)] buttons_bound [OF press(5)] show ?thesis
    by (auto simp: tracks_def)
next
  case (lift b)
  with assms(1) keys_bound [OF lift(5)] buttons_bound [OF lift(5)] show ?thesis
    by (auto simp: tracks_def)
next
  case (stuck b e)
  with assms(1) keys_bound [OF stuck(5)] buttons_bound [OF stuck(5)] show ?thesis
    by (auto simp: tracks_def)
qed (use assms(1) in \<open>simp_all add: tracks_def\<close>)

lemma reports_tracked:
  assumes "tracked s l" and "list_all is_report cs" and "send_all k cs s = (s', r)"
    and "possibly_down l' = possibly_down l" and "buttons l' = buttons l"
  shows "tracked s' l'"
  using assms(1,4,5) send_all_reports [OF assms(2,3)] by (auto simp: tracks_def)

lemma apply_tracked:
  assumes "tracked s l" and "apply_event k e l s = (l', s', r)"
  shows "tracked s' l'"
proof (cases e)
  case (EMove x y)
  with assms show ?thesis
    by (auto split: if_splits intro: reports_tracked [OF _ reports_moves])
next
  case (EWheel x y)
  with assms show ?thesis
    by (auto simp: Let_def intro: reports_tracked [OF _ reports_wheel])
next
  case (EAbsolute x y)
  with assms keys_bound buttons_bound show ?thesis
    by (fastforce split: if_splits simp: tracks_def)
qed (use assms in \<open>auto intro: apply_key_tracked apply_button_tracked\<close>)

lemma apply_all_tracked:
  "tracked s l \<Longrightarrow> apply_all k es l s = (l', s', r) \<Longrightarrow> tracked s' l'"
proof (induction es arbitrary: l s)
  case (Cons e es)
  then show ?case by (auto split: prod.splits option.splits dest: apply_tracked)
qed simp

lemma release_keys_tracked:
  "tracked s l \<Longrightarrow> release_keys k ks l s = (l', s') \<Longrightarrow>
     tracked s' l' \<and> virtual l' = virtual l \<and> mode l' = mode l"
proof (induction ks arbitrary: l s)
  case (Cons key ks)
  obtain s1 r1 where up: "send k (CKey key False) s = (s1, r1)" by fastforce
  note bound = keys_bound [OF up] buttons_bound [OF up]
  show ?case
  proof (cases r1)
    case None
    with Cons.prems up bound have "tracked s1 (l\<lparr>possibly_down := removeAll key (possibly_down l)\<rparr>)"
      and "release_keys k ks (l\<lparr>possibly_down := removeAll key (possibly_down l)\<rparr>) s1 = (l', s')"
      by (auto simp: tracks_def)
    from Cons.IH [OF this] show ?thesis by simp
  next
    case (Some e)
    with Cons.prems up bound have "tracked s1 l" and "release_keys k ks l s1 = (l', s')"
      by (auto simp: tracks_def)
    from Cons.IH [OF this] show ?thesis .
  qed
qed simp

lemma release_buttons_tracked:
  "tracked s l \<Longrightarrow> release_buttons k bs l s = (l', s') \<Longrightarrow>
     tracked s' l' \<and> virtual l' = virtual l \<and> mode l' = mode l"
proof (induction bs arbitrary: l s)
  case (Cons b bs)
  obtain s1 r1 where up: "send k (CButton b False) s = (s1, r1)" by fastforce
  note bound = keys_bound [OF up] buttons_bound [OF up]
  show ?case
  proof (cases r1)
    case None
    with Cons.prems up bound have "tracked s1 (l\<lparr>buttons := removeAll b (buttons l)\<rparr>)"
      and "release_buttons k bs (l\<lparr>buttons := removeAll b (buttons l)\<rparr>) s1 = (l', s')"
      by (auto simp: tracks_def)
    from Cons.IH [OF this] show ?thesis by simp
  next
    case (Some e)
    with Cons.prems up bound have "tracked s1 l" and "release_buttons k bs l s1 = (l', s')"
      by (auto simp: tracks_def)
    from Cons.IH [OF this] show ?thesis .
  qed
qed simp

lemma release_tracked:
  assumes "tracked s l" and "release k l s = (l', s', ok)"
  shows "tracked s' l'" and "virtual l' = []" and "mode l' = mode l"
    and "ok \<Longrightarrow> keys_out s' = {} \<and> buttons_out s' = {}"
proof -
  let ?l0 = "l\<lparr>virtual := [], wheel_x := 0, wheel_y := 0\<rparr>"
  obtain l1 s1 where k1: "release_keys k (possibly_down ?l0) ?l0 s = (l1, s1)" by fastforce
  have b1: "release_buttons k (buttons l1) l1 s1 = (l', s')"
    and ok: "ok = (possibly_down l' = [] \<and> buttons l' = [])"
    using assms(2) k1 by (auto simp: release_def Let_def split: prod.splits)
  have "tracked s ?l0" using assms(1) by (simp add: tracks_def)
  note t1 = release_keys_tracked [OF this k1]
  note t2 = release_buttons_tracked [OF conjunct1 [OF t1] b1]
  from t1 t2 show "tracked s' l'" "virtual l' = []" "mode l' = mode l" by simp_all
  with ok show "ok \<Longrightarrow> keys_out s' = {} \<and> buttons_out s' = {}" by (simp add: tracks_def)
qed

end

section \<open>A release attempts everything\<close>

lemma release_keys_fake:
  "release_keys (fake_sink fd fr) ks l evs =
     ((if fr then l else l\<lparr>possibly_down := filter (\<lambda>x. x \<notin> set ks) (possibly_down l)\<rparr>),
      evs @ map (\<lambda>key. CKey key False) ks)"
proof (induction ks arbitrary: l evs)
  case (Cons key ks)
  then show ?case
    by (cases fr) (auto simp: fake_sink_def removeAll_filter_not_eq intro!: arg_cong2 [where f = "\<lambda>p l. l\<lparr>possibly_down := p\<rparr>"] filter_cong)
qed simp

lemma release_buttons_fake:
  "release_buttons (fake_sink fd fr) bs l evs =
     ((if fr then l else l\<lparr>buttons := filter (\<lambda>x. x \<notin> set bs) (buttons l)\<rparr>),
      evs @ map (\<lambda>b. CButton b False) bs)"
proof (induction bs arbitrary: l evs)
  case (Cons b bs)
  then show ?case
    by (cases fr) (auto simp: fake_sink_def removeAll_filter_not_eq intro!: arg_cong2 [where f = "\<lambda>p l. l\<lparr>buttons := p\<rparr>"] filter_cong)
qed simp

lemma release_fake:
  "release (fake_sink fd fr) l evs =
     (l\<lparr>virtual := [], wheel_x := 0, wheel_y := 0,
        possibly_down := (if fr then possibly_down l else []),
        buttons := (if fr then buttons l else [])\<rparr>,
      evs @ map (\<lambda>key. CKey key False) (possibly_down l)
          @ map (\<lambda>b. CButton b False) (buttons l),
      \<not> fr \<or> possibly_down l = [] \<and> buttons l = [])"
  by (cases fr) (simp_all add: release_def release_keys_fake release_buttons_fake Let_def)

section \<open>Refinement of the set of pressed inputs\<close>

text \<open>
  The abstract session: which virtual keys and which buttons are pressed.  The
  host must see a key down exactly when one of its virtual keys is pressed.
\<close>

type_synonym pressed = "int set \<times> int set"

fun press_event :: "event \<Rightarrow> pressed \<Rightarrow> pressed" where
  "press_event (EKey v d) (V, B) = (if d then insert v V else V - {v}, B)"
| "press_event (EButton b d) (V, B) = (V, if d then insert b B else B - {b})"
| "press_event _ P = P"

definition key_image :: "int set \<Rightarrow> string set" where
  "key_image V = {key. \<exists>v\<in>V. KEYS v = Some key}"

definition button_image :: "int set \<Rightarrow> string set" where
  "button_image B = {n. \<exists>b\<in>B. BUTTONS b = Some n}"

fun fits_mode :: "mouse_mode \<Rightarrow> event \<Rightarrow> bool" where
  "fits_mode m (EMove x y) = (m = Relative)"
| "fits_mode m (EAbsolute x y) = (m = Absolute)"
| "fits_mode m e = True"

definition implements :: "lease \<Rightarrow> pressed \<Rightarrow> bool" where
  "implements l P \<longleftrightarrow>
     set (virtual l) = fst P \<and> set (possibly_down l) = key_image (fst P) \<and>
     set (buttons l) = button_image (snd P)"

definition holds_exactly :: "string set \<Rightarrow> string set \<Rightarrow> lease \<Rightarrow> bool" where
  "holds_exactly K B l \<longleftrightarrow> K = set (possibly_down l) \<and> B = set (buttons l)"

lemma alias_down_image: "alias_down l key \<longleftrightarrow> key \<in> key_image (set (virtual l))"
  by (simp add: alias_down_def key_image_def)

lemma key_image_insert: "KEYS v = Some key \<Longrightarrow> key_image (insert v V) = insert key (key_image V)"
  by (auto simp: key_image_def)

lemma key_image_minus:
  "KEYS v = Some key \<Longrightarrow> key_image V - {key} \<subseteq> key_image (V - {v})"
  "key_image (V - {v}) \<subseteq> key_image V"
  by (auto simp: key_image_def)

lemma button_image_insert:
  "BUTTONS b = Some n \<Longrightarrow> button_image (insert b B) = insert n (button_image B)"
  by (auto simp: button_image_def)

lemma button_image_minus:
  "BUTTONS b = Some n \<Longrightarrow> button_image (B - {b}) = button_image B - {n}"
  by (auto simp: button_image_def dest: BUTTONS_inj)

lemma implements_new: "implements (new_lease m) ({}, {})"
  by (simp add: implements_def new_lease_def key_image_def button_image_def)

context reliable_sink
begin

abbreviation agrees :: "'s \<Rightarrow> lease \<Rightarrow> bool" where
  "agrees s l \<equiv> holds_exactly (keys_out s) (buttons_out s) l"

lemma apply_key_refines:
  assumes "implements l (V, B)" and "agrees s l" and "KEYS vk \<noteq> None"
    and "apply_key k vk d l s = (l', s', r)"
  shows "r = None \<and> implements l' (press_event (EKey vk d) (V, B)) \<and> agrees s' l'"
  using assms(4)
proof (cases rule: apply_key_cases)
  case unknown
  with assms(3) show ?thesis by simp
next
  case (repeat key)
  with assms(1,2) show ?thesis by (auto simp: implements_def insert_absorb)
next
  case (shared key)
  then have "key \<in> key_image V" using assms(1) by (simp add: alias_down_image implements_def)
  with shared assms(1,2) show ?thesis
    by (auto simp: implements_def holds_exactly_def key_image_insert)
next
  case (press key)
  with assms(1,2) never_raises [OF press(6)] keys_exact [OF press(6)] buttons_exact [OF press(6)]
  show ?thesis by (auto simp: implements_def holds_exactly_def key_image_insert)
next
  case (quiet key)
  have "key \<in> key_image (V - {vk}) \<or> key \<notin> key_image V"
    using quiet(3) assms(1) by (auto simp: alias_down_image implements_def)
  then have "key_image (V - {vk}) = key_image V"
    using key_image_minus(1) [OF quiet(1), of V] key_image_minus(2) [of V vk] by blast
  with quiet assms(1,2) show ?thesis by (auto simp: implements_def holds_exactly_def)
next
  case (lift key)
  have "key \<notin> key_image (V - {vk})"
    using lift(4) assms(1) by (simp add: alias_down_image implements_def)
  then have "key_image (V - {vk}) = key_image V - {key}"
    using key_image_minus(1) [OF lift(1), of V] key_image_minus(2) [of V vk] by blast
  with lift assms(1,2) keys_exact [OF lift(6)] buttons_exact [OF lift(6)] show ?thesis
    by (auto simp: implements_def holds_exactly_def)
next
  case (stuck key e)
  with never_raises [OF stuck(6)] show ?thesis by simp
qed

lemma apply_button_refines:
  assumes "implements l (V, B)" and "agrees s l" and "1 \<le> n" "n \<le> 5"
    and "apply_button k n d l s = (l', s', r)"
  shows "r = None \<and> implements l' (press_event (EButton n d) (V, B)) \<and> agrees s' l'"
  using assms(5)
proof (cases rule: apply_button_cases)
  case unknown
  with assms(3,4) BUTTONS_defined show ?thesis by fastforce
next
  case (quiet b)
  have mem: "b \<in> set (buttons l) \<longleftrightarrow> b \<in> button_image B" using assms(1) by (simp add: implements_def)
  with quiet assms(1,2) show ?thesis
    by (cases d)
       (auto simp: implements_def button_image_insert button_image_minus insert_absorb)
next
  case (press b)
  with assms(1,2) never_raises [OF press(5)] keys_exact [OF press(5)] buttons_exact [OF press(5)]
  show ?thesis by (auto simp: implements_def holds_exactly_def button_image_insert)
next
  case (lift b)
  with assms(1,2) keys_exact [OF lift(5)] buttons_exact [OF lift(5)] show ?thesis
    by (auto simp: implements_def holds_exactly_def button_image_minus)
next
  case (stuck b e)
  with never_raises [OF stuck(5)] show ?thesis by simp
qed

lemma reports_refine:
  assumes "implements l P" and "agrees s l" and "list_all is_report cs"
    and "send_all k cs s = (s', r)" and "virtual l' = virtual l"
    and "possibly_down l' = possibly_down l" and "buttons l' = buttons l"
  shows "r = None \<and> implements l' P \<and> agrees s' l'"
  using assms(1,2,5-7) send_all_reliable [OF assms(3,4)]
  by (simp add: implements_def holds_exactly_def)

lemma apply_refines:
  assumes "implements l P" and "agrees s l" and "valid_event e" and "fits_mode (mode l) e"
    and "apply_event k e l s = (l', s', r)"
  shows "r = None \<and> implements l' (press_event e P) \<and> agrees s' l'"
proof -
  obtain V B where P: "P = (V, B)" by fastforce
  show ?thesis
  proof (cases e)
    case (EKey vk d)
    show ?thesis unfolding P EKey
      by (rule apply_key_refines) (use assms EKey P in auto)
  next
    case (EButton n d)
    show ?thesis unfolding P EButton
      by (rule apply_button_refines) (use assms EButton P in auto)
  next
    case (EMove x y)
    with assms have "send_all k (move_calls k x y) s = (s', r)" "l' = l" by auto
    with reports_refine [OF assms(1,2) reports_moves [of k x y], of s' r l'] EMove show ?thesis
      by simp
  next
    case (EAbsolute x y)
    with assms have "send_all k [CAbsolute x y] s = (s', r)" "l' = l"
      by (auto split: prod.splits option.splits)
    with reports_refine [OF assms(1,2), of "[CAbsolute x y]"] EAbsolute show ?thesis by simp
  next
    case (EWheel x y)
    with assms(5) show ?thesis
      using reports_refine [OF assms(1,2) reports_wheel] by (fastforce simp: Let_def)
  qed (use assms in auto)
qed

lemma apply_all_refines:
  "implements l P \<Longrightarrow> agrees s l \<Longrightarrow> list_all (\<lambda>e. valid_event e \<and> fits_mode (mode l) e) es \<Longrightarrow>
     apply_all k es l s = (l', s', r) \<Longrightarrow>
     r = None \<and> implements l' (fold press_event es P) \<and> agrees s' l'"
proof (induction es arbitrary: l s P)
  case (Cons e es)
  obtain l1 s1 r1 where e: "apply_event k e l s = (l1, s1, r1)" by (metis prod_cases3)
  have "valid_event e" "fits_mode (mode l) e" using Cons.prems(3) by simp_all
  note one = apply_refines [OF Cons.prems(1,2) this e]
  then have "apply_all k es l1 s1 = (l', s', r)" using Cons.prems(4) e by simp
  with Cons.IH [of l1 "press_event e P" s1] one Cons.prems(3) mode_apply [OF e] show ?case by simp
qed simp

end

section \<open>What the working backend records\<close>

fun move_units :: "call \<Rightarrow> int \<times> int" where
  "move_units (CMove a b) = (a, b)"
| "move_units (CMoveMany ps) = ((\<Sum>(a, b)\<leftarrow>ps. a), (\<Sum>(a, b)\<leftarrow>ps. b))"
| "move_units c = (0, 0)"

fun wheel_units :: "call \<Rightarrow> int \<times> int" where
  "wheel_units (CWheel a b) = (a, b)"
| "wheel_units c = (0, 0)"

definition moved :: "call list \<Rightarrow> int \<times> int" where
  "moved cs = ((\<Sum>c\<leftarrow>cs. fst (move_units c)), (\<Sum>c\<leftarrow>cs. snd (move_units c)))"

definition wheeled :: "call list \<Rightarrow> int \<times> int" where
  "wheeled cs = ((\<Sum>c\<leftarrow>cs. fst (wheel_units c)), (\<Sum>c\<leftarrow>cs. snd (wheel_units c)))"

fun event_move :: "event \<Rightarrow> int \<times> int" where
  "event_move (EMove x y) = (x, y)"
| "event_move e = (0, 0)"

fun event_wheel :: "event \<Rightarrow> int \<times> int" where
  "event_wheel (EWheel x y) = (x, y)"
| "event_wheel e = (0, 0)"

text \<open>A call that changes what the host has down; motion and wheel always count.\<close>

fun effective :: "string set \<Rightarrow> string set \<Rightarrow> call \<Rightarrow> bool" where
  "effective K B (CKey n d) = ((n \<in> K) \<noteq> d)"
| "effective K B (CButton n d) = ((n \<in> B) \<noteq> d)"
| "effective K B c = True"

definition all_effective :: "call list \<Rightarrow> bool" where
  "all_effective cs \<longleftrightarrow>
     (\<forall>i<length cs. effective (fake_keys (take i cs)) (fake_buttons (take i cs)) (cs ! i))"

lemma all_effective_Nil [simp]: "all_effective []"
  by (simp add: all_effective_def)

lemma all_effective_snoc:
  "all_effective (cs @ [c]) \<longleftrightarrow>
     all_effective cs \<and> effective (fake_keys cs) (fake_buttons cs) c"
  by (auto simp: all_effective_def nth_append less_Suc_eq)

lemma all_effective_reports:
  "list_all is_report ds \<Longrightarrow> all_effective (cs @ ds) \<longleftrightarrow> all_effective cs"
proof (induction ds rule: rev_induct)
  case (snoc d ds)
  then show ?case
    using all_effective_snoc [of "cs @ ds" d] by (cases d) simp_all
qed simp

lemma send_fake: "send (fake_sink False False) c evs = (evs @ [c], None)"
  by (simp add: fake_sink_def)

lemma send_all_fake: "send_all (fake_sink False False) cs evs = (evs @ cs, None)"
  by (induction cs arbitrary: evs) (simp_all add: send_fake)

lemma moved_append: "moved (cs @ ds) = (fst (moved cs) + fst (moved ds), snd (moved cs) + snd (moved ds))"
  by (simp add: moved_def)

lemma wheeled_append:
  "wheeled (cs @ ds) = (fst (wheeled cs) + fst (wheeled ds), snd (wheeled cs) + snd (wheeled ds))"
  by (simp add: wheeled_def)

lemma moved_CMove: "moved (map (\<lambda>(a, b). CMove a b) ps) = ((\<Sum>(a, b)\<leftarrow>ps. a), (\<Sum>(a, b)\<leftarrow>ps. b))"
  by (induction ps) (auto simp: moved_def)

lemma wheeled_CWheel:
  "wheeled (map (\<lambda>(a, b). CWheel a b) ps) = ((\<Sum>(a, b)\<leftarrow>ps. a), (\<Sum>(a, b)\<leftarrow>ps. b))"
  by (induction ps) (auto simp: wheeled_def)

lemma still_lists [simp]:
  "moved (map (\<lambda>(a, b). CWheel a b) ps) = (0, 0)"
  "wheeled (map (\<lambda>(a, b). CMove a b) ps) = (0, 0)"
  "wheeled [CMoveMany ps] = (0, 0)"
  "moved [CKey n d] = (0, 0)" "wheeled [CKey n d] = (0, 0)"
  "moved [CButton n d] = (0, 0)" "wheeled [CButton n d] = (0, 0)"
  "moved [CAbsolute x y] = (0, 0)" "wheeled [CAbsolute x y] = (0, 0)"
  "moved [] = (0, 0)" "wheeled [] = (0, 0)"
  by (induction ps) (auto simp: moved_def wheeled_def)

text \<open>Whichever way a motion is sent, the reports add up to it.\<close>

lemma moved_move_calls:
  "moved (move_calls k x y) = (x, y)" "wheeled (move_calls k x y) = (0, 0)"
  using chunks_sum [of x y]
  by (auto simp: move_calls_def Let_def moved_CMove) (simp_all add: moved_def)

text \<open>
  One event over the working backend: what it appends, and that it does so only
  to change the host's state.
\<close>

lemma apply_key_fake:
  assumes "holds_exactly (fake_keys evs) (fake_buttons evs) l" and "implements l P"
    and "apply_key (fake_sink False False) vk d l evs = (l', evs', r)"
  shows "\<exists>cs. evs' = evs @ cs \<and> (cs = [] \<or> (\<exists>n d. cs = [CKey n d])) \<and>
           (all_effective evs \<longrightarrow> all_effective evs') \<and>
           wheel_x l' = wheel_x l \<and> wheel_y l' = wheel_y l"
  using assms(3)
proof (cases rule: apply_key_cases)
  case (press key)
  have "key \<notin> fake_keys evs"
    using press(4) assms(1,2) by (simp add: alias_down_image implements_def holds_exactly_def)
  with press show ?thesis by (auto simp: send_fake all_effective_snoc)
next
  case (lift key)
  have "key \<in> fake_keys evs" using lift(3) assms(1) by (simp add: holds_exactly_def)
  with lift show ?thesis by (auto simp: send_fake all_effective_snoc)
qed (auto simp: send_fake)

lemma apply_button_fake:
  assumes "holds_exactly (fake_keys evs) (fake_buttons evs) l"
    and "apply_button (fake_sink False False) n d l evs = (l', evs', r)"
  shows "\<exists>cs. evs' = evs @ cs \<and> (cs = [] \<or> (\<exists>n d. cs = [CButton n d])) \<and>
           (all_effective evs \<longrightarrow> all_effective evs') \<and>
           wheel_x l' = wheel_x l \<and> wheel_y l' = wheel_y l"
  using assms(2)
proof (cases rule: apply_button_cases)
  case (press b)
  with assms(1) show ?thesis by (auto simp: send_fake all_effective_snoc holds_exactly_def)
next
  case (lift b)
  with assms(1) show ?thesis by (auto simp: send_fake all_effective_snoc holds_exactly_def)
qed (auto simp: send_fake)

text \<open>The account of a session: effective reports, motion and wheel in balance.\<close>

definition balanced :: "call list \<Rightarrow> lease \<Rightarrow> int \<times> int \<Rightarrow> int \<times> int \<Rightarrow> bool" where
  "balanced evs l mv wh \<longleftrightarrow>
     all_effective evs \<and> moved evs = mv \<and>
     120 * fst (wheeled evs) + wheel_x l = fst wh \<and>
     120 * snd (wheeled evs) + wheel_y l = snd wh"

lemma apply_balanced:
  assumes "balanced evs l mv wh" and "holds_exactly (fake_keys evs) (fake_buttons evs) l"
    and "implements l P" and "valid_event e" and "fits_mode (mode l) e"
    and "apply_event (fake_sink False False) e l evs = (l', evs', r)"
  shows "balanced evs' l'
           (fst mv + fst (event_move e), snd mv + snd (event_move e))
           (fst wh + fst (event_wheel e), snd wh + snd (event_wheel e))"
proof (cases e)
  case (EKey vk d)
  with assms(6) have "apply_key (fake_sink False False) vk d l evs = (l', evs', r)" by simp
  from apply_key_fake [OF assms(2,3) this] assms(1) EKey show ?thesis
    by (auto simp: balanced_def moved_append wheeled_append)
next
  case (EButton n d)
  with assms(6) have "apply_button (fake_sink False False) n d l evs = (l', evs', r)" by simp
  from apply_button_fake [OF assms(2) this] assms(1) EButton show ?thesis
    by (auto simp: balanced_def moved_append wheeled_append)
next
  case (EMove x y)
  with assms(5,6) have "evs' = evs @ move_calls (fake_sink False False) x y" "l' = l"
    by (auto simp: send_all_fake)
  with assms(1) EMove show ?thesis
    by (simp add: balanced_def moved_append wheeled_append moved_move_calls
          all_effective_reports reports_moves)
next
  case (EWheel x y)
  define nx ny where "nx = trunc_div (wheel_x l + x) 120" and "ny = trunc_div (wheel_y l + y) 120"
  have "evs' = evs @ map (\<lambda>(a, b). CWheel a b) (chunks nx ny)"
    and "wheel_x l' = wheel_x l + x - nx * 120" "wheel_y l' = wheel_y l + y - ny * 120"
    using assms(6) EWheel by (auto simp: Let_def send_all_fake nx_def ny_def)
  with assms(1) EWheel chunks_sum [of nx ny] show ?thesis
    by (simp add: balanced_def moved_append wheeled_append wheeled_CWheel
          all_effective_reports reports_wheel)
next
  case (EAbsolute x y)
  with assms(5,6) have "evs' = evs @ [CAbsolute x y]" "l' = l" by (auto simp: send_fake)
  with assms(1) EAbsolute show ?thesis
    by (simp add: balanced_def moved_append wheeled_append all_effective_snoc)
qed (use assms in auto)

lemma apply_all_balanced:
  "balanced evs l mv wh \<Longrightarrow> holds_exactly (fake_keys evs) (fake_buttons evs) l \<Longrightarrow>
     implements l P \<Longrightarrow> list_all (\<lambda>e. valid_event e \<and> fits_mode (mode l) e) es \<Longrightarrow>
     apply_all (fake_sink False False) es l evs = (l', evs', r) \<Longrightarrow>
     balanced evs' l'
       (fst mv + (\<Sum>e\<leftarrow>es. fst (event_move e)), snd mv + (\<Sum>e\<leftarrow>es. snd (event_move e)))
       (fst wh + (\<Sum>e\<leftarrow>es. fst (event_wheel e)), snd wh + (\<Sum>e\<leftarrow>es. snd (event_wheel e)))"
proof (induction es arbitrary: l evs P mv wh)
  case (Cons e es)
  obtain l1 evs1 r1 where e: "apply_event (fake_sink False False) e l evs = (l1, evs1, r1)"
    by (metis prod_cases3)
  have ve: "valid_event e" "fits_mode (mode l) e" using Cons.prems(4) by simp_all
  note ref = fk.apply_refines [OF Cons.prems(3,2) ve e]
  note bal = apply_balanced [OF Cons.prems(1,2,3) ve e]
  have run: "apply_all (fake_sink False False) es l1 evs1 = (l', evs', r)"
    using Cons.prems(5) e ref by simp
  have ok: "list_all (\<lambda>e. valid_event e \<and> fits_mode (mode l1) e) es"
    using Cons.prems(4) mode_apply [OF e] by simp
  from ref have "fk.agrees evs1 l1" and "implements l1 (press_event e P)" by simp_all
  from Cons.IH [OF bal this ok run] show ?case by (simp add: add.assoc)
qed simp

text \<open>
  C9. Over a backend that works, any sequence of valid events brings the host exactly the
  keys whose virtual keys are pressed and the buttons that are pressed: the lease refines the
  set of pressed inputs, aliases of one key included.
\<close>

theorem lease_refines_pressed:
  assumes "list_all (\<lambda>e. valid_event e \<and> fits_mode m e) es"
    and "apply_all (fake_sink False False) es (new_lease m) [] = (l, evs, r)"
  shows "r = None \<and> fake_keys evs = key_image (fst (fold press_event es ({}, {}))) \<and>
    fake_buttons evs = button_image (snd (fold press_event es ({}, {}))) \<and>
    set (virtual l) = fst (fold press_event es ({}, {}))"
proof -
  have "holds_exactly (fake_keys []) (fake_buttons []) (new_lease m)"
    by (simp add: holds_exactly_def fake_keys_def fake_buttons_def new_lease_def)
  with assms have "r = None \<and> implements l (fold press_event es ({}, {})) \<and>
      holds_exactly (fake_keys evs) (fake_buttons evs) l"
    by (intro fk.apply_all_refines [OF implements_new]) (simp_all add: new_lease_def)
  then show ?thesis
    by (simp add: implements_def holds_exactly_def)
qed

theorem lease_refines_pressed_witness:
  "fake_keys [CKey ''ShiftLeft'' True, CKey ''KeyA'' True, CKey ''KeyA'' False]
     = key_image {0x10, 0xA0}"
proof -
  let ?es = "[EKey 0x10 True, EKey 0xA0 True, EKey 0x41 True, EKey 0x41 False]"
  have v: "list_all (\<lambda>e. valid_event e \<and> fits_mode Relative e) ?es" by code_simp
  have a: "apply_all (fake_sink False False) ?es (new_lease Relative) [] =
     (\<lparr>mode = Relative, virtual = [0x10, 0xA0], possibly_down = [''ShiftLeft''], buttons = [],
       wheel_x = 0, wheel_y = 0\<rparr>,
      [CKey ''ShiftLeft'' True, CKey ''KeyA'' True, CKey ''KeyA'' False], None)" by code_simp
  from lease_refines_pressed [OF v a] show ?thesis by (simp add: insert_commute)
qed



text \<open>
  C6. After a session over the stream, a confirmed flush and a successful release, no key
  is down that kvmd has not been seen to release, and no button is down.
\<close>

theorem confirmed_release:
  assumes "apply_all (traced Ws k) es (new_lease m) (s, []) = (l, (s1, t1), r)"
    and "release (traced Http h) l (s2, Flushed True # t1) = (l', (s3, t2), True)"
  shows "unacked_keys False t2 = {} \<and> open_buttons t2 = {}"
proof -
  have "tracks (open_keys []) (open_buttons []) (new_lease m)"
    by (simp add: tracks_def)
  then have "tracks (open_keys t1) (open_buttons t1) l"
    using tr.apply_all_tracked [OF _ assms(1)] by simp
  then have "tracks (unacked_keys False (Flushed True # t1)) (open_buttons (Flushed True # t1)) l"
    by (simp add: unacked_keys_flushed)
  then show ?thesis
    using ack.release_tracked(4) [OF _ assms(2)] by simp
qed

definition accepting :: "unit sink" where
  "accepting = \<lparr>send = (\<lambda>c s. (s, None)), has_move_many = True\<rparr>"

theorem confirmed_release_witness:
  "unacked_keys False [Sent Http (CKey ''KeyB'' False) True, Flushed True,
     Sent Ws (CKey ''KeyB'' True) True, Sent Ws (CKey ''KeyA'' False) True,
     Sent Ws (CKey ''KeyA'' True) True] = {}"
proof -
  have a: "apply_all (traced Ws accepting) [EKey 0x41 True, EKey 0x41 False, EKey 0x42 True]
      (new_lease Relative) ((), []) =
    (\<lparr>mode = Relative, virtual = [0x42], possibly_down = [''KeyB''], buttons = [], wheel_x = 0, wheel_y = 0\<rparr>,
     ((), [Sent Ws (CKey ''KeyB'' True) True, Sent Ws (CKey ''KeyA'' False) True,
           Sent Ws (CKey ''KeyA'' True) True]), None)"
    by code_simp
  have b: "release (traced Http accepting)
      \<lparr>mode = Relative, virtual = [0x42], possibly_down = [''KeyB''], buttons = [], wheel_x = 0, wheel_y = 0\<rparr>
      ((), Flushed True # [Sent Ws (CKey ''KeyB'' True) True, Sent Ws (CKey ''KeyA'' False) True,
           Sent Ws (CKey ''KeyA'' True) True]) =
    (new_lease Relative, ((), [Sent Http (CKey ''KeyB'' False) True, Flushed True,
     Sent Ws (CKey ''KeyB'' True) True, Sent Ws (CKey ''KeyA'' False) True,
     Sent Ws (CKey ''KeyA'' True) True]), True)"
    by code_simp
  from confirmed_release [OF a b] show ?thesis by simp
qed

text \<open>
  C8. Without a confirmed flush a release can report success although kvmd was never seen
  to release a key: the key-up of a running session goes to the stream and is forgotten at once,
  and nothing is sent for it over HTTP.
\<close>

theorem unconfirmed_release:
  "\<exists>l l' t1 t2. apply_all (traced Ws accepting) [EKey 0x41 True, EKey 0x41 False] (new_lease Relative) ((), [])
        = (l, ((), t1), None) \<and>
     release (traced Http accepting) l ((), Flushed False # t1) = (l', ((), t2), True) \<and>
     unacked_keys False t2 = {''KeyA''} \<and> (\<forall>c ok. Sent Http c ok \<notin> set t2)"
proof -
  have a: "apply_all (traced Ws accepting) [EKey 0x41 True, EKey 0x41 False] (new_lease Relative) ((), [])
    = (new_lease Relative, ((), [Sent Ws (CKey ''KeyA'' False) True, Sent Ws (CKey ''KeyA'' True) True]), None)"
    by code_simp
  have b: "release (traced Http accepting) (new_lease Relative)
      ((), Flushed False # [Sent Ws (CKey ''KeyA'' False) True, Sent Ws (CKey ''KeyA'' True) True]) =
    (new_lease Relative, ((), Flushed False # [Sent Ws (CKey ''KeyA'' False) True, Sent Ws (CKey ''KeyA'' True) True]), True)"
    by code_simp
  from a b show ?thesis by force
qed

end
