(* ===== verification/Hid_Stream.thy ===== *)
theory Hid_Stream
  imports Hid_Lease_Laws "HOL-Library.Word"
begin

unbundle bit_operations_syntax

text \<open>
  The class \<open>KvmdStream\<close> of \<open>python/rkmoon_hid/backend.py\<close>: one persistent
  WebSocket to kvmd.  Bytes are 8-bit words.  The random mask of a frame, the
  readings of the event loop's clock and whether a \<open>drain\<close> finished within the
  timeout come from outside and are arguments.
\<close>

type_synonym byte = "8 word"

section \<open>Packing\<close>

fun be :: "nat \<Rightarrow> nat \<Rightarrow> byte list" where
  "be 0 n = []"
| "be (Suc k) n = be k (n div 256) @ [of_nat n]"

definition of_be :: "byte list \<Rightarrow> nat" where
  "of_be bs = foldl (\<lambda>a b. a * 256 + unat b) 0 bs"

text \<open>\<open>struct.pack\<close> with \<open>">H"\<close>, \<open>">Q"\<close>, \<open>">h"\<close> and \<open>"b"\<close>.\<close>

definition pack_H :: "nat \<Rightarrow> byte list res" where
  "pack_H n = (if n < 2 ^ 16 then Inr (be 2 n) else Inl StructError)"

definition pack_Q :: "nat \<Rightarrow> byte list res" where
  "pack_Q n = (if n < 2 ^ 64 then Inr (be 8 n) else Inl StructError)"

definition pack_h :: "int \<Rightarrow> byte list res" where
  "pack_h x =
     (if -32768 \<le> x \<and> x \<le> 32767 then Inr (be 2 (nat (x mod 65536))) else Inl StructError)"

definition pack_b :: "int \<Rightarrow> byte list res" where
  "pack_b x = (if -128 \<le> x \<and> x \<le> 127 then Inr [word_of_int x] else Inl StructError)"

text \<open>Two packed values in a row.\<close>

definition pack2 :: "(int \<Rightarrow> byte list res) \<Rightarrow> int \<Rightarrow> int \<Rightarrow> byte list res" where
  "pack2 f x y =
     (case f x of
        Inl e \<Rightarrow> Inl e
      | Inr a \<Rightarrow> (case f y of Inl e \<Rightarrow> Inl e | Inr b \<Rightarrow> Inr (a @ b)))"

lemma length_be [simp]: "length (be k n) = k"
  by (induction k n rule: be.induct) simp_all

lemma of_be_snoc: "of_be (bs @ [b]) = of_be bs * 256 + unat b"
  by (simp add: of_be_def)

lemma of_be_be: "of_be (be k n) = n mod 256 ^ k"
proof (induction k n rule: be.induct)
  case (1 n)
  show ?case by (simp add: of_be_def)
next
  case (2 k n)
  have "of_be (be (Suc k) n) = n div 256 mod 256 ^ k * 256 + n mod 256"
    using 2 by (simp add: of_be_snoc unat_of_nat)
  also have "\<dots> = n mod (256 * 256 ^ k)"
    by (simp add: mod_mult2_eq)
  finally show ?case by simp
qed

section \<open>Frames\<close>

definition MAX_FRAME :: nat where
  "MAX_FRAME = 2 ^ 20"

definition apply_mask :: "byte list \<Rightarrow> byte list \<Rightarrow> byte list" where
  "apply_mask msk payload =
     map (\<lambda>i. payload ! i XOR msk ! (i AND 3)) [0..<length payload]"

definition frame :: "byte list \<Rightarrow> byte \<Rightarrow> byte list \<Rightarrow> byte list res" where
  "frame msk opcode payload =
     (let n = length payload;
          header =
            (if n < 126 then Inr [0x80 OR of_nat n]
             else if n < 65536 then
               (case pack_H n of Inl e \<Rightarrow> Inl e | Inr b \<Rightarrow> Inr ((0x80 OR 126) # b))
             else
               (case pack_Q n of Inl e \<Rightarrow> Inl e | Inr b \<Rightarrow> Inr ((0x80 OR 127) # b)))
      in case header of
           Inl e \<Rightarrow> Inl e
         | Inr h \<Rightarrow> Inr ((0x80 OR opcode) # h @ msk @ apply_mask msk payload))"

definition readexactly :: "nat \<Rightarrow> byte list \<Rightarrow> (byte list \<times> byte list) res" where
  "readexactly n s = (if length s < n then Inl IncompleteRead else Inr (take n s, drop n s))"

text \<open>The extended length, when the short one says so.\<close>

definition read_length :: "nat \<Rightarrow> byte list \<Rightarrow> (nat \<times> byte list) res" where
  "read_length n s =
     (if n = 126 then
        (case readexactly 2 s of Inl e \<Rightarrow> Inl e | Inr (b, s') \<Rightarrow> Inr (of_be b, s'))
      else if n = 127 then
        (case readexactly 8 s of Inl e \<Rightarrow> Inl e | Inr (b, s') \<Rightarrow> Inr (of_be b, s'))
      else Inr (n, s))"

text \<open>One turn of the read loop up to the dispatch on the opcode.\<close>

definition read_frame :: "byte list \<Rightarrow> (byte \<times> byte list \<times> byte list) res" where
  "read_frame s =
     (case readexactly 2 s of
        Inl e \<Rightarrow> Inl e
      | Inr (h, s1) \<Rightarrow>
          (let b0 = h ! 0; b1 = h ! 1 in
           case read_length (unat (b1 AND 0x7F)) s1 of
             Inl e \<Rightarrow> Inl e
           | Inr (n, s2) \<Rightarrow>
               if n > MAX_FRAME then Inl BackendError
               else
                 (case (if b1 AND 0x80 \<noteq> 0 then readexactly 4 s2 else Inr ([], s2)) of
                    Inl e \<Rightarrow> Inl e
                  | Inr (msk, s3) \<Rightarrow>
                      (case readexactly n s3 of
                         Inl e \<Rightarrow> Inl e
                       | Inr (payload, s4) \<Rightarrow>
                           Inr (b0 AND 0x0F,
                                (if msk \<noteq> [] then apply_mask msk payload else payload),
                                s4)))))"

lemma readexactly_append [simp]:
  "length a = n \<Longrightarrow> readexactly n (a @ s) = Inr (a, s)"
  by (simp add: readexactly_def)

lemma readexactly_2 [simp]: "readexactly 2 (a # b # s) = Inr ([a, b], s)"
  by (simp add: readexactly_def numeral_2_eq_2)

lemma length_apply_mask [simp]: "length (apply_mask m p) = length p"
  by (simp add: apply_mask_def)

lemma apply_mask_twice [simp]: "apply_mask m (apply_mask m p) = p"
  by (rule nth_equalityI) (simp_all add: apply_mask_def xor.assoc)

lemma short_length_byte:
  assumes "n < 128"
  shows "unat ((0x80 OR of_nat n :: byte) AND 0x7F) = n"
    and "(0x80 OR of_nat n :: byte) AND 0x80 \<noteq> 0"
proof -
  have "list_all (\<lambda>n. unat ((0x80 OR of_nat n :: byte) AND 0x7F) = n \<and>
          (0x80 OR of_nat n :: byte) AND 0x80 \<noteq> 0) [0..<128]"
    by code_simp
  with assms show "unat ((0x80 OR of_nat n :: byte) AND 0x7F) = n"
    and "(0x80 OR of_nat n :: byte) AND 0x80 \<noteq> 0"
    by (simp_all add: list_all_iff)
qed

lemma opcode_nibble:
  assumes "opcode < (16 :: byte)"
  shows "(0x80 OR opcode) AND 0x0F = opcode"
proof -
  have "list_all (\<lambda>n. (0x80 OR of_nat n :: byte) AND 0x0F = of_nat n) [0..<16]"
    by code_simp
  moreover have "unat opcode < 16" using assms by (simp add: word_less_nat_alt)
  ultimately have "(0x80 OR of_nat (unat opcode) :: byte) AND 0x0F = of_nat (unat opcode)"
    unfolding list_all_iff set_upt by (elim bspec) simp
  then show ?thesis by simp
qed

lemma frame_short_enough: "length payload < 2 ^ 64 \<Longrightarrow> \<exists>b. frame m opc payload = Inr b"
  by (auto simp: frame_def Let_def pack_H_def pack_Q_def)

lemma read_frame_frame:
  assumes "frame msk opcode payload = Inr b" and "length msk = 4" and "opcode < 16"
    and "length payload \<le> MAX_FRAME"
  shows "read_frame (b @ rest) = Inr (opcode, payload, rest)"
proof -
  define n where "n = length payload"
  obtain c lb where b: "b = (0x80 OR opcode) # (0x80 OR of_nat c) # lb @ msk @ apply_mask msk payload"
    and c: "c < 128" and len: "\<And>s. read_length c (lb @ s) = Inr (n, s)"
  proof -
    have n: "n \<le> 1048576" using assms(4) by (simp add: n_def MAX_FRAME_def)
    consider (small) "n < 126" | (medium) "126 \<le> n" "n < 65536" | (large) "65536 \<le> n"
      by linarith
    then show thesis
    proof cases
      case small
      with assms(1) have "b = (0x80 OR opcode) # (0x80 OR of_nat n) # [] @ msk @ apply_mask msk payload"
        by (simp add: frame_def n_def [symmetric])
      then show thesis by (rule that) (use small in \<open>simp_all add: read_length_def\<close>)
    next
      case medium
      with assms(1) have
        "b = (0x80 OR opcode) # (0x80 OR of_nat 126) # be 2 n @ msk @ apply_mask msk payload"
        by (simp add: frame_def n_def [symmetric] pack_H_def)
      then show thesis by (rule that) (use medium in \<open>simp_all add: read_length_def of_be_be\<close>)
    next
      case large
      with assms(1) n have
        "b = (0x80 OR opcode) # (0x80 OR of_nat 127) # be 8 n @ msk @ apply_mask msk payload"
        by (simp add: frame_def n_def [symmetric] pack_Q_def)
      then show thesis by (rule that) (use n in \<open>simp_all add: read_length_def of_be_be\<close>)
    qed
  qed
  have "msk \<noteq> []" using assms(2) by auto
  then show ?thesis
    using assms(2-4) c len
    unfolding b read_frame_def
    by (simp add: Let_def short_length_byte opcode_nibble n_def [symmetric])
qed

section \<open>Events on the wire\<close>

text \<open>
  \<open>key.encode("ascii")\<close> raises on a character beyond ASCII (the exception is a
  \<open>ValueError\<close>).
\<close>

definition ascii :: "string \<Rightarrow> byte list res" where
  "ascii s =
     (if list_all (\<lambda>c. of_char c < (128 :: nat)) s
      then Inr (map (\<lambda>c. of_nat (of_char c)) s)
      else Inl ValueError)"

definition encode_name :: "byte \<Rightarrow> bool \<Rightarrow> string \<Rightarrow> byte list res" where
  "encode_name tag down name =
     (case ascii name of
        Inl e \<Rightarrow> Inl e
      | Inr b \<Rightarrow> Inr (tag # (if down then 1 else 0) # b))"

fun pack_all :: "(int \<times> int) list \<Rightarrow> byte list res" where
  "pack_all [] = Inr []"
| "pack_all ((x, y) # ds) =
     (case pack2 pack_b x y of
        Inl e \<Rightarrow> Inl e
      | Inr a \<Rightarrow> (case pack_all ds of Inl e \<Rightarrow> Inl e | Inr b \<Rightarrow> Inr (a @ b)))"

definition prefixed :: "byte list \<Rightarrow> byte list res \<Rightarrow> byte list res" where
  "prefixed p r = (case r of Inl e \<Rightarrow> Inl e | Inr b \<Rightarrow> Inr (p @ b))"

fun encode_call :: "call \<Rightarrow> byte list res" where
  "encode_call (CKey key down) = encode_name 1 down key"
| "encode_call (CButton b down) = encode_name 2 down b"
| "encode_call (CAbsolute x y) = prefixed [3] (pack2 pack_h x y)"
| "encode_call (CMoveMany deltas) = prefixed [4, 1] (pack_all deltas)"
| "encode_call (CMove x y) = prefixed [4, 1] (pack_all [(x, y)])"
| "encode_call (CWheel x y) = prefixed [5, 0] (pack2 pack_b x y)"

text \<open>The USB reports a call costs: one per delta of a motion, one otherwise.\<close>

fun reports :: "call \<Rightarrow> nat" where
  "reports (CMoveMany deltas) = length deltas"
| "reports c = 1"

section \<open>Pacing\<close>

definition MOUSE_REPORT_INTERVAL :: rat where
  "MOUSE_REPORT_INTERVAL = 42 / 10000"

text \<open>
  \<open>_slot\<close>: \<open>now\<close> is the first reading of the clock, \<open>woke\<close> the reading after
  the sleep.  The result is the time at which the caller goes on and the new
  value of the attribute.
\<close>

definition slot :: "rat \<Rightarrow> rat \<Rightarrow> rat \<Rightarrow> nat \<Rightarrow> rat \<times> rat" where
  "slot now woke free_at n =
     (let now' = (if free_at > now then woke else now)
      in (now', max now' free_at + of_nat n * MOUSE_REPORT_INTERVAL))"

section \<open>The stream object\<close>

record step_env =
  now_at :: rat
  woke_at :: rat
  drained :: bool
  step_mask :: "byte list"

record stream =
  alive :: bool
  has_writer :: bool
  pongs :: "bool list"
  mouse_free_at :: rat
  keyboard_free_at :: rat
  written :: "byte list"
  drawn :: nat

text \<open>
  \<open>pongs\<close> is the queue of the read loop's tokens: \<open>True\<close> for a pong (\<open>None\<close> in
  Python), \<open>False\<close> for the end of the connection.  \<open>drawn\<close> counts the steps of
  the environment consumed so far.
\<close>

definition new_stream :: stream where
  "new_stream = \<lparr>alive = False, has_writer = False, pongs = [], mouse_free_at = 0,
                 keyboard_free_at = 0, written = [], drawn = 0\<rparr>"

definition stream_write :: "step_env \<Rightarrow> byte list \<Rightarrow> stream \<Rightarrow> stream \<times> exn option" where
  "stream_write env payload st =
     (if \<not> alive st \<or> \<not> has_writer st then (st, Some BackendError)
      else
        (case frame (step_mask env) 0x2 payload of
           Inl e \<Rightarrow> (st\<lparr>alive := False\<rparr>, Some BackendError)
         | Inr b \<Rightarrow>
             let st' = st\<lparr>written := written st @ b\<rparr>
             in if drained env then (st', None)
                else (st'\<lparr>alive := False\<rparr>, Some BackendError)))"

definition stream_slot :: "step_env \<Rightarrow> call \<Rightarrow> stream \<Rightarrow> stream" where
  "stream_slot env c st =
     (case c of
        CKey _ _ \<Rightarrow>
          st\<lparr>keyboard_free_at := snd (slot (now_at env) (woke_at env) (keyboard_free_at st) 1)\<rparr>
      | _ \<Rightarrow>
          st\<lparr>mouse_free_at :=
               snd (slot (now_at env) (woke_at env) (mouse_free_at st) (reports c))\<rparr>)"

definition stream_call :: "(nat \<Rightarrow> step_env) \<Rightarrow> call \<Rightarrow> stream \<Rightarrow> stream \<times> exn option" where
  "stream_call env c st =
     (let e = env (drawn st);
          st1 = (stream_slot e c st)\<lparr>drawn := Suc (drawn st)\<rparr>
      in case encode_call c of
           Inl x \<Rightarrow> (st1, Some x)
         | Inr payload \<Rightarrow> stream_write e payload st1)"

definition stream_sink :: "(nat \<Rightarrow> step_env) \<Rightarrow> stream sink" where
  "stream_sink env = \<lparr>send = stream_call env, has_move_many = True\<rparr>"

text \<open>
  \<open>flush\<close>: \<open>answer\<close> is what \<open>pongs.get()\<close> returns within the timeout, \<open>None\<close>
  when it does not.
\<close>

definition stream_flush ::
  "step_env \<Rightarrow> bool option \<Rightarrow> stream \<Rightarrow> stream \<times> exn option" where
  "stream_flush env answer st =
     (case stream_write env [0] (st\<lparr>pongs := []\<rparr>) of
        (st1, Some e) \<Rightarrow> (st1, Some e)
      | (st1, None) \<Rightarrow>
          if answer = Some True then (st1, None)
          else (st1\<lparr>alive := False\<rparr>, Some BackendError))"

text \<open>
  The read loop over everything the socket delivers before it ends.  A ping is
  answered (the write is not drained), a close frame, an oversized frame or the
  end of the data leaves the loop; the \<open>finally\<close> clause marks the stream dead
  and wakes a waiting flush.
\<close>

definition stream_ended :: "stream \<Rightarrow> stream" where
  "stream_ended st = st\<lparr>alive := False, pongs := pongs st @ [False]\<rparr>"

lemma readexactly_shorter:
  "readexactly n s = Inr (a, s') \<Longrightarrow> length s = n + length s' \<and> length a = n"
  by (auto simp: readexactly_def split: if_splits)

lemma read_length_shorter: "read_length n s = Inr (m, s') \<Longrightarrow> length s' \<le> length s"
  by (auto simp: read_length_def dest!: readexactly_shorter split: if_splits sum.splits)

lemma read_frame_shorter:
  "read_frame s = Inr (opc, p, s') \<Longrightarrow> length s' < length s \<and> length p \<le> MAX_FRAME"
  by (auto simp: read_frame_def Let_def dest!: readexactly_shorter read_length_shorter
           split: sum.splits prod.splits if_splits)

function read_loop :: "(nat \<Rightarrow> step_env) \<Rightarrow> byte list \<Rightarrow> stream \<Rightarrow> stream" where
  "read_loop env s st =
     (case read_frame s of
        Inl e \<Rightarrow> stream_ended st
      | Inr (opcode, payload, s') \<Rightarrow>
          if opcode = 0x9 then
            (case frame (step_mask (env (drawn st))) 0xA payload of
               Inl e \<Rightarrow> stream_ended st
             | Inr b \<Rightarrow>
                 read_loop env s' (st\<lparr>written := written st @ b, drawn := Suc (drawn st)\<rparr>))
          else if opcode = 0x8 then stream_ended st
          else if opcode = 0x2 \<and> take 1 payload = [0xFF] then
            read_loop env s' (st\<lparr>pongs := pongs st @ [True]\<rparr>)
          else read_loop env s' st)"
  by pat_completeness auto

termination
  by (relation "measure (\<lambda>(env, s, st). length s)") (auto dest: read_frame_shorter)

declare read_loop.simps [simp del]

definition close_payload :: "byte list" where
  "close_payload = [0x03, 0xE8]"

definition stream_close :: "step_env \<Rightarrow> stream \<Rightarrow> stream" where
  "stream_close env st =
     (if has_writer st then
        st\<lparr>alive := False, has_writer := False,
           written := written st @ (case frame (step_mask env) 0x8 close_payload of
                                      Inl e \<Rightarrow> [] | Inr b \<Rightarrow> b)\<rparr>
      else st\<lparr>alive := False\<rparr>)"

end
