(* ===== verification/Hid_Stream_Laws.thy ===== *)
theory Hid_Stream_Laws
  imports Hid_Stream
begin

unbundle bit_operations_syntax

text \<open>
  What the WebSocket path guarantees: every event a lease can produce has a wire
  form, different events have different wire forms, the peer reads back exactly
  the events sent and in their order, reports are spaced, and a stream that has
  failed once stays silent.
\<close>

section \<open>Every event has a wire form\<close>

lemma KEYS_ascii: "n \<in> snd ` set KEYS_items \<Longrightarrow> \<exists>b. ascii n = Inr b"
proof -
  have "list_all (\<lambda>(v, n). list_all (\<lambda>c. of_char c < (128 :: nat)) n) KEYS_items"
    by code_simp
  then show "n \<in> snd ` set KEYS_items \<Longrightarrow> \<exists>b. ascii n = Inr b"
    by (auto simp: ascii_def list_all_iff)
qed

lemma BUTTONS_ascii: "n \<in> snd ` set BUTTONS_items \<Longrightarrow> \<exists>b. ascii n = Inr b"
proof -
  have "list_all (\<lambda>(v, n). list_all (\<lambda>c. of_char c < (128 :: nat)) n) BUTTONS_items"
    by code_simp
  then show "n \<in> snd ` set BUTTONS_items \<Longrightarrow> \<exists>b. ascii n = Inr b"
    by (auto simp: ascii_def list_all_iff)
qed

lemma pack_b_small: "\<bar>x\<bar> \<le> 127 \<Longrightarrow> \<exists>b. pack_b x = Inr b"
  by (auto simp: pack_b_def)

lemma pack2_small: "\<bar>x\<bar> \<le> 127 \<Longrightarrow> \<bar>y\<bar> \<le> 127 \<Longrightarrow> \<exists>b. pack2 pack_b x y = Inr b"
  by (auto simp: pack2_def pack_b_def)

lemma pack_all_small:
  "\<forall>(x, y)\<in>set ds. \<bar>x\<bar> \<le> 127 \<and> \<bar>y\<bar> \<le> 127 \<Longrightarrow> \<exists>b. pack_all ds = Inr b"
proof (induction ds)
  case (Cons d ds)
  obtain x y where d: "d = (x, y)" by fastforce
  from Cons d obtain a b where "pack2 pack_b x y = Inr a" "pack_all ds = Inr b"
    using pack2_small [of x y] by auto
  with d show ?case by simp
qed simp

definition encodable :: "call \<Rightarrow> bool" where
  "encodable c \<longleftrightarrow> (\<exists>b. encode_call c = Inr b)"

lemma encodable_move_calls: "list_all encodable (move_calls k x y)"
proof -
  have small: "\<forall>(a, b)\<in>set (chunks x y). \<bar>a\<bar> \<le> 127 \<and> \<bar>b\<bar> \<le> 127"
    using chunks_bounded by blast
  with pack_all_small [OF small] have "encodable (CMoveMany (chunks x y))"
    by (auto simp: encodable_def prefixed_def)
  moreover have "encodable (CMove a b)" if "(a, b) \<in> set (chunks x y)" for a b
  proof -
    from small that have "\<forall>(a, b)\<in>set [(a, b)]. \<bar>a\<bar> \<le> 127 \<and> \<bar>b\<bar> \<le> 127" by auto
    from pack_all_small [OF this] show ?thesis
      by (auto simp: encodable_def prefixed_def simp del: pack_all.simps)
  qed
  ultimately show ?thesis by (auto simp: move_calls_def Let_def list_all_iff)
qed

lemma encodable_wheel: "list_all encodable (map (\<lambda>(a, b). CWheel a b) (chunks x y))"
  using chunks_bounded pack2_small
  by (fastforce simp: list_all_iff encodable_def prefixed_def)

lemma stream_write_error: "stream_write e p st = (st', Some x) \<Longrightarrow> x = BackendError"
  by (auto simp: stream_write_def Let_def split: if_splits sum.splits)

lemma stream_call_error:
  "encodable c \<Longrightarrow> send (stream_sink env) c st = (st', Some x) \<Longrightarrow> x = BackendError"
  by (auto simp: stream_sink_def stream_call_def encodable_def Let_def dest: stream_write_error)

lemma stream_all_error:
  "list_all encodable cs \<Longrightarrow> send_all (stream_sink env) cs st = (st', Some x) \<Longrightarrow> x = BackendError"
proof (induction cs arbitrary: st)
  case (Cons c cs)
  then show ?case
    by (auto split: prod.splits option.splits dest: stream_call_error)
qed simp

section \<open>The wire form determines the event\<close>

text \<open>A single motion is sent as a batch of one.\<close>

fun wire_call :: "call \<Rightarrow> call" where
  "wire_call (CMove x y) = CMoveMany [(x, y)]"
| "wire_call c = c"

lemma encode_wire_call: "encode_call (wire_call c) = encode_call c"
  by (cases c) simp_all

lemma ascii_inverse:
  assumes "ascii n = Inr b"
  shows "map (\<lambda>w. char_of (unat w)) b = n"
proof -
  from assms have small: "list_all (\<lambda>c. of_char c < (128 :: nat)) n"
    and b: "b = map (\<lambda>c. of_nat (of_char c)) n"
    by (auto simp: ascii_def split: if_splits)
  from small show ?thesis unfolding b
    by (induction n) (auto simp: unat_of_nat)
qed

lemma pack_b_inverse: "pack_b x = Inr b \<Longrightarrow> map sint b = [x]"
  by (auto simp: pack_b_def sint_sbintrunc' signed_take_bit_int_eq_self_iff split: if_splits)

definition signed16 :: "nat \<Rightarrow> int" where
  "signed16 m = (if m \<ge> 32768 then int m - 65536 else int m)"

lemma pack_h_inverse: "pack_h x = Inr b \<Longrightarrow> length b = 2 \<and> signed16 (of_be b) = x"
proof -
  assume "pack_h x = Inr b"
  then have x: "-32768 \<le> x" "x \<le> 32767" and b: "b = be 2 (nat (x mod 65536))"
    by (auto simp: pack_h_def split: if_splits)
  have "nat (x mod 65536) < 65536" by simp
  then have m: "of_be b = nat (x mod 65536)" by (simp add: b of_be_be)
  have "x mod 65536 = (if x < 0 then x + 65536 else x)"
    using x by (auto simp: mod_pos_pos_trivial intro: mod_pos_pos_trivial [of "x + 65536" 65536, simplified])
  with x have "signed16 (nat (x mod 65536)) = x" by (auto simp: signed16_def)
  with m show ?thesis by (simp add: b)
qed

lemma pack_b_length: "pack_b x = Inr b \<Longrightarrow> length b = 1"
  by (auto simp: pack_b_def split: if_splits)

lemma pack2_inj:
  assumes "\<And>x b. f x = Inr b \<Longrightarrow> length b = n \<and> g b = x"
    and "pack2 f x y = Inr b" and "pack2 f x' y' = Inr b"
  shows "x = x' \<and> y = y'"
proof -
  from assms(2) obtain p q where "f x = Inr p" "f y = Inr q" "b = p @ q"
    by (auto simp: pack2_def split: sum.splits)
  moreover from assms(3) obtain p' q' where "f x' = Inr p'" "f y' = Inr q'" "b = p' @ q'"
    by (auto simp: pack2_def split: sum.splits)
  ultimately show ?thesis using assms(1) by (metis append_eq_append_conv)
qed

lemma pack2_b_length: "pack2 pack_b x y = Inr b \<Longrightarrow> length b = 2"
  by (auto simp: pack2_def dest!: pack_b_length split: sum.splits)

lemma pack_b_law: "pack_b x = Inr b \<Longrightarrow> length b = 1 \<and> sint (hd b) = x"
  using pack_b_inverse [of x b] pack_b_length [of x b] by (cases b) auto

lemmas pack2_b_inj = pack2_inj [of pack_b 1 "\<lambda>b. sint (hd b)", OF pack_b_law]

lemmas pack2_h_inj = pack2_inj [of pack_h 2 "\<lambda>b. signed16 (of_be b)", OF pack_h_inverse]

lemma pack_all_Cons:
  "pack_all ((x, y) # ds) = Inr b \<longleftrightarrow>
     (\<exists>p q. pack2 pack_b x y = Inr p \<and> pack_all ds = Inr q \<and> b = p @ q)"
  by (auto split: sum.splits)

lemma pack_all_inj: "pack_all ds = Inr b \<Longrightarrow> pack_all es = Inr b \<Longrightarrow> ds = es"
proof (induction ds arbitrary: es b)
  case Nil
  then show ?case
    by (cases es) (auto split: sum.splits dest!: pack2_b_length)
next
  case (Cons d ds)
  obtain x y where d: "d = (x, y)" by fastforce
  from Cons.prems(1) obtain p q where 1: "pack2 pack_b x y = Inr p" "pack_all ds = Inr q" "b = p @ q"
    unfolding d pack_all_Cons by blast
  show ?case
  proof (cases es)
    case Nil
    with Cons.prems(2) 1 pack2_b_length [OF 1(1)] show ?thesis by simp
  next
    case (Cons e es')
    obtain x' y' where e: "e = (x', y')" by fastforce
    from Cons.prems(2) obtain p' q' where
      2: "pack2 pack_b x' y' = Inr p'" "pack_all es' = Inr q'" "b = p' @ q'"
      unfolding Cons e pack_all_Cons by blast
    have "p = p'" "q = q'"
      using 1(3) 2(3) pack2_b_length [OF 1(1)] pack2_b_length [OF 2(1)] by auto
    with 1 2 pack2_b_inj Cons.IH d e Cons show ?thesis by blast
  qed
qed

lemma encode_call_inj:
  assumes "encode_call c = Inr b" and "encode_call d = Inr b"
  shows "wire_call c = wire_call d"
  using assms
  by (cases c; cases d)
     (auto simp: encode_name_def prefixed_def simp del: pack_all.simps
           split: sum.splits if_splits
           dest: ascii_inverse pack_all_inj,
      (use pack2_b_inj pack2_h_inj in blast)+)

section \<open>The peer reads back the events in order\<close>

text \<open>The frames of a byte string, as the peer of \<open>StreamTests\<close> reads them.\<close>

function read_frames :: "byte list \<Rightarrow> (byte \<times> byte list) list" where
  "read_frames s =
     (case read_frame s of
        Inl e \<Rightarrow> []
      | Inr (opcode, payload, s') \<Rightarrow> (opcode, payload) # read_frames s')"
  by pat_completeness auto
termination
  by (relation "measure length") (auto dest: read_frame_shorter)

declare read_frames.simps [simp del]

definition whole :: "byte list \<Rightarrow> (byte \<times> byte list) list \<Rightarrow> bool" where
  "whole w ps \<longleftrightarrow> (\<forall>rest. read_frames (w @ rest) = ps @ read_frames rest)"

lemma whole_Nil: "whole [] []"
  by (simp add: whole_def)

lemma whole_snoc:
  assumes "whole w ps" and "frame m opc p = Inr b" and "length m = 4" and "opc < 16"
    and "length p \<le> MAX_FRAME"
  shows "whole (w @ b) (ps @ [(opc, p)])"
proof -
  have "read_frames (b @ rest) = (opc, p) # read_frames rest" for rest
    by (subst read_frames.simps) (simp add: read_frame_frame [OF assms(2-5)])
  with assms(1) show ?thesis by (simp add: whole_def)
qed

lemma whole_read: "whole w ps \<Longrightarrow> read_frames w = ps"
proof -
  assume "whole w ps"
  then have "read_frames (w @ []) = ps @ read_frames []" unfolding whole_def by blast
  moreover have "read_frames [] = []"
    by (subst read_frames.simps) (simp add: read_frame_def readexactly_def)
  ultimately show ?thesis by simp
qed

definition good_masks :: "(nat \<Rightarrow> step_env) \<Rightarrow> bool" where
  "good_masks env \<longleftrightarrow> (\<forall>i. length (step_mask (env i)) = 4)"

definition small_payloads :: "call list \<Rightarrow> bool" where
  "small_payloads cs \<longleftrightarrow> (\<forall>c\<in>set cs. \<forall>p. encode_call c = Inr p \<longrightarrow> length p \<le> MAX_FRAME)"

lemma stream_write_whole:
  assumes "whole (written st) ps" and "length (step_mask e) = 4" and "length p \<le> MAX_FRAME"
    and "stream_write e p st = (st', r)"
  shows "whole (written st') (ps @ [(2, p)]) \<or> r \<noteq> None \<and> whole (written st') ps"
proof (cases "alive st \<and> has_writer st")
  case True
  have "length p < 2 ^ 64" using assms(3) by (simp add: MAX_FRAME_def)
  from frame_short_enough [OF this] obtain b where b: "frame (step_mask e) 0x2 p = Inr b" by blast
  have "whole (written st @ b) (ps @ [(2, p)])"
    by (rule whole_snoc [OF assms(1) b assms(2) _ assms(3)]) simp
  with True b assms(4) show ?thesis by (auto simp: stream_write_def Let_def split: if_splits)
next
  case False
  with assms(1,4) show ?thesis by (auto simp: stream_write_def split: if_splits)
qed

lemma written_slot [simp]: "written (stream_slot e c st) = written st"
  by (cases c) (simp_all add: stream_slot_def)

lemma stream_call_whole:
  assumes "whole (written st) ps" and "good_masks env" and "small_payloads [c]"
    and "send (stream_sink env) c st = (st', r)"
  shows "(\<exists>p. encode_call c = Inr p \<and> whole (written st') (ps @ [(2, p)])) \<or>
         r \<noteq> None \<and> whole (written st') ps"
proof (cases "encode_call c")
  case (Inl x)
  with assms(1,4) show ?thesis by (auto simp: stream_sink_def stream_call_def Let_def)
next
  case (Inr p)
  let ?st1 = "(stream_slot (env (drawn st)) c st)\<lparr>drawn := Suc (drawn st)\<rparr>"
  have "stream_write (env (drawn st)) p ?st1 = (st', r)"
    using assms(4) Inr by (simp add: stream_sink_def stream_call_def Let_def)
  moreover have "whole (written ?st1) ps" using assms(1) by simp
  ultimately show ?thesis
    using stream_write_whole [of ?st1 ps "env (drawn st)" p st' r] assms(2,3) Inr
    by (auto simp: good_masks_def small_payloads_def)
qed

lemma stream_all_whole:
  assumes "whole (written st) ps" and "good_masks env" and "small_payloads cs"
    and "send_all (stream_sink env) cs st = (st', r)"
  shows "\<exists>n qs. n \<le> length cs \<and> (r = None \<longrightarrow> n = length cs) \<and>
           map encode_call (take n cs) = map Inr qs \<and>
           whole (written st') (ps @ map (Pair 2) qs)"
  using assms
proof (induction cs arbitrary: st ps)
  case Nil
  then show ?case by (intro exI [of _ 0] exI [of _ "[]"]) simp
next
  case (Cons c cs)
  obtain st1 r1 where c: "send (stream_sink env) c st = (st1, r1)" by fastforce
  have small: "small_payloads [c]" "small_payloads cs"
    using Cons.prems(3) by (simp_all add: small_payloads_def)
  note one = stream_call_whole [OF Cons.prems(1,2) small(1) c]
  show ?case
  proof (cases r1)
    case None
    with one obtain p where p: "encode_call c = Inr p" and w: "whole (written st1) (ps @ [(2, p)])"
      by blast
    have "send_all (stream_sink env) cs st1 = (st', r)" using Cons.prems(4) c None by simp
    from Cons.IH [OF w Cons.prems(2) small(2) this] obtain n qs where
      "n \<le> length cs" "r = None \<longrightarrow> n = length cs" "map encode_call (take n cs) = map Inr qs"
      "whole (written st') ((ps @ [(2, p)]) @ map (Pair 2) qs)" by blast
    with p show ?thesis by (intro exI [of _ "Suc n"] exI [of _ "p # qs"]) simp
  next
    case (Some x)
    with Cons.prems(4) c have "st' = st1" "r = Some x" by simp_all
    note ended = this
    from one show ?thesis
    proof (elim disjE exE conjE)
      fix p
      assume "encode_call c = Inr p" and "whole (written st1) (ps @ [(2, p)])"
      with ended show ?thesis by (intro exI [of _ "Suc 0"] exI [of _ "[p]"]) simp
    next
      assume "whole (written st1) ps"
      with ended show ?thesis by (intro exI [of _ 0] exI [of _ "[]"]) simp
    qed
  qed
qed

section \<open>A failed stream stays silent\<close>

lemma dead_stream:
  assumes "\<not> alive st" and "send (stream_sink env) c st = (st', r)"
  shows "r \<noteq> None \<and> \<not> alive st' \<and> written st' = written st"
proof -
  have "\<not> alive (stream_slot e c st)" for e using assms(1) by (cases c) (simp_all add: stream_slot_def)
  with assms(2) show ?thesis
    by (auto simp: stream_sink_def stream_call_def Let_def stream_write_def split: sum.splits)
qed

lemma failed_write_kills: "stream_write e p st = (st', Some x) \<Longrightarrow> \<not> alive st' \<or> \<not> has_writer st'"
  by (auto simp: stream_write_def Let_def split: if_splits sum.splits)

text \<open>The read loop always ends, with the stream dead and a waiting flush woken.\<close>

lemma read_loop_ends:
  "\<not> alive (read_loop env s st) \<and>
   (\<exists>n. pongs (read_loop env s st) = pongs st @ replicate n True @ [False])"
proof (induction env s st rule: read_loop.induct)
  case (1 env s st)
  have "\<not> alive (stream_ended st) \<and> pongs (stream_ended st) = pongs st @ replicate 0 True @ [False]"
    by (simp add: stream_ended_def)
  note ended = this
  show ?case
  proof (cases "read_frame s")
    case (Inl e)
    with ended show ?thesis by (subst (1 2) read_loop.simps) (auto intro: exI [of _ 0])
  next
    case (Inr f)
    obtain opc p s' where f: "f = (opc, p, s')" by (metis prod_cases3)
    note IH = "1.IH" [OF Inr [unfolded f]]
    note rl = read_loop.simps [of env s st]
    consider (ping) b where "opc = 0x9" "frame (step_mask (env (drawn st))) 0xA p = Inr b"
      | (badping) e where "opc = 0x9" "frame (step_mask (env (drawn st))) 0xA p = Inl e"
      | (close) "opc = 0x8" | (pong) "opc = 0x2" "take 1 p = [0xFF]"
      | (other) "opc \<noteq> 0x9" "opc \<noteq> 0x8" "\<not> (opc = 0x2 \<and> take 1 p = [0xFF])"
      by (cases "frame (step_mask (env (drawn st))) 0xA p") auto
    then show ?thesis
    proof cases
      case ping
      with IH(1) Inr f show ?thesis by (simp add: rl)
    next
      case pong
      let ?st1 = "st\<lparr>pongs := pongs st @ [True]\<rparr>"
      from IH(2) pong have "\<not> alive (read_loop env s' ?st1) \<and>
          (\<exists>n. pongs (read_loop env s' ?st1) = pongs ?st1 @ replicate n True @ [False])"
        by simp
      then obtain n where "\<not> alive (read_loop env s' ?st1)"
        "pongs (read_loop env s' ?st1) = pongs st @ replicate (Suc n) True @ [False]"
        by auto
      moreover have "read_loop env s st = read_loop env s' ?st1" using pong Inr f by (simp add: rl)
      ultimately show ?thesis by (metis append_assoc)
    next
      case other
      have "read_loop env s st = read_loop env s' st"
        using other Inr f by (simp only: rl sum.case prod.case if_False)
      with IH(3) [OF refl refl other] show ?thesis by simp
    qed (use ended Inr f in \<open>auto simp: rl intro: exI [of _ 0]\<close>)
  qed
qed

section \<open>Pacing\<close>

text \<open>
  A run of \<open>_slot\<close> calls on one attribute: the time at which each goes on.
  \<open>sleeps_ok\<close> is what \<open>asyncio.sleep\<close> promises: not to wake before the delay
  asked for has passed.
\<close>

fun slot_starts :: "rat \<Rightarrow> (rat \<times> rat \<times> nat) list \<Rightarrow> rat list" where
  "slot_starts free [] = []"
| "slot_starts free ((now, woke, n) # xs) =
     fst (slot now woke free n) # slot_starts (snd (slot now woke free n)) xs"

fun sleeps_ok :: "rat \<Rightarrow> (rat \<times> rat \<times> nat) list \<Rightarrow> bool" where
  "sleeps_ok free [] = True"
| "sleeps_ok free ((now, woke, n) # xs) =
     ((free > now \<longrightarrow> woke \<ge> free) \<and> sleeps_ok (snd (slot now woke free n)) xs)"

lemma slot_start_free:
  "(free > now \<longrightarrow> woke \<ge> free) \<Longrightarrow>
     fst (slot now woke free n) \<ge> free \<and>
     snd (slot now woke free n) = fst (slot now woke free n) + of_nat n * MOUSE_REPORT_INTERVAL"
  by (auto simp: slot_def Let_def max_def)

lemma slot_starts_after:
  "sleeps_ok free xs \<Longrightarrow> j < length xs \<Longrightarrow>
     slot_starts free xs ! j \<ge> free + of_nat (\<Sum>i<j. snd (snd (xs ! i))) * MOUSE_REPORT_INTERVAL"
proof (induction xs arbitrary: free j)
  case (Cons x xs)
  obtain now woke n where x: "x = (now, woke, n)" by (metis prod_cases3)
  let ?s = "slot now woke free n"
  have s: "fst ?s \<ge> free" "snd ?s = fst ?s + of_nat n * MOUSE_REPORT_INTERVAL"
    using Cons.prems(1) x slot_start_free by auto
  show ?case
  proof (cases j)
    case 0
    with s x show ?thesis by simp
  next
    case (Suc m)
    have "slot_starts (snd ?s) xs ! m \<ge>
        snd ?s + of_nat (\<Sum>i<m. snd (snd (xs ! i))) * MOUSE_REPORT_INTERVAL"
      using Cons.IH [of "snd ?s" m] Cons.prems x Suc by simp
    with s x Suc show ?thesis
      by (simp add: sum.lessThan_Suc_shift algebra_simps del: sum.lessThan_Suc)
  qed
qed simp

text \<open>
  A frame of at most \<open>MAX_FRAME\<close> bytes can be built and the read loop's decoder reads
  back its opcode and payload and leaves the following bytes.
\<close>

lemma frame_roundtrip:
  assumes "length msk = 4" and "opcode < 16" and "length payload \<le> MAX_FRAME"
  shows "\<exists>b. frame msk opcode payload = Inr b \<and> read_frame (b @ rest) = Inr (opcode, payload, rest)"
proof -
  have "length payload < 2 ^ 64"
    using assms(3) by (simp add: MAX_FRAME_def)
  then obtain b where b: "frame msk opcode payload = Inr b"
    using frame_short_enough by blast
  with read_frame_frame [OF b assms] show ?thesis by blast
qed

lemma frame_roundtrip_witness:
  "\<exists>b. frame [1, 2, 3, 4] 2 (replicate 300 7) = Inr b \<and> read_frame (b @ [9]) = Inr (2, replicate 300 7, [9])"
  by (rule frame_roundtrip) (simp_all add: MAX_FRAME_def)

definition opened_stream :: stream where
  "opened_stream = new_stream\<lparr>alive := True, has_writer := True\<rparr>"



definition closed :: "stream \<Rightarrow> bool" where
  "closed st \<longleftrightarrow> \<not> alive st \<or> \<not> has_writer st"

lemma closed_call:
  assumes "closed st" and "send (stream_sink env) c st = (st', r)"
  shows "r \<noteq> None \<and> closed st' \<and> written st' = written st"
  using assms
  by (auto simp: closed_def stream_sink_def stream_call_def stream_write_def stream_slot_def Let_def
      split: sum.splits call.splits)

text \<open>
  After a failed write the stream writes nothing any more and every later event raises.
\<close>

lemma failed_stream_silent:
  assumes "stream_write e p st = (st1, Some x)"
    and "send_all (stream_sink env) cs st1 = (st2, r)"
  shows "written st2 = written st1 \<and> (cs \<noteq> [] \<longrightarrow> r \<noteq> None)"
proof -
  have "closed st1"
    using failed_write_kills [OF assms(1)] by (simp add: closed_def)
  with assms(2) show ?thesis
  proof (cases cs)
    case (Cons c cs')
    then obtain st' y where s: "send (stream_sink env) c st1 = (st', y)" by fastforce
    with closed_call [OF \<open>closed st1\<close> s] Cons assms(2) show ?thesis by auto
  qed simp
qed

lemma failed_stream_silent_witness:
  "written (fst (send_all (stream_sink (\<lambda>_. \<lparr>now_at = 0, woke_at = 0, drained = True,
     step_mask = [1, 2, 3, 4]\<rparr>)) [CWheel 1 0] (opened_stream\<lparr>alive := False, written := [130, 129, 1, 2, 3, 4, 8]\<rparr>)))
   = [130, 129, 1, 2, 3, 4, 8]"
proof -
  have a: "stream_write \<lparr>now_at = 0, woke_at = 0, drained = False, step_mask = [1, 2, 3, 4]\<rparr> [9] opened_stream
    = (opened_stream\<lparr>alive := False, written := [130, 129, 1, 2, 3, 4, 8]\<rparr>, Some BackendError)"
    by code_simp
  from failed_stream_silent [OF a prod.collapse [symmetric]] show ?thesis
    by (simp del: send_all.simps)
qed

text \<open>
  C14. The read loop ends on every input; then the stream is dead and a waiting flush is
  woken with the failure token, after the pongs.
\<close>

theorem read_loop_wakes:
  "\<not> alive (read_loop env s st) \<and>
   (\<exists>n. pongs (read_loop env s st) = pongs st @ replicate n True @ [False])"
  by (rule read_loop_ends)

lemma slot_starts_between:
  "sleeps_ok free xs \<Longrightarrow> i < j \<Longrightarrow> j < length xs \<Longrightarrow>
     slot_starts free xs ! j \<ge> slot_starts free xs ! i
       + of_nat (\<Sum>k=i..<j. snd (snd (xs ! k))) * MOUSE_REPORT_INTERVAL"
proof (induction xs arbitrary: free i j)
  case (Cons x xs)
  obtain now woke n where x: "x = (now, woke, n)" by (cases x)
  let ?f = "snd (slot now woke free n)"
  have s: "free > now \<longrightarrow> woke \<ge> free" "sleeps_ok ?f xs"
    using Cons.prems(1) x by simp_all
  obtain j' where j: "j = Suc j'" using Cons.prems(2) by (cases j) auto
  show ?case
  proof (cases i)
    case 0
    have "(\<Sum>k=0..<Suc j'. snd (snd ((x # xs) ! k))) = n + (\<Sum>k<j'. snd (snd (xs ! k)))"
      by (simp add: sum.atLeast0_lessThan_Suc_shift x lessThan_atLeast0 del: sum.op_ivl_Suc)
    with slot_starts_after [OF s(2), of j'] slot_start_free [OF s(1), of n] Cons.prems(3) x j 0
    show ?thesis by (simp add: algebra_simps del: sum.op_ivl_Suc)
  next
    case (Suc i')
    have "(\<Sum>k=Suc i'..<Suc j'. snd (snd ((x # xs) ! k))) = (\<Sum>k=i'..<j'. snd (snd (xs ! k)))"
      by (simp add: sum.shift_bounds_Suc_ivl del: sum.op_ivl_Suc)
    with Cons.IH [OF s(2), of i' j'] Cons.prems(2, 3) x j Suc show ?thesis
      by (simp del: sum.op_ivl_Suc)
  qed
qed simp

text \<open>
  Two mouse or keyboard events start at least as far apart as the reports between them
  need at one report per 4.2 ms.
\<close>

lemma reports_paced:
  assumes "sleeps_ok free xs" and "i < j" and "j < length xs"
  shows "slot_starts free xs ! j \<ge> slot_starts free xs ! i
       + of_nat (\<Sum>k=i..<j. snd (snd (xs ! k))) * MOUSE_REPORT_INTERVAL"
  using assms by (rule slot_starts_between)

lemma reports_paced_witness:
  "slot_starts 0 [(0, 0, 3), (1 / 1000, 13 / 1000, 1)] ! 1
     \<ge> slot_starts 0 [(0, 0, 3), (1 / 1000, 13 / 1000, 1)] ! 0 + 3 * MOUSE_REPORT_INTERVAL"
proof -
  have "sleeps_ok 0 [(0, 0, 3), (1 / 1000, 13 / 1000, 1)]"
    by (simp add: slot_def MOUSE_REPORT_INTERVAL_def)
  from reports_paced [OF this, of 0 1] show ?thesis by simp
qed

end
