(* ===== verification/Hid_Http.thy ===== *)
theory Hid_Http
  imports Hid_Sink
begin

text \<open>
  \<open>Kvmd.request\<close> of \<open>python/rkmoon_hid/backend.py\<close>: a bounded HTTP/1.1 client
  on a private Unix socket.  \<open>exchange\<close> is the socket: it takes the bytes of the
  request and returns the bytes the peer sends before it closes, \<open>None\<close> when the
  connection fails or the timeout passes before the reply is complete.  \<open>loads\<close>
  is \<open>json.loads\<close>; every lemma holds for any decoder.  Bytes are characters here,
  since the protocol is text.  The exceptions of the stream reader are all caught by
  \<open>request\<close>: \<open>ValueError\<close> also stands for a separator beyond the reader's limit.
\<close>

section \<open>String methods\<close>

definition crlf :: string where
  "crlf = [CHR 0x0D, CHR 0x0A]"

definition lf :: char where
  "lf = CHR 0x0A"

text \<open>\<open>s.split("\r\n")\<close>\<close>

fun split_crlf :: "string \<Rightarrow> string list" where
  "split_crlf [] = [[]]"
| "split_crlf (c # cs) =
     (if c = CHR 0x0D then
        (case cs of
           d # ds \<Rightarrow> if d = CHR 0x0A then [] # split_crlf ds
                     else (c # hd (split_crlf cs)) # tl (split_crlf cs)
         | [] \<Rightarrow> [[c]])
      else (c # hd (split_crlf cs)) # tl (split_crlf cs))"

definition is_space :: "char \<Rightarrow> bool" where
  "is_space c \<longleftrightarrow> c \<in> set [CHR '' '', CHR 0x09, CHR 0x0A, CHR 0x0B, CHR 0x0C, CHR 0x0D]"

text \<open>\<open>str\<close> also counts the ASCII separators 0x1C..0x1F as white space.\<close>

definition is_str_space :: "char \<Rightarrow> bool" where
  "is_str_space c \<longleftrightarrow>
     is_space c \<or> c \<in> set [CHR 0x1C, CHR 0x1D, CHR 0x1E, CHR 0x1F]"

definition strip :: "(char \<Rightarrow> bool) \<Rightarrow> string \<Rightarrow> string" where
  "strip w s = rev (dropWhile w (rev (dropWhile w s)))"

fun words_acc :: "(char \<Rightarrow> bool) \<Rightarrow> string \<Rightarrow> string \<Rightarrow> string list" where
  "words_acc w acc [] = (if acc = [] then [] else [rev acc])"
| "words_acc w acc (c # cs) =
     (if w c then (if acc = [] then words_acc w [] cs else rev acc # words_acc w [] cs)
      else words_acc w (c # acc) cs)"

text \<open>\<open>s.split()\<close> of a \<open>str\<close> and of \<open>bytes\<close>\<close>

definition words :: "string \<Rightarrow> string list" where
  "words s = words_acc is_str_space [] s"

definition byte_words :: "string \<Rightarrow> string list" where
  "byte_words s = words_acc is_space [] s"

definition lower_char :: "char \<Rightarrow> char" where
  "lower_char c =
     (let n = of_char c :: nat in if 65 \<le> n \<and> n \<le> 90 then char_of (n + 32) else c)"

definition lower :: "string \<Rightarrow> string" where
  "lower = map lower_char"

definition digit_of :: "char \<Rightarrow> int option" where
  "digit_of c =
     (let n = of_char c :: int in
      if 48 \<le> n \<and> n \<le> 57 then Some (n - 48)
      else if 97 \<le> n \<and> n \<le> 102 then Some (n - 87)
      else if 65 \<le> n \<and> n \<le> 70 then Some (n - 55)
      else None)"

text \<open>Digits with single underscores between them.\<close>

fun digits_value :: "int \<Rightarrow> bool \<Rightarrow> int \<Rightarrow> string \<Rightarrow> int option" where
  "digits_value b ok acc [] = (if ok then Some acc else None)"
| "digits_value b ok acc (c # cs) =
     (if c = CHR ''_'' then (if ok then digits_value b False acc cs else None)
      else
        (case digit_of c of
           None \<Rightarrow> None
         | Some d \<Rightarrow> if d < b then digits_value b True (acc * b + d) cs else None))"

definition unsigned_value :: "int \<Rightarrow> string \<Rightarrow> int option" where
  "unsigned_value b s =
     (if b = 16 \<and> (take 2 s = ''0x'' \<or> take 2 s = ''0X'') then
        (let r = drop 2 s in digits_value b False 0 (if take 1 r = ''_'' then tl r else r))
      else digits_value b False 0 s)"

text \<open>\<open>int(s, base)\<close> after stripping.\<close>

definition py_int :: "int \<Rightarrow> string \<Rightarrow> int option" where
  "py_int b s =
     (case s of
        [] \<Rightarrow> None
      | c # cs \<Rightarrow>
          if c = CHR ''-'' then map_option uminus (unsigned_value b cs)
          else if c = CHR ''+'' then unsigned_value b cs
          else unsigned_value b s)"

section \<open>The reader\<close>

definition READ_LIMIT :: nat where
  "READ_LIMIT = 16384"

definition read_until :: "string \<Rightarrow> string \<Rightarrow> (string \<times> string) res" where
  "read_until sep s =
     (case find_sub sep s of
        None \<Rightarrow> Inl IncompleteRead
      | Some i \<Rightarrow>
          if i > READ_LIMIT then Inl ValueError
          else Inr (take (i + length sep) s, drop (i + length sep) s))"

text \<open>At the end of the data \<open>readline\<close> returns what there is.\<close>

definition read_line :: "string \<Rightarrow> (string \<times> string) res" where
  "read_line s =
     (case find_sub [lf] s of
        None \<Rightarrow> if length s > READ_LIMIT then Inl ValueError else Inr (s, [])
      | Some i \<Rightarrow>
          if i > READ_LIMIT then Inl ValueError else Inr (take (i + 1) s, drop (i + 1) s))"

definition read_exactly :: "nat \<Rightarrow> string \<Rightarrow> (string \<times> string) res" where
  "read_exactly n s = (if length s < n then Inl IncompleteRead else Inr (take n s, drop n s))"

section \<open>The reply\<close>

text \<open>\<open>line.split(":",1)\<close> with two targets: no colon is an error.\<close>

definition header_field :: "string \<Rightarrow> (string \<times> string) res" where
  "header_field line =
     (case find_sub '':'' line of
        None \<Rightarrow> Inl ValueError
      | Some i \<Rightarrow> Inr (lower (take i line), strip is_str_space (drop (i + 1) line)))"

text \<open>The newest field comes first, so \<open>map_of\<close> gives the last of equal names.\<close>

fun header_fields :: "string list \<Rightarrow> (string \<times> string) list \<Rightarrow> (string \<times> string) list res" where
  "header_fields [] flds = Inr flds"
| "header_fields (line # lines) flds =
     (if line = [] then header_fields lines flds
      else
        (case header_field line of
           Inl e \<Rightarrow> Inl e
         | Inr f \<Rightarrow> header_fields lines (f # flds)))"

definition chunk_size :: "string \<Rightarrow> int option" where
  "chunk_size line = py_int 16 (strip is_space (takeWhile (\<lambda>c. c \<noteq> CHR '';'') line))"

lemma read_line_shorter: "read_line s = Inr (line, s') \<Longrightarrow> length line + length s' = length s"
  by (auto simp: read_line_def dest!: find_sub_bound split: option.splits if_splits)

lemma read_exactly_shorter:
  "read_exactly n s = Inr (a, s') \<Longrightarrow> length a = n \<and> length s = n + length s'"
  by (auto simp: read_exactly_def split: if_splits)

lemma chunk_size_Nil [simp]: "chunk_size [] = None"
  by (simp add: chunk_size_def strip_def py_int_def)

function read_chunked :: "string \<Rightarrow> string \<Rightarrow> string res" where
  "read_chunked body s =
     (case read_line s of
        Inl e \<Rightarrow> Inl e
      | Inr (line, s1) \<Rightarrow>
          (case chunk_size line of
             None \<Rightarrow> Inl ValueError
           | Some n \<Rightarrow>
               if n < 0 \<or> int (length body) + n > 16384 then Inl BackendError
               else if n = 0 then Inr body
               else
                 (case read_exactly (nat n) s1 of
                    Inl e \<Rightarrow> Inl e
                  | Inr (data, s2) \<Rightarrow>
                      (case read_exactly 2 s2 of
                         Inl e \<Rightarrow> Inl e
                       | Inr (t, s3) \<Rightarrow>
                           if t \<noteq> crlf then Inl BackendError
                           else read_chunked (body @ data) s3))))"
  by pat_completeness auto
termination
  by (relation "measure (\<lambda>(body, s). length s)")
     (auto dest!: read_line_shorter read_exactly_shorter)

declare read_chunked.simps [simp del]

definition read_body :: "(string \<times> string) list \<Rightarrow> string \<Rightarrow> string res" where
  "read_body flds s =
     (case map_of flds ''transfer-encoding'' of
        Some te \<Rightarrow>
          if lower te \<noteq> ''chunked'' then Inl BackendError else read_chunked [] s
      | None \<Rightarrow>
          (let cl = (case map_of flds ''content-length'' of None \<Rightarrow> ''-1'' | Some v \<Rightarrow> v) in
           case py_int 10 (strip is_str_space cl) of
             None \<Rightarrow> Inl ValueError
           | Some n \<Rightarrow>
               if \<not> (0 \<le> n \<and> n \<le> 16384) then Inl BackendError
               else
                 (case read_exactly (nat n) s of
                    Inl e \<Rightarrow> Inl e
                  | Inr (body, _) \<Rightarrow> Inr body)))"

text \<open>From the received bytes to the body, head and status included.\<close>

definition reply_body :: "string \<Rightarrow> string res" where
  "reply_body s =
     (case read_until (crlf @ crlf) s of
        Inl e \<Rightarrow> Inl e
      | Inr (head, s1) \<Rightarrow>
          if list_ex (\<lambda>c. of_char c \<ge> (128 :: nat)) head then Inl ValueError
          else
            (let lines = split_crlf head in
             case header_fields (tl lines) [] of
               Inl e \<Rightarrow> Inl e
             | Inr flds \<Rightarrow>
                 (let status = words (hd lines) in
                  if length status < 2 \<or> status ! 1 \<noteq> ''200'' then Inl BackendError
                  else read_body flds s1)))"

definition decode_reply :: "(string \<Rightarrow> json res) \<Rightarrow> string \<Rightarrow> json res" where
  "decode_reply loads s =
     (case reply_body s of
        Inl e \<Rightarrow> Inl e
      | Inr body \<Rightarrow>
          (case loads body of
             Inl e \<Rightarrow> Inl e
           | Inr result \<Rightarrow>
               (case py_get result ''ok'' JNull of
                  Inl e \<Rightarrow> Inl e
                | Inr ok \<Rightarrow>
                    if ok \<noteq> JBool True then Inl BackendError
                    else py_get result ''result'' (JObj []))))"

section \<open>The request\<close>

text \<open>\<open>urllib.parse.urlencode\<close> on a dictionary of strings.\<close>

definition unreserved :: "char \<Rightarrow> bool" where
  "unreserved c \<longleftrightarrow>
     (let n = of_char c :: nat in
      48 \<le> n \<and> n \<le> 57 \<or> 65 \<le> n \<and> n \<le> 90 \<or> 97 \<le> n \<and> n \<le> 122 \<or>
      c \<in> set ''_.-~'')"

definition hex_digit :: "nat \<Rightarrow> char" where
  "hex_digit d = char_of (if d < 10 then 48 + d else 55 + d)"

definition quote_char :: "char \<Rightarrow> string" where
  "quote_char c =
     (if unreserved c then [c]
      else if c = CHR '' '' then ''+''
      else (let n = of_char c :: nat in [CHR ''%'', hex_digit (n div 16), hex_digit (n mod 16)]))"

definition quote_plus :: "string \<Rightarrow> string" where
  "quote_plus s = concat (map quote_char s)"

fun join :: "string \<Rightarrow> string list \<Rightarrow> string" where
  "join sep [] = []"
| "join sep [x] = x"
| "join sep (x # xs) = x @ sep @ join sep xs"

definition urlencode :: "(string \<times> string) list \<Rightarrow> string" where
  "urlencode params = join ''&'' (map (\<lambda>(k, v). quote_plus k @ ''='' @ quote_plus v) params)"

text \<open>The constructor's check of the authentication headers.\<close>

definition header_names :: "string list" where
  "header_names = [''X-KVMD-User'', ''X-KVMD-Passwd'', ''Authorization'']"

fun checked_header :: "string \<times> json \<Rightarrow> (string \<times> string) res" where
  "checked_header (key, JStr v) =
     (if key \<in> set header_names \<and> CHR 0x0D \<notin> set v \<and> CHR 0x0A \<notin> set v then Inr (key, v)
      else Inl BackendError)"
| "checked_header (key, _) = Inl BackendError"

fun checked_headers :: "(string \<times> json) list \<Rightarrow> (string \<times> string) list res" where
  "checked_headers [] = Inr []"
| "checked_headers (h # hs) =
     (case checked_header h of
        Inl e \<Rightarrow> Inl e
      | Inr kv \<Rightarrow>
          (case checked_headers hs of Inl e \<Rightarrow> Inl e | Inr kvs \<Rightarrow> Inr (kv # kvs)))"

definition request_lines ::
  "(string \<times> string) list \<Rightarrow> string \<Rightarrow> string \<Rightarrow> (string \<times> string) list \<Rightarrow> string list" where
  "request_lines headers verb path params =
     (let target = path @ (if params \<noteq> [] then ''?'' @ urlencode params else []) in
      (verb @ '' '' @ target @ '' HTTP/1.1'')
      # map (\<lambda>(k, v). k @ '': '' @ v)
          ([(''Host'', ''localhost''), (''Connection'', ''close''), (''Content-Length'', ''0'')]
           @ headers))"

definition render_request ::
  "(string \<times> string) list \<Rightarrow> string \<Rightarrow> string \<Rightarrow> (string \<times> string) list \<Rightarrow> string" where
  "render_request headers verb path params =
     concat (map (\<lambda>l. l @ crlf) (request_lines headers verb path params)) @ crlf"

record 's kvmd =
  headers :: "(string \<times> string) list"
  exchange :: "string \<Rightarrow> 's \<Rightarrow> string option \<times> 's"
  loads :: "string \<Rightarrow> json res"

text \<open>
  \<open>request\<close>: whatever goes wrong inside is reported as one \<open>BackendError\<close> that
  carries nothing of the event.
\<close>

definition request ::
  "'s kvmd \<Rightarrow> string \<Rightarrow> string \<Rightarrow> (string \<times> string) list \<Rightarrow> 's \<Rightarrow> 's \<times> json res" where
  "request kv verb path params s =
     (let raw = render_request (headers kv) verb path params in
      if list_ex (\<lambda>c. of_char c \<ge> (128 :: nat)) raw then (s, Inl BackendError)
      else
        (case exchange kv raw s of
           (None, s') \<Rightarrow> (s', Inl BackendError)
         | (Some reply, s') \<Rightarrow>
             (s', case decode_reply (loads kv) reply of
                    Inl _ \<Rightarrow> Inl BackendError
                  | Inr j \<Rightarrow> Inr j)))"

end
