(* ===== verification/Hid_Http_Laws.thy ===== *)
theory Hid_Http_Laws
  imports Hid_Http
begin

text \<open>
  What \<open>Kvmd.request\<close> guarantees: the reply it accepts is bounded, a well-formed
  reply is read back whole in either transfer encoding, every failure is the one
  opaque \<open>BackendError\<close>, and neither a parameter nor an accepted header can add a
  line to the request.
\<close>

section \<open>Bounds\<close>

lemma read_chunked_step:
  "read_chunked body s = Inr b \<Longrightarrow>
   b = body \<or>
   (\<exists>line s1 n data s2 s3. read_line s = Inr (line, s1) \<and> 0 \<le> n \<and> int (length body) + n \<le> 16384
      \<and> read_exactly (nat n) s1 = Inr (data, s2) \<and> read_exactly 2 s2 = Inr (crlf, s3)
      \<and> read_chunked (body @ data) s3 = Inr b)"
  by (subst (asm) read_chunked.simps)
     (auto simp: not_less split: sum.splits option.splits prod.splits if_splits)

lemma read_chunked_bounded:
  "read_chunked body s = Inr b \<Longrightarrow> length body \<le> 16384 \<Longrightarrow> length b \<le> 16384"
proof (induction "length s" arbitrary: body s rule: less_induct)
  case less
  from read_chunked_step [OF less(2)] show ?case
  proof (elim disjE exE conjE)
    fix line s1 n data s2 s3
    assume r: "read_line s = Inr (line, s1)" "read_exactly (nat n) s1 = Inr (data, s2)"
      "read_exactly 2 s2 = Inr (crlf, s3)" "read_chunked (body @ data) s3 = Inr b"
      and n: "0 \<le> n" "int (length body) + n \<le> 16384"
    have l: "length s3 < length s"
      using read_line_shorter [OF r(1)] read_exactly_shorter [OF r(2)]
        read_exactly_shorter [OF r(3)] by simp
    have "int (length (body @ data)) \<le> 16384"
      using read_exactly_shorter [OF r(2)] n by simp
    then have "length (body @ data) \<le> 16384" by linarith
    with l show "length b \<le> 16384" using less(1) r(4) by blast
  qed (use less(3) in simp)
qed

lemma read_body_bounded: "read_body flds s = Inr b \<Longrightarrow> length b \<le> 16384"
  using read_chunked_bounded [of "[]"]
  by (auto simp: read_body_def Let_def dest!: read_exactly_shorter
      split: sum.splits option.splits if_splits)

lemma reply_body_bounded: "reply_body s = Inr b \<Longrightarrow> length b \<le> 16384"
  by (auto simp: reply_body_def Let_def dest: read_body_bounded
      split: sum.splits if_splits)

section \<open>Reading a well-formed reply\<close>

lemma find_sub_single: "c \<notin> set xs \<Longrightarrow> find_sub [c] (xs @ c # ys) = Some (length xs)"
  by (induction xs) auto

lemma read_line_line:
  "lf \<notin> set xs \<Longrightarrow> length xs \<le> 16384 \<Longrightarrow>
   read_line (xs @ lf # ys) = Inr (xs @ [lf], ys)"
  by (simp add: read_line_def find_sub_single READ_LIMIT_def)

lemma read_exactly_append [simp]: "read_exactly (length a) (a @ r) = Inr (a, r)"
  by (simp add: read_exactly_def)

definition hex_low :: "nat \<Rightarrow> char" where
  "hex_low d = char_of (if d < 10 then 48 + d else 87 + d)"

fun hex_str :: "nat \<Rightarrow> string" where
  "hex_str n = (if n < 16 then [hex_low n] else hex_str (n div 16) @ [hex_low (n mod 16)])"

declare hex_str.simps [simp del]

definition hex_ok :: "nat \<Rightarrow> bool" where
  "hex_ok d \<longleftrightarrow>
     digit_of (hex_low d) = Some (int d) \<and> \<not> is_space (hex_low d) \<and>
     list_all (\<lambda>c. hex_low d \<noteq> c)
       [CHR ''_'', CHR ''-'', CHR ''+'', CHR ''x'', CHR ''X'', CHR '';'', lf]"

lemma hex_ok_all: "list_all hex_ok [0..<16]"
  by code_simp

lemma hex_low_ok: "d < 16 \<Longrightarrow> hex_ok d"
  using hex_ok_all by (simp add: list_all_iff)

lemma hex_low_props:
  "d < 16 \<Longrightarrow> digit_of (hex_low d) = Some (int d) \<and> \<not> is_space (hex_low d) \<and>
     hex_low d \<noteq> CHR ''_'' \<and> hex_low d \<noteq> CHR ''-'' \<and> hex_low d \<noteq> CHR ''+'' \<and>
     hex_low d \<noteq> CHR ''x'' \<and> hex_low d \<noteq> CHR ''X'' \<and> hex_low d \<noteq> CHR '';'' \<and> hex_low d \<noteq> lf"
  using hex_low_ok [of d] by (simp add: hex_ok_def)

lemma hex_str_chars: "c \<in> set (hex_str n) \<Longrightarrow> \<exists>d < 16. c = hex_low d"
proof (induction n rule: hex_str.induct)
  case (1 n)
  show ?case
  proof (cases "n < 16")
    case True
    with 1 show ?thesis by (subst (asm) (2) hex_str.simps) auto
  next
    case False
    with 1 show ?thesis
      by (subst (asm) (2) hex_str.simps) (auto intro: exI [of _ "n mod 16"])
  qed
qed

lemma hex_str_avoid:
  assumes "c \<in> set (hex_str n)"
  shows "c \<noteq> CHR ''_'' \<and> c \<noteq> CHR ''-'' \<and> c \<noteq> CHR ''+'' \<and> c \<noteq> CHR ''x''
     \<and> c \<noteq> CHR ''X'' \<and> c \<noteq> CHR '';'' \<and> c \<noteq> lf \<and> \<not> is_space c"
proof -
  obtain d where d: "d < 16" "c = hex_low d" using hex_str_chars [OF assms] by blast
  show ?thesis unfolding d(2) using hex_low_props [OF d(1)] by (intro conjI; elim conjE)
qed

lemma hex_str_no:
  "CHR ''_'' \<notin> set (hex_str n)" "CHR ''-'' \<notin> set (hex_str n)" "CHR ''+'' \<notin> set (hex_str n)"
  "CHR ''x'' \<notin> set (hex_str n)" "CHR ''X'' \<notin> set (hex_str n)" "CHR '';'' \<notin> set (hex_str n)"
  "lf \<notin> set (hex_str n)"
  using hex_str_avoid by blast+

lemma hex_str_solid: "\<forall>c \<in> set (hex_str n). \<not> is_space c"
  using hex_str_avoid by blast

lemma hex_str_ne [simp]: "hex_str n \<noteq> []"
  by (subst hex_str.simps) simp

lemma hex_str_length: "length (hex_str n) \<le> 1 + n div 16"
proof (induction n rule: hex_str.induct)
  case (1 n)
  show ?case
  proof (cases "n < 16")
    case True
    then show ?thesis by (subst hex_str.simps) simp
  next
    case False
    then have "1 \<le> n div 16" by simp
    then have "1 + (n div 16) div 16 \<le> n div 16" by (simp add: Suc_le_eq)
    then show ?thesis using False 1 by (subst hex_str.simps) simp
  qed
qed

lemma digits_value_hex:
  "digits_value 16 ok 0 (hex_str n @ r) = digits_value 16 True (int n) r"
proof (induction n arbitrary: r rule: hex_str.induct)
  case (1 n)
  show ?case
  proof (cases "n < 16")
    case True
    then show ?thesis using hex_low_props [of n] by (subst hex_str.simps) auto
  next
    case False
    have d: "n mod 16 < 16" by simp
    have "digits_value 16 ok 0 (hex_str n @ r)
        = digits_value 16 True (int (n div 16)) (hex_low (n mod 16) # r)"
      using False 1 by (subst hex_str.simps) simp
    also have "\<dots> = digits_value 16 True (int (n div 16) * 16 + int (n mod 16)) r"
      using hex_low_props [OF d] by auto
    also have "int (n div 16) * 16 + int (n mod 16) = int n"
      by (simp add: zdiv_int zmod_int)
    finally show ?thesis .
  qed
qed

lemma take2_hex: "take 2 (hex_str n) \<noteq> ''0x'' \<and> take 2 (hex_str n) \<noteq> ''0X''"
proof -
  have "set (take 2 (hex_str n)) \<subseteq> set (hex_str n)" by (rule set_take_subset)
  then have "CHR ''x'' \<notin> set (take 2 (hex_str n))" "CHR ''X'' \<notin> set (take 2 (hex_str n))"
    using hex_str_no by blast+
  then show ?thesis by auto
qed

lemma py_int_hex: "py_int 16 (hex_str n) = Some (int n)"
proof -
  have "hd (hex_str n) \<noteq> CHR ''-'' \<and> hd (hex_str n) \<noteq> CHR ''+''"
    using hex_str_avoid [OF hd_in_set [OF hex_str_ne], of n] by blast
  moreover have "unsigned_value 16 (hex_str n) = Some (int n)"
    using digits_value_hex [of False n "[]"] take2_hex [of n] by (simp add: unsigned_value_def)
  ultimately show ?thesis by (auto simp: py_int_def neq_Nil_conv split: list.splits)
qed

lemma strip_suffix:
  assumes "xs \<noteq> []" "\<forall>c \<in> set xs. \<not> w c" "\<forall>c \<in> set t. w c"
  shows "strip w (xs @ t) = xs"
proof -
  have "dropWhile w (xs @ t) = xs @ t"
    using assms(1,2) by (cases xs) auto
  moreover have "dropWhile w (rev t @ rev xs) = rev xs"
    using assms by (subst dropWhile_append2) (auto simp: dropWhile_eq_self_iff hd_rev)
  ultimately show ?thesis by (simp add: strip_def)
qed

lemma chunk_size_hex: "chunk_size (hex_str n @ crlf) = Some (int n)"
proof -
  have "takeWhile (\<lambda>c. c \<noteq> CHR '';'') (hex_str n @ crlf) = hex_str n @ crlf"
    unfolding takeWhile_eq_all_conv set_append using hex_str_no(6) [of n]
    by (auto simp: crlf_def)
  moreover have [simp]: "strip is_space (hex_str n @ crlf) = hex_str n"
    by (rule strip_suffix [OF hex_str_ne hex_str_solid]) (simp add: crlf_def is_space_def)
  ultimately show ?thesis unfolding chunk_size_def by (simp only: py_int_hex)
qed

fun chunked :: "string list \<Rightarrow> string" where
  "chunked [] = ''0'' @ crlf @ crlf"
| "chunked (c # cs) = hex_str (length c) @ crlf @ c @ crlf @ chunked cs"

lemma read_line_hex:
  assumes "n \<le> 16384"
  shows "read_line (hex_str n @ crlf @ r) = Inr (hex_str n @ crlf, r)"
proof -
  have "lf \<notin> set (hex_str n @ [CHR 0x0D])"
    using hex_str_no(7) by (simp add: lf_def)
  moreover have "length (hex_str n @ [CHR 0x0D]) \<le> 16384"
    using hex_str_length [of n] assms by simp
  ultimately show ?thesis
    using read_line_line [of "hex_str n @ [CHR 0x0D]" r] by (simp add: crlf_def lf_def)
qed

lemma hex_str_0: "hex_str 0 = ''0''"
  by code_simp

lemma read_chunked_chunked:
  "list_all (\<lambda>c. c \<noteq> []) cs \<Longrightarrow> length body + length (concat cs) \<le> 16384 \<Longrightarrow>
   read_chunked body (chunked cs) = Inr (body @ concat cs)"
proof (induction cs arbitrary: body)
  case Nil
  then show ?case
    using read_line_hex [of 0 crlf] chunk_size_hex [of 0]
    by (subst read_chunked.simps) (simp add: hex_str_0)
next
  case (Cons c cs)
  have t: "read_exactly 2 (crlf @ r) = Inr (crlf, r)" for r
    by (simp add: crlf_def read_exactly_def numeral_2_eq_2)
  have "read_line (chunked (c # cs)) = Inr (hex_str (length c) @ crlf, c @ crlf @ chunked cs)"
    using read_line_hex [of "length c"] Cons(3) by simp
  then show ?case
    using Cons t by (subst read_chunked.simps) (simp add: chunk_size_hex)
qed

section \<open>Lines\<close>

definition header_block :: "string list \<Rightarrow> string" where
  "header_block ls = concat (map (\<lambda>l. l @ crlf) ls) @ crlf"

definition plain_line :: "string \<Rightarrow> bool" where
  "plain_line l \<longleftrightarrow> l \<noteq> [] \<and> CHR 0x0D \<notin> set l"

lemma split_crlf_line:
  "CHR 0x0D \<notin> set l \<Longrightarrow> split_crlf (l @ crlf @ r) = l # split_crlf r"
  by (induction l) (auto simp: crlf_def)

lemma split_crlf_block:
  "list_all (\<lambda>l. CHR 0x0D \<notin> set l) ls \<Longrightarrow> split_crlf (header_block ls) = ls @ [[], []]"
proof (induction ls)
  case Nil
  then show ?case by (simp add: header_block_def crlf_def)
next
  case (Cons l ls)
  then show ?case by (simp add: header_block_def split_crlf_line)
qed

lemma find_sub_skip:
  "c \<notin> set l \<Longrightarrow> find_sub (c # p) (l @ s) = map_option ((+) (length l)) (find_sub (c # p) s)"
  by (induction l) (auto simp: option.map_comp o_def map_option_case split: option.splits)

lemma find_sub_block:
  assumes "list_all plain_line ls" "ls \<noteq> []"
  shows "find_sub (crlf @ crlf) (header_block ls @ r) = Some (length (header_block ls) - 4)"
  using assms
proof (induction ls)
  case (Cons l ls)
  have skip: "find_sub (crlf @ crlf) (l @ s) = map_option ((+) (length l)) (find_sub (crlf @ crlf) s)"
    for s using Cons(2) find_sub_skip [of "CHR 0x0D" l] by (simp add: crlf_def plain_line_def)
  show ?case
  proof (cases ls)
    case Nil
    then show ?thesis using skip [of "crlf @ crlf @ r"] by (simp add: header_block_def crlf_def)
  next
    case (Cons l2 ls2)
    obtain c cs where c: "l2 = c # cs" "c \<noteq> CHR 0x0D"
      using Cons \<open>list_all plain_line (l # ls)\<close> by (cases l2) (auto simp: plain_line_def)
    have e: "header_block (l # ls) @ r = l @ crlf @ (header_block ls @ r)"
      by (simp add: header_block_def)
    have f: "header_block ls @ r = c # tl (header_block ls @ r)"
      by (simp add: header_block_def Cons c(1))
    have "find_sub (crlf @ crlf) (crlf @ (header_block ls @ r))
        = map_option ((+) 2) (find_sub (crlf @ crlf) (header_block ls @ r))"
      using c(2) by (subst (1 2) f) (simp add: crlf_def option.map_comp o_def)
    moreover have "4 \<le> length (header_block ls)"
      by (simp add: header_block_def Cons crlf_def)
    ultimately show ?thesis
      using Cons.IH Cons.prems Cons skip unfolding e
      by (simp add: header_block_def) (simp add: crlf_def)
  qed
qed simp

definition ascii_text :: "string \<Rightarrow> bool" where
  "ascii_text s \<longleftrightarrow> \<not> list_ex (\<lambda>c. of_char c \<ge> (128 :: nat)) s"

lemma reply_body_block:
  assumes "list_all plain_line (st # hs)" "ascii_text (header_block (st # hs))"
    and "length (header_block (st # hs)) \<le> 16388"
    and "header_fields (hs @ [[], []]) [] = Inr flds"
    and "2 \<le> length (words st)" "words st ! 1 = ''200''"
  shows "reply_body (header_block (st # hs) @ payload) = read_body flds payload"
proof -
  have l4: "4 \<le> length (header_block (st # hs))"
    by (simp add: header_block_def crlf_def)
  have "read_until (crlf @ crlf) (header_block (st # hs) @ payload)
      = Inr (header_block (st # hs), payload)"
    using find_sub_block [OF assms(1), of payload] l4 assms(3)
    by (simp add: read_until_def READ_LIMIT_def) (simp add: crlf_def)
  moreover have "split_crlf (header_block (st # hs)) = st # hs @ [[], []]"
    using split_crlf_block [of "st # hs"] assms(1)
    by (simp add: plain_line_def list_all_iff)
  ultimately show ?thesis
    using assms by (simp add: reply_body_def ascii_text_def Let_def)
qed

section \<open>Both transfer encodings\<close>

definition dec_ok :: "nat \<Rightarrow> bool" where
  "dec_ok d \<longleftrightarrow>
     (let c = char_of (48 + d) in
      digit_of c = Some (int d) \<and> \<not> is_str_space c \<and> (of_char c :: nat) < 128 \<and>
      list_all (\<lambda>x. c \<noteq> x) [CHR ''_'', CHR ''-'', CHR ''+'', CHR 0x0D])"

lemma dec_ok_all: "list_all dec_ok [0..<10]"
  by code_simp

lemma dec_props:
  fixes d :: nat
  assumes "d < 10"
  shows "digit_of (char_of (48 + d)) = Some (int d) \<and> \<not> is_str_space (char_of (48 + d)) \<and>
     (of_char (char_of (48 + d) :: char) :: nat) < 128 \<and>
     char_of (48 + d) \<noteq> CHR ''_'' \<and> char_of (48 + d) \<noteq> CHR ''-'' \<and>
     char_of (48 + d) \<noteq> CHR ''+'' \<and> char_of (48 + d) \<noteq> CHR 0x0D"
proof -
  have "dec_ok d" using assms dec_ok_all by (simp add: list_all_iff)
  then show ?thesis by (simp add: dec_ok_def Let_def)
qed

lemma nat_str_avoid:
  assumes "c \<in> set (nat_str n)"
  shows "\<not> is_str_space c \<and> (of_char c :: nat) < 128 \<and> c \<noteq> CHR ''-'' \<and> c \<noteq> CHR ''+'' \<and> c \<noteq> CHR 0x0D"
proof -
  obtain d :: nat where d: "d < 10" "c = char_of (48 + d)" using nat_str_digits [OF assms] by blast
  show ?thesis unfolding d(2) using dec_props [OF d(1)] by (intro conjI; elim conjE)
qed

lemma nat_str_ne [simp]: "nat_str n \<noteq> []"
  by (subst nat_str.simps) simp

lemma digits_value_dec:
  "digits_value 10 ok 0 (nat_str n @ r) = digits_value 10 True (int n) r"
proof (induction n arbitrary: ok r rule: nat_str.induct)
  case (1 n)
  show ?case
  proof (cases "n < 10")
    case True
    then show ?thesis using dec_props [OF True] by (subst nat_str.simps) auto
  next
    case False
    have d: "n mod 10 < 10" by simp
    have "digits_value 10 ok 0 (nat_str n @ r)
        = digits_value 10 True (int (n div 10)) (char_of (48 + n mod 10) # r)"
      using False 1 by (subst nat_str.simps) simp
    also have "\<dots> = digits_value 10 True (int (n div 10) * 10 + int (n mod 10)) r"
      using dec_props [OF d] by auto
    also have "int (n div 10) * 10 + int (n mod 10) = int n"
      by (simp add: zdiv_int zmod_int)
    finally show ?thesis .
  qed
qed

lemma py_int_dec: "py_int 10 (nat_str n) = Some (int n)"
proof -
  have "hd (nat_str n) \<noteq> CHR ''-'' \<and> hd (nat_str n) \<noteq> CHR ''+''"
    using nat_str_avoid [OF hd_in_set [OF nat_str_ne], of n] by blast
  moreover have "unsigned_value 10 (nat_str n) = Some (int n)"
    using digits_value_dec [of False n "[]"] by (simp add: unsigned_value_def)
  ultimately show ?thesis by (auto simp: py_int_def neq_Nil_conv split: list.splits)
qed

lemma strip_solid:
  assumes "xs \<noteq> []" "\<forall>c \<in> set xs. \<not> w c" "\<forall>c \<in> set p. w c"
  shows "strip w (p @ xs) = xs"
proof -
  have "dropWhile w (p @ xs) = dropWhile w xs" using assms(3) by (simp add: dropWhile_append2)
  moreover have "dropWhile w xs = xs" using assms(1,2) by (cases xs) auto
  moreover have "strip w xs = xs" using strip_suffix [of xs w "[]"] assms by simp
  ultimately show ?thesis by (simp add: strip_def)
qed

lemma strip_nat_str: "strip is_str_space (nat_str n) = nat_str n"
  "strip is_str_space (CHR '' '' # nat_str n) = nat_str n"
  using strip_solid [of "nat_str n" is_str_space "[]"]
    strip_solid [of "nat_str n" is_str_space "'' ''"] nat_str_avoid
  by (auto simp: is_str_space_def is_space_def)

definition sized_reply :: "string \<Rightarrow> string" where
  "sized_reply body =
     header_block [''HTTP/1.1 200 OK'', ''Content-Length: '' @ nat_str (length body)] @ body"

definition chunked_reply :: "string list \<Rightarrow> string" where
  "chunked_reply cs =
     header_block [''HTTP/1.1 200 OK'', ''Transfer-Encoding: chunked''] @ chunked cs"

lemma words_200: "words ''HTTP/1.1 200 OK'' = [''HTTP/1.1'', ''200'', ''OK'']"
  by code_simp

lemma sized_field:
  "header_fields ([''Content-Length: '' @ nat_str n] @ [[], []]) []
   = Inr [(''content-length'', nat_str n)]"
proof -
  have "lower ''Content-Length'' = ''content-length''" by code_simp
  then show ?thesis by (simp add: header_field_def strip_nat_str)
qed

lemma chunked_field:
  "header_fields ([''Transfer-Encoding: chunked''] @ [[], []]) []
   = Inr [(''transfer-encoding'', ''chunked'')]"
  by code_simp

lemma nat_str_length: "length (nat_str n) \<le> 1 + n div 10"
proof (induction n rule: nat_str.induct)
  case (1 n)
  show ?case
  proof (cases "n < 10")
    case True
    then show ?thesis by (subst nat_str.simps) simp
  next
    case False
    then have "1 \<le> n div 10" by simp
    then have "1 + (n div 10) div 10 \<le> n div 10" by (simp add: Suc_le_eq)
    then show ?thesis using False 1 by (subst nat_str.simps) simp
  qed
qed

lemma sized_reply_body:
  assumes "length body \<le> 16384"
  shows "reply_body (sized_reply body) = Inr body"
proof -
  let ?hs = "[''Content-Length: '' @ nat_str (length body)]"
  have "list_all plain_line (''HTTP/1.1 200 OK'' # ?hs)"
    using nat_str_avoid by (auto simp: plain_line_def)
  moreover have "ascii_text (header_block (''HTTP/1.1 200 OK'' # ?hs))"
    using nat_str_avoid by (auto simp: ascii_text_def header_block_def crlf_def list_ex_iff not_le)
  moreover have "length (header_block (''HTTP/1.1 200 OK'' # ?hs)) \<le> 16388"
    using nat_str_length [of "length body"] assms by (simp add: header_block_def crlf_def)
  ultimately have "reply_body (sized_reply body)
      = read_body [(''content-length'', nat_str (length body))] body"
    unfolding sized_reply_def
    by (rule reply_body_block [OF _ _ _ sized_field]) (simp_all add: words_200)
  also have "\<dots> = Inr body"
    using assms read_exactly_append [of body "[]"]
    by (simp add: read_body_def strip_nat_str py_int_dec)
  finally show ?thesis .
qed

lemma chunked_reply_body:
  assumes "list_all (\<lambda>c. c \<noteq> []) cs" "length (concat cs) \<le> 16384"
  shows "reply_body (chunked_reply cs) = Inr (concat cs)"
proof -
  let ?ls = "[''HTTP/1.1 200 OK'', ''Transfer-Encoding: chunked'']"
  have "list_all plain_line ?ls" "ascii_text (header_block ?ls)"
    "length (header_block ?ls) \<le> 16388" "lower ''chunked'' = ''chunked''"
    by code_simp+
  then have "reply_body (chunked_reply cs)
      = read_body [(''transfer-encoding'', ''chunked'')] (chunked cs)"
    unfolding chunked_reply_def
    by (intro reply_body_block [OF _ _ _ chunked_field]) (simp_all add: words_200)
  also have "\<dots> = Inr (concat cs)"
    using read_chunked_chunked [of cs "[]"] assms \<open>lower ''chunked'' = ''chunked''\<close>
    by (simp add: read_body_def)
  finally show ?thesis .
qed

section \<open>The request line and headers\<close>

definition no_line_break :: "string \<Rightarrow> bool" where
  "no_line_break s \<longleftrightarrow> CHR 0x0D \<notin> set s \<and> CHR 0x0A \<notin> set s"

definition hex_digit_ok :: "nat \<Rightarrow> bool" where
  "hex_digit_ok d \<longleftrightarrow> unreserved (hex_digit d)"

lemma hex_digit_unreserved: "d < 16 \<Longrightarrow> unreserved (hex_digit d)"
proof -
  assume d: "d < 16"
  have "list_all hex_digit_ok [0..<16]" by code_simp
  with d show ?thesis by (simp add: list_all_iff hex_digit_ok_def)
qed

lemma quote_char_safe:
  "d \<in> set (quote_char c) \<Longrightarrow> unreserved d \<or> d = CHR ''+'' \<or> d = CHR ''%''"
proof -
  assume d: "d \<in> set (quote_char c)"
  have "(of_char c :: nat) < 256" by simp
  then have "(of_char c :: nat) div 16 < 16" by (simp add: div_less_iff_less_mult)
  then have "unreserved (hex_digit ((of_char c :: nat) div 16))"
    by (rule hex_digit_unreserved)
  moreover have "unreserved (hex_digit ((of_char c :: nat) mod 16))"
    by (rule hex_digit_unreserved) simp
  ultimately show ?thesis using d by (auto simp: quote_char_def Let_def split: if_splits)
qed

lemma quote_plus_safe:
  "d \<in> set (quote_plus s) \<Longrightarrow> unreserved d \<or> d = CHR ''+'' \<or> d = CHR ''%''"
  using quote_char_safe by (auto simp: quote_plus_def)

lemma join_chars: "d \<in> set (join sep xs) \<Longrightarrow> d \<in> set sep \<or> (\<exists>x \<in> set xs. d \<in> set x)"
  by (induction sep xs rule: join.induct) auto

lemma urlencode_safe:
  "d \<in> set (urlencode params) \<Longrightarrow> unreserved d \<or> d \<in> set ''+%&=''"
  unfolding urlencode_def by (drule join_chars) (auto dest!: quote_plus_safe)

lemma urlencode_no_line_break: "no_line_break (urlencode params)"
  using urlencode_safe [of "CHR 0x0D" params] urlencode_safe [of "CHR 0x0A" params]
  by (auto simp: no_line_break_def unreserved_def)

lemma checked_header_ok:
  "checked_header h = Inr (k, v) \<Longrightarrow> k \<in> set header_names \<and> no_line_break v"
  by (cases h rule: checked_header.cases) (auto simp: no_line_break_def split: if_splits)

lemma checked_headers_ok:
  "checked_headers hs = Inr kvs \<Longrightarrow> (k, v) \<in> set kvs \<Longrightarrow> k \<in> set header_names \<and> no_line_break v"
  by (induction hs arbitrary: kvs)
     (auto dest: checked_header_ok split: sum.splits)

lemma request_lines_plain:
  assumes "checked_headers hs = Inr kvs" "no_line_break verb" "no_line_break path"
  shows "list_all no_line_break (request_lines kvs verb path params)"
proof -
  have k: "no_line_break k" if "k \<in> set header_names" for k
    using that by (auto simp: header_names_def no_line_break_def)
  show ?thesis
    using assms(2,3) urlencode_no_line_break [of params] k checked_headers_ok [OF assms(1)]
    by (fastforce simp: request_lines_def Let_def list_all_iff no_line_break_def)
qed

text \<open>
  The two transfer encodings of a body of at most 16384 bytes are read back to the
  same body, however it is cut into chunks.
\<close>

lemma reply_encodings_agree:
  assumes "list_all (\<lambda>c. c \<noteq> []) cs" and "length (concat cs) \<le> 16384"
  shows "reply_body (chunked_reply cs) = Inr (concat cs) \<and>
    reply_body (sized_reply (concat cs)) = Inr (concat cs)"
  using chunked_reply_body [OF assms] sized_reply_body [OF assms(2)] by simp

lemma reply_encodings_agree_witness:
  "reply_body (chunked_reply [''{\"ok\":'', ''true}'']) = Inr ''{\"ok\":true}'' \<and>
   reply_body (sized_reply ''{\"ok\":true}'') = Inr ''{\"ok\":true}''"
  using reply_encodings_agree [of "[''{\"ok\":'', ''true}'']"] by simp

text \<open>
  C17. No parameter and no accepted header can add a line to a request: the peer splits it
  into exactly the lines it was built from.
\<close>

theorem request_lines_survive:
  assumes "checked_headers hs = Inr kvs" and "no_line_break verb" and "no_line_break path"
  shows "split_crlf (render_request kvs verb path params) = request_lines kvs verb path params @ [[], []]"
proof -
  have "list_all (\<lambda>l. CHR 0x0D \<notin> set l) (request_lines kvs verb path params)"
    using request_lines_plain [OF assms, of params]
    by (auto simp: list_all_iff no_line_break_def)
  then show ?thesis
    using split_crlf_block by (simp add: render_request_def header_block_def)
qed

theorem request_lines_survive_witness:
  "split_crlf (render_request [(''Authorization'', ''Basic x'')] ''POST'' ''/p'' [(''key'', [CHR 0x0D, CHR 0x0A])])
   = [''POST /p?key=%0D%0A HTTP/1.1'', ''Host: localhost'', ''Connection: close'', ''Content-Length: 0'',
      ''Authorization: Basic x'', [], []]"
proof -
  have h: "checked_headers [(''Authorization'', JStr ''Basic x'')] = Inr [(''Authorization'', ''Basic x'')]"
    by code_simp
  have v: "no_line_break ''POST''" and p: "no_line_break ''/p''" by code_simp+
  have l: "request_lines [(''Authorization'', ''Basic x'')] ''POST'' ''/p'' [(''key'', [CHR 0x0D, CHR 0x0A])] =
    [''POST /p?key=%0D%0A HTTP/1.1'', ''Host: localhost'', ''Connection: close'', ''Content-Length: 0'',
      ''Authorization: Basic x'']" by code_simp
  from request_lines_survive [OF h v p, of "[(''key'', [CHR 0x0D, CHR 0x0A])]"]
  show ?thesis unfolding l by simp
qed

lemma request_error_opaque:
  assumes "request kv verb path params s = (s', Inl e)"
  shows "e = BackendError"
  using assms by (auto simp: request_def Let_def split: if_splits prod.splits option.splits sum.splits)

lemma request_error_opaque_witness:
  "snd (request \<lparr>headers = [], exchange = (\<lambda>raw s. (None, s)), loads = (\<lambda>b. Inl ValueError)\<rparr>
     ''GET'' ''/hid'' [] ()) = Inl BackendError"
proof -
  have "list_ex (\<lambda>c. of_char c \<ge> (128 :: nat)) (render_request [] ''GET'' ''/hid'' []) = False"
    by code_simp
  then have "request \<lparr>headers = [], exchange = (\<lambda>raw s. (None, s)), loads = (\<lambda>b. Inl ValueError)\<rparr>
     ''GET'' ''/hid'' [] () = ((), Inl BackendError)"
    by (simp add: request_def)
  with request_error_opaque [OF this] show ?thesis by simp
qed

end
