(* ===== verification/Hid_Kvmd.thy ===== *)
theory Hid_Kvmd
  imports Hid_Http "HOL-Library.Char_ord" "HOL-Library.List_Lexorder"
begin

text \<open>
  The operations of the class \<open>Kvmd\<close> in \<open>python/rkmoon_hid/backend.py\<close> that are
  built on \<open>request\<close>: the event methods, which make it a sink (theory
  \<open>Hid_Sink\<close>), \<open>check\<close>, \<open>wake\<close>, \<open>select_mouse\<close> and \<open>neutralize\<close>.

  They take \<open>request\<close> as an argument \<open>rq\<close>: theory \<open>Hid_Http\<close> gives it as
  \<open>request kv\<close>.  A request ends with the JSON value kvmd answered or with an
  exception.  \<open>asyncio.sleep\<close> changes no state that is modelled.
\<close>

type_synonym 's requester =
  "string \<Rightarrow> string \<Rightarrow> (string \<times> string) list \<Rightarrow> 's \<Rightarrow> 's \<times> json res"

section \<open>Event methods\<close>

definition bool_str :: "bool \<Rightarrow> string" where
  "bool_str b = (if b then ''true'' else ''false'')"

text \<open>Path and query of one event; \<open>Kvmd\<close> has no \<open>move_many\<close>.\<close>

fun event_request :: "call \<Rightarrow> (string \<times> (string \<times> string) list) option" where
  "event_request (CKey k down) =
     Some (''/hid/events/send_key'',
           [(''key'', k), (''state'', bool_str down), (''finish'', ''false'')])"
| "event_request (CButton b down) =
     Some (''/hid/events/send_mouse_button'', [(''button'', b), (''state'', bool_str down)])"
| "event_request (CMove x y) =
     Some (''/hid/events/send_mouse_relative'', [(''delta_x'', int_str x), (''delta_y'', int_str y)])"
| "event_request (CAbsolute x y) =
     Some (''/hid/events/send_mouse_move'', [(''to_x'', int_str x), (''to_y'', int_str y)])"
| "event_request (CWheel x y) =
     Some (''/hid/events/send_mouse_wheel'', [(''delta_x'', int_str x), (''delta_y'', int_str y)])"
| "event_request (CMoveMany ps) = None"

definition kvmd_call :: "'s requester \<Rightarrow> call \<Rightarrow> 's \<Rightarrow> 's \<times> exn option" where
  "kvmd_call rq c s =
     (case event_request c of
        None \<Rightarrow> (s, Some AttributeError)
      | Some (path, params) \<Rightarrow>
          (case rq ''POST'' path params s of
             (s', Inl e) \<Rightarrow> (s', Some e)
           | (s', Inr _) \<Rightarrow> (s', None)))"

definition kvmd_sink :: "'s requester \<Rightarrow> 's sink" where
  "kvmd_sink rq = \<lparr>send = kvmd_call rq, has_move_many = False\<rparr>"

section \<open>Reading the state\<close>

text \<open>\<open>a or b\<close> and \<open>a and b\<close> stop at the first operand that decides or raises.\<close>

fun py_or :: "bool res \<Rightarrow> bool res \<Rightarrow> bool res" where
  "py_or (Inl e) b = Inl e"
| "py_or (Inr True) b = Inr True"
| "py_or (Inr False) b = b"

fun py_and :: "bool res \<Rightarrow> bool res \<Rightarrow> bool res" where
  "py_and (Inl e) b = Inl e"
| "py_and (Inr False) b = Inr False"
| "py_and (Inr True) b = b"

definition py_not :: "bool res \<Rightarrow> bool res" where
  "py_not = map_sum id Not"

text \<open>\<open>x.get(name) is True\<close>\<close>

definition flag_set :: "string \<Rightarrow> json \<Rightarrow> bool res" where
  "flag_set name x = map_sum id (\<lambda>v. v = JBool True) (py_get x name JNull)"

definition offline :: "json \<Rightarrow> json \<Rightarrow> bool res" where
  "offline keyboard mouse =
     py_or (py_not (flag_set ''online'' keyboard)) (py_not (flag_set ''online'' mouse))"

definition hid_parts :: "json \<Rightarrow> (json \<times> json) res" where
  "hid_parts state =
     (case py_get state ''keyboard'' (JObj []) of
        Inl e \<Rightarrow> Inl e
      | Inr keyboard \<Rightarrow>
          (case py_get state ''mouse'' (JObj []) of
             Inl e \<Rightarrow> Inl e
           | Inr mouse \<Rightarrow> Inr (keyboard, mouse)))"

fun is_bool :: "json \<Rightarrow> bool" where
  "is_bool (JBool b) = True"
| "is_bool _ = False"

text \<open>The two tests at the end of \<open>check\<close>.\<close>

definition confirm :: "json \<Rightarrow> json \<Rightarrow> json \<Rightarrow> json res" where
  "confirm state keyboard mouse =
     (case py_or (py_not (flag_set ''enabled'' state)) (offline keyboard mouse) of
        Inl e \<Rightarrow> Inl e
      | Inr True \<Rightarrow> Inl BackendError
      | Inr False \<Rightarrow>
          (case py_get mouse ''absolute'' JNull of
             Inl e \<Rightarrow> Inl e
           | Inr v \<Rightarrow> if is_bool v then Inr state else Inl BackendError))"

definition wake_calls :: "bool \<Rightarrow> bool \<Rightarrow> call list" where
  "wake_calls keyboard mouse =
     (if keyboard then [CKey ''ShiftLeft'' True, CKey ''ShiftLeft'' False] else [])
     @ (if mouse then [CWheel 0 0] else [])"

definition wake :: "'s requester \<Rightarrow> bool \<Rightarrow> bool \<Rightarrow> 's \<Rightarrow> 's \<times> exn option" where
  "wake rq keyboard mouse s = send_all (kvmd_sink rq) (wake_calls keyboard mouse) s"

text \<open>\<open>state = await self.request("GET", "/hid")\<close> and its two parts\<close>

definition read_state :: "'s requester \<Rightarrow> 's \<Rightarrow> 's \<times> (json \<times> json \<times> json) res" where
  "read_state rq s =
     (case rq ''GET'' ''/hid'' [] s of
        (s1, Inl e) \<Rightarrow> (s1, Inl e)
      | (s1, Inr state) \<Rightarrow> (s1, map_sum id (\<lambda>p. (state, p)) (hid_parts state)))"

definition check :: "'s requester \<Rightarrow> 's \<Rightarrow> 's \<times> json res" where
  "check rq s =
     (case read_state rq s of
        (s1, Inl e) \<Rightarrow> (s1, Inl e)
      | (s1, Inr (state, keyboard, mouse)) \<Rightarrow>
          (case py_and (flag_set ''enabled'' state) (offline keyboard mouse) of
             Inl e \<Rightarrow> (s1, Inl e)
           | Inr False \<Rightarrow> (s1, confirm state keyboard mouse)
           | Inr True \<Rightarrow>
               (case (py_not (flag_set ''online'' keyboard), py_not (flag_set ''online'' mouse)) of
                  (Inl e, _) \<Rightarrow> (s1, Inl e)
                | (Inr _, Inl e) \<Rightarrow> (s1, Inl e)
                | (Inr a, Inr b) \<Rightarrow>
                    (case wake rq a b s1 of
                       (s2, Some e) \<Rightarrow> (s2, Inl e)
                     | (s2, None) \<Rightarrow>
                         (case read_state rq s2 of
                            (s3, Inl e) \<Rightarrow> (s3, Inl e)
                          | (s3, Inr (state', keyboard', mouse')) \<Rightarrow>
                              (s3, confirm state' keyboard' mouse'))))))"

section \<open>Selecting the mouse output\<close>

text \<open>\<open>value[name]\<close>\<close>

fun py_index :: "json \<Rightarrow> string \<Rightarrow> json res" where
  "py_index (JObj fs) name = (case map_of fs name of None \<Rightarrow> Inl KeyError | Some v \<Rightarrow> Inr v)"
| "py_index _ name = Inl TypeError"

text \<open>\<open>v in {...}\<close> hashes \<open>v\<close>; \<open>s in v\<close> depends on what \<open>v\<close> is.\<close>

fun in_str_set :: "json \<Rightarrow> string list \<Rightarrow> bool res" where
  "in_str_set (JList _) ss = Inl TypeError"
| "in_str_set (JObj _) ss = Inl TypeError"
| "in_str_set (JStr s) ss = Inr (s \<in> set ss)"
| "in_str_set _ ss = Inr False"

fun str_in :: "string \<Rightarrow> json \<Rightarrow> bool res" where
  "str_in s (JList vs) = Inr (JStr s \<in> set vs)"
| "str_in s (JStr t) = Inr (find_sub s t \<noteq> None)"
| "str_in s (JObj fs) = Inr (s \<in> set (map fst fs))"
| "str_in s _ = Inl TypeError"

definition same_mode :: "json \<Rightarrow> bool \<Rightarrow> bool res" where
  "same_mode mouse absolute =
     map_sum id (\<lambda>v. py_eq_int v (if absolute then 1 else 0)) (py_index mouse ''absolute'')"

text \<open>The early return: the mode already fits and no other output is active.\<close>

definition already_selected :: "json \<Rightarrow> json \<Rightarrow> bool \<Rightarrow> string \<Rightarrow> bool res" where
  "already_selected mouse outputs absolute target =
     py_and (same_mode mouse absolute)
       (case py_get outputs ''active'' (JStr []) of
          Inl e \<Rightarrow> Inl e
        | Inr active \<Rightarrow> in_str_set active [[], target])"

definition selection_confirmed :: "json \<Rightarrow> bool \<Rightarrow> string \<Rightarrow> bool res" where
  "selection_confirmed mouse absolute target =
     py_and (same_mode mouse absolute)
       (case py_get mouse ''outputs'' (JObj []) of
          Inl e \<Rightarrow> Inl e
        | Inr outputs \<Rightarrow>
            map_sum id (\<lambda>v. v = JStr target) (py_get outputs ''active'' JNull))"

fun confirm_loop :: "'s requester \<Rightarrow> bool \<Rightarrow> string \<Rightarrow> nat \<Rightarrow> 's \<Rightarrow> 's \<times> exn option" where
  "confirm_loop rq absolute target 0 s = (s, Some BackendError)"
| "confirm_loop rq absolute target (Suc n) s =
     (case check rq s of
        (s1, Inl e) \<Rightarrow> (s1, Some e)
      | (s1, Inr state) \<Rightarrow>
          (case py_index state ''mouse'' of
             Inl e \<Rightarrow> (s1, Some e)
           | Inr mouse \<Rightarrow>
               (case selection_confirmed mouse absolute target of
                  Inl e \<Rightarrow> (s1, Some e)
                | Inr True \<Rightarrow> (s1, None)
                | Inr False \<Rightarrow> confirm_loop rq absolute target n s1)))"

definition mouse_target :: "bool \<Rightarrow> string" where
  "mouse_target absolute = (if absolute then ''usb'' else ''usb_rel'')"

text \<open>
  What \<open>select_mouse\<close> concludes from the state it read: \<open>Inr False\<close>, nothing to
  do; \<open>Inr True\<close>, the output must be selected.
\<close>

definition must_select :: "json \<Rightarrow> bool \<Rightarrow> string \<Rightarrow> bool res" where
  "must_select state absolute target =
     (case py_index state ''mouse'' of
        Inl e \<Rightarrow> Inl e
      | Inr mouse \<Rightarrow>
          (case py_get mouse ''outputs'' (JObj []) of
             Inl e \<Rightarrow> Inl e
           | Inr outputs \<Rightarrow>
               (case already_selected mouse outputs absolute target of
                  Inl e \<Rightarrow> Inl e
                | Inr True \<Rightarrow> Inr False
                | Inr False \<Rightarrow>
                    (case py_get outputs ''available'' (JList []) of
                       Inl e \<Rightarrow> Inl e
                     | Inr av \<Rightarrow>
                         (case str_in target av of
                            Inl e \<Rightarrow> Inl e
                          | Inr False \<Rightarrow> Inl BackendError
                          | Inr True \<Rightarrow> Inr True)))))"

definition select_mouse :: "'s requester \<Rightarrow> string \<Rightarrow> 's \<Rightarrow> 's \<times> exn option" where
  "select_mouse rq m s =
     (if m \<noteq> ''relative'' \<and> m \<noteq> ''absolute'' then (s, Some BackendError)
      else
        let absolute = (m = ''absolute''); target = mouse_target absolute in
        case check rq s of
          (s1, Inl e) \<Rightarrow> (s1, Some e)
        | (s1, Inr state) \<Rightarrow>
            (case must_select state absolute target of
               Inl e \<Rightarrow> (s1, Some e)
             | Inr False \<Rightarrow> (s1, None)
             | Inr True \<Rightarrow>
                 (case rq ''POST'' ''/hid/set_params'' [(''mouse_output'', target)] s1 of
                    (s2, Inl e) \<Rightarrow> (s2, Some e)
                  | (s2, Inr _) \<Rightarrow> confirm_loop rq absolute target 5 s2)))"

section \<open>Releasing everything there is\<close>

text \<open>\<open>sorted(set(KEYS.values()))\<close>\<close>

definition key_names :: "string list" where
  "key_names = sort (remdups (map snd KEYS_items))"

definition button_names :: "string list" where
  "button_names = map snd BUTTONS_items"

fun release_each :: "'s sink \<Rightarrow> call list \<Rightarrow> bool \<Rightarrow> 's \<Rightarrow> 's \<times> exn option" where
  "release_each k [] failed s = (s, if failed then Some BackendError else None)"
| "release_each k (c # cs) failed s =
     (case send k c s of
        (s', None) \<Rightarrow> release_each k cs failed s'
      | (s', Some e) \<Rightarrow>
          if e = BackendError then release_each k cs True s' else (s', Some e))"

definition neutral_calls :: "call list" where
  "neutral_calls = map (\<lambda>n. CKey n False) key_names @ map (\<lambda>n. CButton n False) button_names"

definition neutralize :: "'s sink \<Rightarrow> 's \<Rightarrow> 's \<times> exn option" where
  "neutralize k s = release_each k neutral_calls False s"

end
