(* ===== verification/Hid_Kvmd_Laws.thy ===== *)
theory Hid_Kvmd_Laws
  imports Hid_Kvmd
begin

text \<open>
  What the recovery and selection operations of \<open>Kvmd\<close> guarantee.  \<open>logged rq\<close>
  is \<open>rq\<close> with every request and its result written down, newest first; it
  turns statements about what is sent into statements about a list.
\<close>

type_synonym log_entry = "string \<times> string \<times> (string \<times> string) list \<times> json res"

definition logged :: "'s requester \<Rightarrow> ('s \<times> log_entry list) requester" where
  "logged rq verb path params st =
     (case rq verb path params (fst st) of
        (s', r) \<Rightarrow> ((s', (verb, path, params, r) # snd st), r))"

lemma logged_result:
  "logged rq verb path params st = (st', r) \<Longrightarrow> snd st' = (verb, path, params, r) # snd st"
  by (auto simp: logged_def split: prod.splits)

text \<open>\<open>step\<close> says how a state change grew the log: at most \<open>n\<close> entries, all in \<open>P\<close>.\<close>

definition grew :: "nat \<Rightarrow> (log_entry \<Rightarrow> bool) \<Rightarrow> 's \<times> log_entry list \<Rightarrow> 's \<times> log_entry list \<Rightarrow> bool"
  where
  "grew n P st st' \<longleftrightarrow> (\<exists>new. snd st' = new @ snd st \<and> length new \<le> n \<and> list_all P new)"

lemma grew_refl [simp]: "grew n P st st"
  by (simp add: grew_def)

lemma grew_mono: "grew n P st st' \<Longrightarrow> n \<le> m \<Longrightarrow> grew m P st st'"
  by (auto simp: grew_def)

lemma grew_weaken: "grew n P st st' \<Longrightarrow> (\<And>e. P e \<Longrightarrow> Q e) \<Longrightarrow> grew n Q st st'"
  by (auto simp: grew_def list_all_iff)

lemma grew_trans: "grew n P a b \<Longrightarrow> grew m P b c \<Longrightarrow> grew (n + m) P a c"
  by (fastforce simp: grew_def)

lemma grew_logged:
  "logged rq verb path params st = (st', r) \<Longrightarrow> P (verb, path, params, r) \<Longrightarrow> grew 1 P st st'"
  by (auto simp: grew_def dest!: logged_result)

text \<open>The requests \<open>check\<close> may issue: reading the state, and the neutral reports.\<close>

fun probe :: "log_entry \<Rightarrow> bool" where
  "probe (verb, path, params, r) \<longleftrightarrow>
     (verb, path, params) = (''GET'', ''/hid'', []) \<or>
     (verb = ''POST'' \<and>
       (Some (path, params) = event_request (CKey ''ShiftLeft'' True) \<or>
        Some (path, params) = event_request (CKey ''ShiftLeft'' False) \<or>
        Some (path, params) = event_request (CWheel 0 0)))"

text \<open>The newest entry is a reading of the state \<open>state\<close>.\<close>

definition last_read :: "json \<Rightarrow> 's \<times> log_entry list \<Rightarrow> bool" where
  "last_read state st \<longleftrightarrow>
     (\<exists>rest. snd st = (''GET'', ''/hid'', [], Inr state) # rest)"

definition usable :: "json \<Rightarrow> bool" where
  "usable state \<longleftrightarrow>
     (case hid_parts state of
        Inl e \<Rightarrow> False
      | Inr (keyboard, mouse) \<Rightarrow>
          flag_set ''enabled'' state = Inr True \<and> flag_set ''online'' keyboard = Inr True \<and>
          flag_set ''online'' mouse = Inr True \<and>
          (\<exists>v. py_get mouse ''absolute'' JNull = Inr v \<and> is_bool v))"

lemma py_or_Inr_False: "py_or a b = Inr False \<longleftrightarrow> a = Inr False \<and> b = Inr False"
  by (cases "(a, b)" rule: py_or.cases) auto

lemma py_and_Inr_True: "py_and a b = Inr True \<longleftrightarrow> a = Inr True \<and> b = Inr True"
  by (cases "(a, b)" rule: py_and.cases) auto

lemma py_not_Inr [simp]: "py_not a = Inr b \<longleftrightarrow> a = Inr (\<not> b)"
  by (cases a) (auto simp: py_not_def)

lemma offline_False:
  "offline kb m = Inr False \<longleftrightarrow> flag_set ''online'' kb = Inr True \<and> flag_set ''online'' m = Inr True"
  by (simp add: offline_def py_or_Inr_False)

lemma confirm_Inr:
  "confirm state kb m = Inr st \<Longrightarrow>
     st = state \<and> flag_set ''enabled'' state = Inr True \<and> offline kb m = Inr False \<and>
     (\<exists>v. py_get m ''absolute'' JNull = Inr v \<and> is_bool v)"
  by (auto simp: confirm_def py_or_Inr_False split: sum.splits bool.splits if_splits)

lemma confirm_usable: "hid_parts state = Inr (kb, m) \<Longrightarrow> confirm state kb m = Inr st \<Longrightarrow> st = state \<and> usable state"
  by (auto simp: usable_def offline_False dest!: confirm_Inr)

lemma read_state_logged:
  assumes "read_state (logged rq) st = (st', r)"
  shows "grew 1 probe st st'"
    and "r = Inr (state, kb, m) \<Longrightarrow> last_read state st' \<and> hid_parts state = Inr (kb, m)"
proof -
  obtain st1 r1 where q: "logged rq ''GET'' ''/hid'' [] st = (st1, r1)" by fastforce
  then have 1: "st' = st1" and 2: "r = Inr (state, kb, m) \<Longrightarrow> r1 = Inr state \<and> hid_parts state = Inr (kb, m)"
    using assms by (auto simp: read_state_def map_sum_def split: sum.splits)
  show "grew 1 probe st st'" unfolding 1 by (rule grew_logged [OF q]) simp
  show "last_read state st' \<and> hid_parts state = Inr (kb, m)" if "r = Inr (state, kb, m)"
    using 2 [OF that] logged_result [OF q] 1 by (simp add: last_read_def)
qed

lemma kvmd_call_logged:
  assumes "kvmd_call (logged rq) c st = (st', r)"
    and "\<And>path params j. event_request c = Some (path, params) \<Longrightarrow> P (''POST'', path, params, j)"
  shows "grew 1 P st st'"
proof (cases "event_request c")
  case None
  then show ?thesis using assms(1) by (simp add: kvmd_call_def)
next
  case (Some pp)
  obtain path params where e: "event_request c = Some (path, params)" using Some by (cases pp) simp
  obtain st1 j where q: "logged rq ''POST'' path params st = (st1, j)" by fastforce
  have "st' = st1" using assms(1) e q by (simp add: kvmd_call_def split: sum.splits)
  then show ?thesis using grew_logged [where P = P, OF q assms(2) [OF e]] by simp
qed

lemma send_all_logged:
  assumes "send_all (kvmd_sink (logged rq)) cs st = (st', r)"
    and "\<And>c path params j. c \<in> set cs \<Longrightarrow> event_request c = Some (path, params) \<Longrightarrow>
           P (''POST'', path, params, j)"
  shows "grew (length cs) P st st'"
  using assms
proof (induction cs arbitrary: st)
  case (Cons c cs)
  obtain st1 r1 where c: "kvmd_call (logged rq) c st = (st1, r1)" by fastforce
  have g: "grew 1 P st st1"
    by (rule kvmd_call_logged [OF c]) (use Cons.prems(2) in auto)
  show ?case
  proof (cases r1)
    case None
    then have "send_all (kvmd_sink (logged rq)) cs st1 = (st', r)"
      using Cons.prems(1) c by (simp add: kvmd_sink_def)
    then have "grew (length cs) P st1 st'"
      by (rule Cons.IH) (rule Cons.prems(2), simp_all)
    from grew_trans [OF g this] show ?thesis by simp
  next
    case (Some e)
    then show ?thesis using Cons.prems(1) c g grew_mono [OF g] by (simp add: kvmd_sink_def)
  qed
qed simp

lemma wake_logged:
  assumes "wake (logged rq) a b st = (st', r)"
  shows "grew 3 probe st st'"
proof -
  have "grew (length (wake_calls a b)) probe st st'"
    by (rule send_all_logged [OF assms [unfolded wake_def]])
       (auto simp: wake_calls_def split: if_splits)
  then show ?thesis by (rule grew_mono) (simp add: wake_calls_def)
qed

text \<open>\<open>check\<close>: at most five requests, none but reads and neutral reports.\<close>

lemma check_logged:
  assumes "check (logged rq) st = (st', r)"
  shows "grew 5 probe st st'"
    and "r = Inr state \<Longrightarrow> last_read state st' \<and> usable state"
proof -
  obtain st1 r1 where q1: "read_state (logged rq) st = (st1, r1)" by fastforce
  note g1 = read_state_logged(1) [OF q1]
  have "grew 5 probe st st' \<and> (r = Inr state \<longrightarrow> last_read state st' \<and> usable state)"
  proof (cases "\<exists>sp kb m. r1 = Inr (sp, kb, m) \<and>
      py_and (flag_set ''enabled'' sp) (offline kb m) = Inr True")
    case False
    then show ?thesis
      using assms q1 grew_mono [OF g1] read_state_logged(2) [OF q1] confirm_usable
      by (fastforce simp: check_def split: sum.splits bool.splits)
  next
    case True
    then obtain sp kb m where r1: "r1 = Inr (sp, kb, m)"
      and w: "py_and (flag_set ''enabled'' sp) (offline kb m) = Inr True" by blast
    show ?thesis
    proof (cases "\<exists>a b. py_not (flag_set ''online'' kb) = Inr a \<and> py_not (flag_set ''online'' m) = Inr b")
      case False
      then have "\<exists>e. r = Inl e \<and> st' = st1"
        using assms q1 r1 w by (auto simp: check_def split: sum.splits)
      then show ?thesis using grew_mono [OF g1] by auto
    next
      case True
      then obtain a b where ab: "py_not (flag_set ''online'' kb) = Inr a"
        "py_not (flag_set ''online'' m) = Inr b" by blast
      obtain st2 r2 where q2: "wake (logged rq) a b st1 = (st2, r2)" by fastforce
      note g2 = grew_trans [OF g1 wake_logged [OF q2]]
      obtain st3 r3 where q3: "read_state (logged rq) st2 = (st3, r3)" by fastforce
      note g3 = grew_trans [OF g2 read_state_logged(1) [OF q3]]
      show ?thesis
      proof (cases r2)
        case (Some e)
        then have "\<exists>e. r = Inl e \<and> st' = st2" using assms q1 r1 w ab q2 by (auto simp: check_def)
        then show ?thesis using grew_mono [OF g2] by auto
      next
        case None
        then show ?thesis
          using assms q1 r1 w ab q2 q3 g3 read_state_logged(2) [OF q3] confirm_usable
          by (fastforce simp: check_def split: sum.splits)
      qed
    qed
  qed
  then show "grew 5 probe st st'" and "r = Inr state \<Longrightarrow> last_read state st' \<and> usable state"
    by blast+
qed

section \<open>\<open>select_mouse\<close>\<close>

definition set_params_entry :: "string \<Rightarrow> log_entry \<Rightarrow> bool" where
  "set_params_entry target e \<longleftrightarrow>
     (\<exists>j. e = (''POST'', ''/hid/set_params'', [(''mouse_output'', target)], j))"

text \<open>\<open>state\<close> shows the wanted mode with \<open>actives\<close> as the active output.\<close>

definition shows_mode :: "bool \<Rightarrow> json \<Rightarrow> json set \<Rightarrow> json \<Rightarrow> bool" where
  "shows_mode absolute d actives state \<longleftrightarrow>
     (\<exists>kb mouse outputs v. hid_parts state = Inr (kb, mouse) \<and>
        same_mode mouse absolute = Inr True \<and> py_get mouse ''outputs'' (JObj []) = Inr outputs \<and>
        py_get outputs ''active'' d = Inr v \<and> v \<in> actives)"

text \<open>\<open>state\<close> lists \<open>target\<close> among the available outputs.\<close>

definition offers :: "string \<Rightarrow> json \<Rightarrow> bool" where
  "offers target state \<longleftrightarrow>
     (\<exists>kb mouse outputs av. hid_parts state = Inr (kb, mouse) \<and>
        py_get mouse ''outputs'' (JObj []) = Inr outputs \<and>
        py_get outputs ''available'' (JList []) = Inr av \<and> str_in target av = Inr True)"

lemma index_mouse:
  "usable state \<Longrightarrow> py_index state ''mouse'' = Inr mouse \<Longrightarrow> \<exists>kb. hid_parts state = Inr (kb, mouse)"
  by (cases state) (auto simp: usable_def hid_parts_def split: sum.splits option.splits)

lemma in_str_set_True: "in_str_set v ss = Inr True \<longleftrightarrow> (\<exists>x\<in>set ss. v = JStr x)"
  by (cases "(v, ss)" rule: in_str_set.cases) auto

lemma confirmed_shows:
  assumes "usable state" "py_index state ''mouse'' = Inr mouse"
    and "selection_confirmed mouse absolute target = Inr True"
  shows "shows_mode absolute JNull {JStr target} state"
  using index_mouse [OF assms(1,2)] assms(3)
  by (auto simp: selection_confirmed_def shows_mode_def py_and_Inr_True map_sum_def split: sum.splits)

lemma already_shows:
  assumes "usable state" "py_index state ''mouse'' = Inr mouse"
    and "py_get mouse ''outputs'' (JObj []) = Inr outputs"
    and "already_selected mouse outputs absolute target = Inr True"
  shows "shows_mode absolute (JStr []) {JStr [], JStr target} state"
  using index_mouse [OF assms(1,2)] assms(3,4)
  by (auto simp: already_selected_def shows_mode_def py_and_Inr_True in_str_set_True split: sum.splits)

lemma confirm_loop_logged:
  assumes "confirm_loop (logged rq) absolute target n st = (st', r)"
  shows "grew (5 * n) probe st st'"
    and "r = None \<Longrightarrow> \<exists>state. last_read state st' \<and> usable state \<and>
           shows_mode absolute JNull {JStr target} state"
proof -
  have "grew (5 * n) probe st st' \<and>
    (r = None \<longrightarrow> (\<exists>state. last_read state st' \<and> usable state \<and>
           shows_mode absolute JNull {JStr target} state))"
    using assms
  proof (induction n arbitrary: st)
    case (Suc n)
    obtain st1 c where q: "check (logged rq) st = (st1, c)" by fastforce
    note g = check_logged(1) [OF q]
    have g5: "grew (5 * Suc n) probe st st1" using grew_mono [OF g] by simp
    show ?case
    proof (cases c)
      case (Inl e)
      then show ?thesis using Suc.prems q g5 by auto
    next
      case (Inr state)
      note u = check_logged(2) [OF q Inr]
      show ?thesis
      proof (cases "\<exists>mouse. py_index state ''mouse'' = Inr mouse \<and>
          selection_confirmed mouse absolute target = Inr False")
        case True
        then have "confirm_loop (logged rq) absolute target n st1 = (st', r)"
          using Suc.prems q Inr by auto
        note ih = Suc.IH [OF this]
        have "grew (5 + 5 * n) probe st st'" using grew_trans [OF g conjunct1 [OF ih]] .
        with ih show ?thesis by simp
      next
        case False
        then have "st' = st1 \<and> (r = None \<longrightarrow> (\<exists>mouse. py_index state ''mouse'' = Inr mouse \<and>
            selection_confirmed mouse absolute target = Inr True))"
          using Suc.prems q Inr by (auto split: sum.splits bool.splits)
        then show ?thesis using g5 u confirmed_shows by blast
      qed
    qed
  qed auto
  then show "grew (5 * n) probe st st'"
    and "r = None \<Longrightarrow> \<exists>state. last_read state st' \<and> usable state \<and>
           shows_mode absolute JNull {JStr target} state"
    by blast+
qed

lemma must_select_True:
  assumes "usable state" "must_select state absolute target = Inr True"
  shows "offers target state"
proof -
  from assms(2) obtain mouse outputs av where
    c: "py_index state ''mouse'' = Inr mouse" "py_get mouse ''outputs'' (JObj []) = Inr outputs"
    "py_get outputs ''available'' (JList []) = Inr av" "str_in target av = Inr True"
    by (auto simp: must_select_def split: sum.splits bool.splits)
  with index_mouse [OF assms(1) c(1)] show ?thesis by (auto simp: offers_def)
qed

lemma must_select_False:
  assumes "usable state" "must_select state absolute target = Inr False"
  shows "shows_mode absolute (JStr []) {JStr [], JStr target} state"
proof -
  from assms(2) obtain mouse outputs where
    c: "py_index state ''mouse'' = Inr mouse" "py_get mouse ''outputs'' (JObj []) = Inr outputs"
    "already_selected mouse outputs absolute target = Inr True"
    by (auto simp: must_select_def split: sum.splits bool.splits)
  then show ?thesis using already_shows [OF assms(1)] by blast
qed

text \<open>
  Every run of \<open>select_mouse\<close>: it reads the state first and either stops there,
  or posts the one parameter change (only when the state just read offers that
  output), or goes on to confirm it by reading the state again.
\<close>

lemma select_mouse_cases:
  assumes "select_mouse (logged rq) m st = (st', r)"
  obtains (bad_mode) "m \<noteq> ''relative''" "m \<noteq> ''absolute''" "st' = st" "r \<noteq> None"
  | (failed) "grew 5 probe st st'" "r \<noteq> None"
  | (already) state where "grew 5 probe st st'" "r = None" "last_read state st'" "usable state"
      "shows_mode (m = ''absolute'') (JStr []) {JStr [], JStr (mouse_target (m = ''absolute''))} state"
  | (posted) state st1 st2 j where "m = ''relative'' \<or> m = ''absolute''" "grew 5 probe st st1"
      "last_read state st1" "usable state" "offers (mouse_target (m = ''absolute'')) state"
      "snd st2 = (''POST'', ''/hid/set_params'', [(''mouse_output'', mouse_target (m = ''absolute''))], j)
         # snd st1"
      "(\<exists>e. j = Inl e \<and> r = Some e \<and> st' = st2) \<or>
       confirm_loop (logged rq) (m = ''absolute'') (mouse_target (m = ''absolute'')) 5 st2 = (st', r)"
proof (cases "m \<noteq> ''relative'' \<and> m \<noteq> ''absolute''")
  case True
  with assms bad_mode show thesis by (auto simp: select_mouse_def)
next
  case False
  let ?a = "m = ''absolute''" and ?t = "mouse_target (m = ''absolute'')"
  obtain st1 c where q: "check (logged rq) st = (st1, c)" by fastforce
  note g = check_logged(1) [OF q]
  show thesis
  proof (cases c)
    case (Inl e)
    then show thesis using failed [of] g assms False q by (auto simp: select_mouse_def Let_def)
  next
    case c: (Inr state)
    note u = check_logged(2) [OF q c]
    show thesis
    proof (cases "must_select state ?a ?t")
      case (Inl e)
      then show thesis using failed g assms False q c by (auto simp: select_mouse_def Let_def)
    next
      case (Inr sel)
      obtain st2 j where p: "logged rq ''POST'' ''/hid/set_params'' [(''mouse_output'', ?t)] st1 = (st2, j)"
        by fastforce
      show thesis
      proof (cases sel)
        case True
        have "(\<exists>e. j = Inl e \<and> r = Some e \<and> st' = st2) \<or>
           confirm_loop (logged rq) ?a ?t 5 st2 = (st', r)"
          using assms False q c Inr True p
          by (cases j) (auto simp: select_mouse_def Let_def simp del: confirm_loop.simps)
        moreover have "offers ?t state"
          using must_select_True [OF conjunct2 [OF u], of ?a] Inr True by simp
        ultimately show thesis
          using posted [OF _ g _ _ _ logged_result [OF p]] False u by blast
      next
        case no: False
        then have "st' = st1" "r = None"
          using assms False q c Inr by (auto simp: select_mouse_def Let_def)
        moreover have "shows_mode ?a (JStr []) {JStr [], JStr ?t} state"
          using must_select_False [OF conjunct2 [OF u]] Inr no by simp
        ultimately show thesis using already [of state] g u by blast
      qed
    qed
  qed
qed

section \<open>\<open>neutralize\<close>\<close>

text \<open>Every call is attempted unless an exception of another class escapes.\<close>

lemma release_each_attempts:
  assumes "\<And>c s. snd (send k c s) \<in> {None, Some BackendError}"
  shows "release_each k cs failed s =
    (fold (\<lambda>c s. fst (send k c s)) cs s,
     if failed \<or> (\<exists>pre c post. cs = pre @ c # post \<and>
          snd (send k c (fold (\<lambda>c s. fst (send k c s)) pre s)) \<noteq> None)
     then Some BackendError else None)"
proof (induction cs arbitrary: failed s)
  case (Cons c cs)
  let ?f = "\<lambda>c s. fst (send k c s)"
  obtain s' r where c: "send k c s = (s', r)" by fastforce
  have ex: "(\<exists>pre d post. c # cs = pre @ d # post \<and> snd (send k d (fold ?f pre s)) \<noteq> None) \<longleftrightarrow>
      r \<noteq> None \<or> (\<exists>pre d post. cs = pre @ d # post \<and> snd (send k d (fold ?f pre s')) \<noteq> None)"
    (is "?L \<longleftrightarrow> _ \<or> ?R")
  proof
    assume ?L
    then obtain pre d post where l: "c # cs = pre @ d # post" "snd (send k d (fold ?f pre s)) \<noteq> None"
      by blast
    then show "r \<noteq> None \<or> ?R" using c by (cases pre) auto
  next
    assume "r \<noteq> None \<or> ?R"
    then show ?L
    proof
      assume "r \<noteq> None"
      then have "c # cs = [] @ c # cs \<and> snd (send k c (fold ?f [] s)) \<noteq> None" using c by simp
      then show ?L by blast
    next
      assume ?R
      then obtain pre d post where "cs = pre @ d # post" "snd (send k d (fold ?f pre s')) \<noteq> None"
        by blast
      then have "c # cs = (c # pre) @ d # post \<and> snd (send k d (fold ?f (c # pre) s)) \<noteq> None"
        using c by simp
      then show ?L by blast
    qed
  qed
  have r: "r = None \<or> r = Some BackendError" using assms [of c s] c by auto
  show ?case
    unfolding ex using r by (elim disjE) (simp_all add: c Cons.IH)
qed simp

definition is_release :: "call \<Rightarrow> bool" where
  "is_release c \<longleftrightarrow> (\<exists>n. c = CKey n False \<or> c = CButton n False)"

lemma neutral_calls_release: "c \<in> set neutral_calls \<Longrightarrow> is_release c"
  by (auto simp: neutral_calls_def is_release_def)

lemma neutral_calls_keys: "CKey n False \<in> set neutral_calls \<longleftrightarrow> n \<in> snd ` set KEYS_items"
  by (auto simp: neutral_calls_def key_names_def)

lemma neutral_calls_buttons: "CButton n False \<in> set neutral_calls \<longleftrightarrow> n \<in> snd ` set BUTTONS_items"
  by (auto simp: neutral_calls_def button_names_def)

context hid_sink
begin

lemma release_each_bound:
  assumes "list_all is_release cs" "release_each k cs failed s = (s', r)"
  shows "keys_out s' \<subseteq> keys_out s" "buttons_out s' \<subseteq> buttons_out s"
    and "r = None \<Longrightarrow> \<not> failed \<and> keys_out s' \<subseteq> keys_out s - {n. CKey n False \<in> set cs} \<and>
           buttons_out s' \<subseteq> buttons_out s - {n. CButton n False \<in> set cs}"
proof -
  have "keys_out s' \<subseteq> keys_out s \<and> buttons_out s' \<subseteq> buttons_out s \<and>
    (r = None \<longrightarrow> \<not> failed \<and> keys_out s' \<subseteq> keys_out s - {n. CKey n False \<in> set cs} \<and>
           buttons_out s' \<subseteq> buttons_out s - {n. CButton n False \<in> set cs})"
    using assms
  proof (induction cs arbitrary: failed s)
    case (Cons c cs)
    obtain s1 r1 where c: "send k c s = (s1, r1)" by fastforce
    obtain n where n: "c = CKey n False \<or> c = CButton n False"
      using Cons.prems(1) by (auto simp: is_release_def)
    have k1: "keys_out s1 \<subseteq> keys_out s" "r1 = None \<and> c = CKey n False \<Longrightarrow> n \<notin> keys_out s1"
      and b1: "buttons_out s1 \<subseteq> buttons_out s" "r1 = None \<and> c = CButton n False \<Longrightarrow> n \<notin> buttons_out s1"
      using keys_bound [OF c] buttons_bound [OF c] n by (auto split: if_splits)
    show ?case
    proof (cases r1)
      case None
      then have "release_each k cs failed s1 = (s', r)" using Cons.prems(2) c by simp
      from Cons.IH [OF _ this] Cons.prems(1) k1 b1 None n show ?thesis by auto
    next
      case (Some e)
      show ?thesis
      proof (cases "e = BackendError")
        case True
        then have "release_each k cs True s1 = (s', r)" using Cons.prems(2) c Some by simp
        from Cons.IH [OF _ this] Cons.prems(1) k1 b1 show ?thesis by auto
      next
        case False
        then have "s' = s1 \<and> r = Some e" using Cons.prems(2) c Some by auto
        then show ?thesis using k1 b1 by simp
      qed
    qed
  qed (auto split: if_splits)
  then show "keys_out s' \<subseteq> keys_out s" "buttons_out s' \<subseteq> buttons_out s"
    and "r = None \<Longrightarrow> \<not> failed \<and> keys_out s' \<subseteq> keys_out s - {n. CKey n False \<in> set cs} \<and>
           buttons_out s' \<subseteq> buttons_out s - {n. CButton n False \<in> set cs}"
    by blast+
qed

lemma neutralize_bound:
  assumes "neutralize k s = (s', r)"
  shows "keys_out s' \<subseteq> keys_out s \<and> buttons_out s' \<subseteq> buttons_out s \<and>
    (r = None \<longrightarrow> keys_out s' \<subseteq> keys_out s - snd ` set KEYS_items \<and>
                 buttons_out s' \<subseteq> buttons_out s - snd ` set BUTTONS_items)"
proof -
  have "list_all is_release neutral_calls"
    using neutral_calls_release by (simp add: list_all_iff)
  from release_each_bound [OF this assms [unfolded neutralize_def]] show ?thesis
    by (simp add: neutral_calls_keys neutral_calls_buttons)
qed

lemma wake_calls_bound:
  assumes "send_all k (wake_calls a b) s = (s', r)"
  shows "keys_out s' \<subseteq> insert ''ShiftLeft'' (keys_out s) \<and> buttons_out s' \<subseteq> buttons_out s \<and>
    (r = None \<longrightarrow> keys_out s' \<subseteq> keys_out s)"
proof -
  have report: "keys_out s2 \<subseteq> keys_out s1 \<and> buttons_out s2 \<subseteq> buttons_out s1"
    if "send_all k (if b then [CWheel 0 0] else []) s1 = (s2, r2)" for s1 s2 r2
    by (rule send_all_reports [OF _ that]) simp
  show ?thesis
  proof (cases a)
    case False
    then show ?thesis using report [of s s' r] assms by (auto simp: wake_calls_def)
  next
    case True
    obtain s1 r1 where 1: "send k (CKey ''ShiftLeft'' True) s = (s1, r1)" by fastforce
    note k1 = keys_bound [OF 1] buttons_bound [OF 1]
    show ?thesis
    proof (cases r1)
      case (Some e)
      then show ?thesis using assms True 1 k1 by (auto simp: wake_calls_def)
    next
      case None
      obtain s2 r2 where 2: "send k (CKey ''ShiftLeft'' False) s1 = (s2, r2)" by fastforce
      note k2 = keys_bound [OF 2] buttons_bound [OF 2]
      show ?thesis
      proof (cases r2)
        case (Some e)
        then show ?thesis using assms True 1 None 2 k1 k2 by (auto simp: wake_calls_def) blast
      next
        case None2: None
        then have "send_all k (if b then [CWheel 0 0] else []) s2 = (s', r)"
          using assms True 1 None 2 by (simp add: wake_calls_def)
        then show ?thesis using report [of s2 s' r] k1 k2 None None2 by auto
      qed
    qed
  qed
qed

end

text \<open>the mode shown with an active output that is the target, or none\<close>
definition mode_in_use :: "bool \<Rightarrow> json \<Rightarrow> bool" where
  "mode_in_use absolute state \<longleftrightarrow>
     (\<exists>kb mouse outputs. hid_parts state = Inr (kb, mouse) \<and> same_mode mouse absolute = Inr True \<and>
        py_get mouse ''outputs'' (JObj []) = Inr outputs \<and>
        py_get outputs ''active'' (JStr []) \<in> {Inr (JStr []), Inr (JStr (mouse_target absolute))})"

lemma shows_in_use:
  "shows_mode absolute (JStr []) {JStr [], JStr (mouse_target absolute)} state \<Longrightarrow> mode_in_use absolute state"
  by (auto simp: shows_mode_def mode_in_use_def)

lemma py_get_default: "py_get j name d = Inr v \<Longrightarrow> v \<noteq> d \<Longrightarrow> py_get j name d' = Inr v"
  by (cases j) (auto split: option.splits)

lemma mouse_target_str: "JStr (mouse_target b) \<noteq> JNull" by simp

lemma confirmed_in_use:
  "shows_mode absolute JNull {JStr (mouse_target absolute)} state \<Longrightarrow> mode_in_use absolute state"
  unfolding shows_mode_def mode_in_use_def
  using py_get_default [OF _ mouse_target_str, of _ "''active''" _ "JStr []"] by fastforce

lemma select_mouse_shows:
  assumes "select_mouse (logged rq) m st = (st', None)"
  shows "\<exists>state. last_read state st' \<and> usable state \<and> mode_in_use (m = ''absolute'') state"
  using assms
proof (cases rule: select_mouse_cases)
  case (already state)
  then show ?thesis using shows_in_use by blast
next
  case (posted state st1 st2 j)
  then have "confirm_loop (logged rq) (m = ''absolute'') (mouse_target (m = ''absolute'')) 5 st2 = (st', None)"
    by blast
  then show ?thesis
    using confirm_loop_logged(2) confirmed_in_use by blast
qed simp_all

definition one_change :: "string \<Rightarrow> log_entry list \<Rightarrow> bool" where
  "one_change target new \<longleftrightarrow>
     list_all probe new \<or>
     (\<exists>a e b. new = a @ e # b \<and> list_all probe a \<and> set_params_entry target e \<and> list_all probe b \<and>
        (\<exists>state rest. b = (''GET'', ''/hid'', [], Inr state) # rest \<and> offers target state))"

lemma select_mouse_requests:
  assumes "select_mouse (logged rq) m (s, []) = ((s', lg), r)"
  shows "length lg \<le> 31 \<and> one_change (mouse_target (m = ''absolute'')) lg"
  using assms
proof (cases rule: select_mouse_cases)
  case (posted state st1 st2 j)
  let ?t = "mouse_target (m = ''absolute'')"
  from posted(2) have b: "length (snd st1) \<le> 5" "list_all probe (snd st1)"
    by (auto simp: grew_def)
  have "\<exists>a. lg = a @ snd st2 \<and> length a \<le> 25 \<and> list_all probe a"
  proof (rule disjE [OF posted(7)])
    assume "confirm_loop (logged rq) (m = ''absolute'') ?t 5 st2 = ((s', lg), r)"
    from confirm_loop_logged(1) [OF this] show ?thesis by (auto simp: grew_def)
  qed auto
  then obtain a where "lg = a @ snd st2" "length a \<le> 25" "list_all probe a" by blast
  with b posted(3, 5, 6) show ?thesis
    unfolding one_change_def by (fastforce simp: last_read_def set_params_entry_def)
qed (auto simp: one_change_def grew_def)

text \<open>
  C16. \<open>select_mouse\<close> sends at most 31 requests: reads and neutral reports, and at most one
  change of the output, right after a state that offers it.  When it returns, the last
  state read from kvmd is usable and shows the mode with the output of that mode
  active, or with no output to select.
\<close>

theorem select_mouse_confirmed:
  assumes "select_mouse (logged rq) m (s, []) = ((s', lg), r)"
  shows "length lg \<le> 31 \<and> one_change (mouse_target (m = ''absolute'')) lg \<and>
    (r = None \<longrightarrow>
      (\<exists>state. last_read state (s', lg) \<and> usable state \<and> mode_in_use (m = ''absolute'') state))"
  using select_mouse_requests [OF assms] select_mouse_shows assms by blast

lemma release_each_fake:
  "list_all is_release cs \<Longrightarrow> release_each (fake_sink fd fr) cs failed evs =
     (evs @ cs, if failed \<or> fr \<and> cs \<noteq> [] then Some BackendError else None)"
  by (induction cs arbitrary: failed evs) (auto simp: fake_sink_def is_release_def)

text \<open>
  \<open>neutralize\<close> attempts the release of every key and button of the tables whatever
  fails, and raises if anything failed.
\<close>

lemma neutralize_sweeps:
  "neutralize (fake_sink fd fr) evs = (evs @ neutral_calls, if fr then Some BackendError else None) \<and>
   (CKey n False \<in> set neutral_calls \<longleftrightarrow> (\<exists>v. KEYS v = Some n)) \<and>
   (CButton n False \<in> set neutral_calls \<longleftrightarrow> (\<exists>b. BUTTONS b = Some n))"
proof -
  have "list_all is_release neutral_calls"
    using neutral_calls_release by (auto simp: list_all_iff)
  moreover have "neutral_calls \<noteq> []"
    using neutral_calls_buttons [of "''left''"] by (auto simp: BUTTONS_items_def)
  moreover have "(\<exists>v. KEYS v = Some n) \<longleftrightarrow> n \<in> snd ` set KEYS_items"
    unfolding ran_KEYS [symmetric] by (simp add: ran_def)
  moreover have "(\<exists>b. BUTTONS b = Some n) \<longleftrightarrow> n \<in> snd ` set BUTTONS_items"
    unfolding BUTTONS_range by force
  ultimately show ?thesis
    by (simp add: neutralize_def release_each_fake neutral_calls_keys neutral_calls_buttons)
qed

text \<open>A kvmd with two outputs that switches when it is told to.\<close>

definition two_outputs :: "bool requester" where
  "two_outputs verb path params s =
     (let s' = (if verb = ''POST'' then params = [(''mouse_output'', ''usb'')] else s) in
      (s', Inr (JObj
         [(''enabled'', JBool True), (''keyboard'', JObj [(''online'', JBool True)]),
          (''mouse'', JObj [(''online'', JBool True), (''absolute'', JBool s'),
             (''outputs'', JObj [(''active'', JStr (mouse_target s')),
                (''available'', JList [JStr ''usb'', JStr ''usb_rel''])])])])))"

lemma two_outputs_switch:
  "\<exists>lg. select_mouse (logged two_outputs) ''absolute'' (False, []) = ((True, lg), None) \<and> length lg = 3"
  by (simp add: select_mouse_def check_def read_state_def logged_def two_outputs_def hid_parts_def
      flag_set_def offline_def py_not_def confirm_def must_select_def already_selected_def same_mode_def
      mouse_target_def selection_confirmed_def eval_nat_numeral Let_def)

theorem select_mouse_confirmed_witness:
  "\<exists>lg state. select_mouse (logged two_outputs) ''absolute'' (False, []) = ((True, lg), None) \<and>
     one_change ''usb'' lg \<and> last_read state (True, lg) \<and> mode_in_use True state"
proof -
  obtain lg where s: "select_mouse (logged two_outputs) ''absolute'' (False, []) = ((True, lg), None)"
    using two_outputs_switch by blast
  from select_mouse_confirmed [OF s] s show ?thesis by (auto simp: mouse_target_def)
qed

end
