(* ===== verification/Hid_Server.thy ===== *)
theory Hid_Server
  imports Hid_Lease_Laws Hid_Kvmd_Laws
begin

text \<open>
  The class \<open>Server\<close> of \<open>python/rkmoon_hid/server.py\<close> and the start-up of
  \<open>__main__.py\<close>: one lease at a time, admission, the session's three workers,
  the clean-up of a session, the retry of a failed release and the blocked
  start.

  A task runs without interruption between two awaits, so a step of the
  relation is one such stretch; what happens in which order is the relation's
  choice.  The outside world is a pair of a state \<open>'s\<close> (kvmd, the socket, the
  USB host: it may change at any time) and the trace of theory \<open>Hid_Sink\<close>.
  Applying one event and one release are single steps: their only awaits are
  backend calls, and no other task reads the lease meanwhile.  A call that is
  cancelled or times out is a call that raises.  \<open>hello_failed\<close> and
  \<open>connection_lost\<close> may fire at any time, since a peer may send anything, hang up
  or send nothing until the time limit.
\<close>

section \<open>Tracing the HTTP client\<close>

text \<open>The key or button call an HTTP request stands for.\<close>

definition request_call :: "string \<Rightarrow> (string \<times> string) list \<Rightarrow> call option" where
  "request_call path params =
     (if path = ''/hid/events/send_key'' then
        (case params of
           [(_, k), (_, st), _] \<Rightarrow> Some (CKey k (st = ''true''))
         | _ \<Rightarrow> None)
      else if path = ''/hid/events/send_mouse_button'' then
        (case params of
           [(_, b), (_, st)] \<Rightarrow> Some (CButton b (st = ''true''))
         | _ \<Rightarrow> None)
      else None)"

definition traced_rq :: "'s requester \<Rightarrow> ('s \<times> trace) requester" where
  "traced_rq rq verb path params st =
     (case rq verb path params (fst st) of
        (s', r) \<Rightarrow>
          ((s', (case request_call path params of
                   None \<Rightarrow> snd st
                 | Some c \<Rightarrow> Sent Http c (\<not> isl r) # snd st)), r))"

section \<open>The handshake\<close>

definition mode_str :: "mouse_mode \<Rightarrow> string" where
  "mode_str m = (case m of Relative \<Rightarrow> ''relative'' | Absolute \<Rightarrow> ''absolute'')"

text \<open>
  \<open>hello != expected\<close> compares dictionaries: the same keys and equal values,
  where \<open>True == 1\<close>; the type test that follows excludes that one.
\<close>

definition hello_mode :: "json \<Rightarrow> mouse_mode res" where
  "hello_mode j =
     (case j of
        JObj fs \<Rightarrow>
          (let mode = (case map_of fs ''mouse_mode'' of None \<Rightarrow> JStr ''relative'' | Some v \<Rightarrow> v);
               names = [''op'', ''version''] @
                 (if ''mouse_mode'' \<in> set (map fst fs) then [''mouse_mode''] else [])
           in
             if set (map fst fs) \<noteq> set names \<or> map_of fs ''op'' \<noteq> Some (JStr ''hello'') then
               Inl InputError
             else
               (case map_of fs ''version'' of
                  Some (JInt v) \<Rightarrow>
                    if v \<noteq> 1 then Inl InputError
                    else
                      (case in_str_set mode [''relative'', ''absolute''] of
                         Inl e \<Rightarrow> Inl e
                       | Inr False \<Rightarrow> Inl InputError
                       | Inr True \<Rightarrow> Inr (if mode = JStr ''absolute'' then Absolute else Relative))
                | _ \<Rightarrow> Inl InputError))
      | _ \<Rightarrow> Inl InputError)"

definition hello_line :: "(string \<Rightarrow> json res) \<Rightarrow> string \<Rightarrow> mouse_mode res" where
  "hello_line decode line =
     (if length line > 512 then Inl InputError
      else (case decode line of Inl e \<Rightarrow> Inl e | Inr j \<Rightarrow> hello_mode j))"

section \<open>One line of a session\<close>

text \<open>
  The body of the loop in \<open>read_events\<close>: \<open>None\<close> when the reader returns (end of
  the input, or \<open>bye\<close>), else the queue after the line.
\<close>

definition session_line :: "(string \<Rightarrow> json res) \<Rightarrow> string \<Rightarrow> queue \<Rightarrow> queue option res" where
  "session_line decode line q =
     (if line = [] then Inr None
      else if length line > 512 then Inl InputError
      else
        (case decode line of
           Inl e \<Rightarrow> Inl e
         | Inr j \<Rightarrow>
             (case parse_event j of
                Inl e \<Rightarrow> Inl e
              | Inr ev \<Rightarrow>
                  if ev = EBye then Inr None
                  else if ev = EPing then Inr (Some q)
                  else (case put q ev of Inl e \<Rightarrow> Inl e | Inr q' \<Rightarrow> Inr (Some q')))))"

section \<open>States\<close>

text \<open>
  Where a handler stands.  \<open>Accepted u\<close>: connected by a peer with user id \<open>u\<close>,
  not yet run.  \<open>Serving l q b t\<close>: the workers run; \<open>b\<close> says whether events go
  to the stream, \<open>t\<close> is \<open>last\<close>.  \<open>Closing owns l b\<close> to \<open>Releasing\<close> are the
  awaits of the \<open>finally\<close> block.  \<open>Aborted owns\<close>: cancelled inside it.
\<close>

datatype phase =
    Accepted int
  | Rejecting
  | Greeting
  | Selecting mouse_mode
  | Opening mouse_mode
  | Replying lease bool rat
  | Serving lease queue bool rat
  | Closing bool "lease option" bool
  | Flushing "lease option"
  | Releasing "lease option"
  | Done
  | Aborted bool

datatype recovery_task = Retry lease | Recover

record 's bridge =
  busy :: bool
  stopping :: bool
  active_writer :: "nat option"
  last_highwater :: nat
  recovery :: "recovery_task option"
  conns :: "nat \<Rightarrow> phase option"
  swept :: bool
  cancelling :: "nat set"
  now :: rat
  net :: "'s \<times> trace"

text \<open>What the bridge is given: kvmd, the stream, \<open>json.loads\<close>, its own settings.\<close>

record 's config =
  http :: "'s requester"
  ws :: "'s sink"
  decode :: "string \<Rightarrow> json res"
  owner_uid :: int
  timeout :: rat

definition http_rq :: "'s config \<Rightarrow> ('s \<times> trace) requester" where
  "http_rq C = traced_rq (http C)"

definition http_sink :: "'s config \<Rightarrow> ('s \<times> trace) sink" where
  "http_sink C = kvmd_sink (http_rq C)"

text \<open>\<open>events or backend\<close>\<close>

definition event_sink :: "'s config \<Rightarrow> bool \<Rightarrow> ('s \<times> trace) sink" where
  "event_sink C b = (if b then traced Ws (ws C) else http_sink C)"

definition goto :: "nat \<Rightarrow> phase \<Rightarrow> 's bridge \<Rightarrow> 's bridge" where
  "goto i p \<sigma> = \<sigma>\<lparr>conns := (conns \<sigma>)(i \<mapsto> p)\<rparr>"

text \<open>The tasks \<open>close\<close> cancels, and what the cancellation makes of them.\<close>

fun running :: "phase \<Rightarrow> bool" where
  "running (Accepted u) = False"
| "running Done = False"
| "running (Aborted b) = False"
| "running p = True"

fun after_cancel :: "phase \<Rightarrow> phase" where
  "after_cancel Rejecting = Closing False None False"
| "after_cancel Greeting = Closing True None False"
| "after_cancel (Selecting m) = Closing True None False"
| "after_cancel (Opening m) = Closing True None False"
| "after_cancel (Replying l b t) = Closing True (Some l) b"
| "after_cancel (Serving l q b t) = Closing True (Some l) b"
| "after_cancel (Closing owns lo b) = Aborted owns"
| "after_cancel (Flushing lo) = Aborted True"
| "after_cancel (Releasing lo) = Aborted True"
| "after_cancel p = p"

section \<open>Starting\<close>

definition idle :: "'s \<times> trace \<Rightarrow> 's bridge" where
  "idle w = \<lparr>busy = False, stopping = False, active_writer = None, last_highwater = 0,
             recovery = None, conns = (\<lambda>_. None), swept = False, cancelling = {}, now = 0, net = w\<rparr>"

text \<open>\<open>block_until_neutral\<close>\<close>

definition block_until_neutral :: "'s bridge \<Rightarrow> 's bridge" where
  "block_until_neutral \<sigma> = \<sigma>\<lparr>busy := True, recovery := Some Recover\<rparr>"

definition check_and_neutralize :: "'s config \<Rightarrow> 's \<times> trace \<Rightarrow> ('s \<times> trace) \<times> exn option" where
  "check_and_neutralize C w =
     (case check (http_rq C) w of
        (w1, Inl e) \<Rightarrow> (w1, Some e)
      | (w1, Inr _) \<Rightarrow> neutralize (http_sink C) w1)"

text \<open>
  \<open>main\<close> up to \<open>listen\<close>.  Without the authorisation nothing is sent; with
  \<open>--release-all\<close> it only neutralises; an exception that is not a
  \<open>BackendError\<close> ends the process.
\<close>

datatype 's launch =
    Unauthorized
  | Released "'s \<times> trace" "exn option"
  | Crashed "'s \<times> trace" exn
  | Started "'s bridge"

definition start :: "'s config \<Rightarrow> bool \<Rightarrow> bool \<Rightarrow> 's \<times> trace \<Rightarrow> 's launch" where
  "start C authorized release_all w =
     (if \<not> authorized then Unauthorized
      else if release_all then
        (case neutralize (http_sink C) w of (w', r) \<Rightarrow> Released w' r)
      else
        (case check_and_neutralize C w of
           (w', None) \<Rightarrow> Started (idle w')
         | (w', Some e) \<Rightarrow>
             if e = BackendError then Started (block_until_neutral (idle w'))
             else Crashed w' e))"

section \<open>Steps\<close>

inductive step :: "'s config \<Rightarrow> 's bridge \<Rightarrow> 's bridge \<Rightarrow> bool" for C :: "'s config" where
  connect: "conns \<sigma> i = None \<Longrightarrow> step C \<sigma> (goto i (Accepted u) \<sigma>)"
| unknown_peer:
    "conns \<sigma> i = Some (Accepted u) \<Longrightarrow> step C \<sigma> (goto i (Closing False None False) \<sigma>)"
| reject:
    "conns \<sigma> i = Some (Accepted u) \<Longrightarrow> u \<noteq> owner_uid C \<or> busy \<sigma> \<or> stopping \<sigma> \<Longrightarrow>
     step C \<sigma> (goto i Rejecting \<sigma>)"
| admit:
    "conns \<sigma> i = Some (Accepted u) \<Longrightarrow> \<not> (u \<noteq> owner_uid C \<or> busy \<sigma> \<or> stopping \<sigma>) \<Longrightarrow>
     step C \<sigma> (goto i Greeting (\<sigma>\<lparr>busy := True, active_writer := Some i\<rparr>))"
| rejected: "conns \<sigma> i = Some Rejecting \<Longrightarrow> step C \<sigma> (goto i (Closing False None False) \<sigma>)"
| hello:
    "conns \<sigma> i = Some Greeting \<Longrightarrow> hello_line (decode C) line = Inr m \<Longrightarrow>
     step C \<sigma> (goto i (Selecting m) \<sigma>)"
| hello_failed:
    "conns \<sigma> i = Some Greeting \<Longrightarrow> step C \<sigma> (goto i (Closing True None False) \<sigma>)"
| selected:
    "conns \<sigma> i = Some (Selecting m) \<Longrightarrow>
     select_mouse (http_rq C) (mode_str m) (net \<sigma>) = (w', None) \<Longrightarrow>
     step C \<sigma> (goto i (Opening m) (\<sigma>\<lparr>net := w'\<rparr>))"
| select_failed:
    "conns \<sigma> i = Some (Selecting m) \<Longrightarrow>
     select_mouse (http_rq C) (mode_str m) (net \<sigma>) = (w', Some e) \<Longrightarrow>
     step C \<sigma> (goto i (Closing True None False) (\<sigma>\<lparr>net := w'\<rparr>))"
| opened:
    "conns \<sigma> i = Some (Opening m) \<Longrightarrow>
     step C \<sigma> (goto i (Replying (new_lease m) b (now \<sigma>)) \<sigma>)"
| replied:
    "conns \<sigma> i = Some (Replying l b t) \<Longrightarrow>
     step C \<sigma> (goto i (Serving l (new_queue 256) b t) \<sigma>)"
| reply_failed:
    "conns \<sigma> i = Some (Replying l b t) \<Longrightarrow> step C \<sigma> (goto i (Closing True (Some l) b) \<sigma>)"
| read_line:
    "conns \<sigma> i = Some (Serving l q b t) \<Longrightarrow> session_line (decode C) line q = Inr (Some q') \<Longrightarrow>
     step C \<sigma> (goto i (Serving l q' b (now \<sigma>)) \<sigma>)"
| read_end:
    "conns \<sigma> i = Some (Serving l q b t) \<Longrightarrow> session_line (decode C) line q = Inr None \<Longrightarrow>
     step C \<sigma> (goto i (Closing True (Some l) b) (\<sigma>\<lparr>last_highwater := highwater q\<rparr>))"
| read_failed:
    "conns \<sigma> i = Some (Serving l q b t) \<Longrightarrow> session_line (decode C) line q = Inl e \<Longrightarrow>
     step C \<sigma> (goto i (Closing True (Some l) b) \<sigma>)"
| connection_lost:
    "conns \<sigma> i = Some (Serving l q b t) \<Longrightarrow> step C \<sigma> (goto i (Closing True (Some l) b) \<sigma>)"
| consume:
    "conns \<sigma> i = Some (Serving l q b t) \<Longrightarrow> pop q = (Some ev, q') \<Longrightarrow>
     apply_event (event_sink C b) ev l (net \<sigma>) = (l', w', None) \<Longrightarrow>
     step C \<sigma> (goto i (Serving l' q' b t) (\<sigma>\<lparr>net := w'\<rparr>))"
| consume_failed:
    "conns \<sigma> i = Some (Serving l q b t) \<Longrightarrow> pop q = (Some ev, q') \<Longrightarrow>
     apply_event (event_sink C b) ev l (net \<sigma>) = (l', w', Some e) \<Longrightarrow>
     step C \<sigma> (goto i (Closing True (Some l') b) (\<sigma>\<lparr>net := w'\<rparr>))"
| watchdog:
    "conns \<sigma> i = Some (Serving l q b t) \<Longrightarrow> now \<sigma> - t > timeout C \<Longrightarrow>
     step C \<sigma> (goto i (Closing True (Some l) b) \<sigma>)"
| closed_rejected:
    "conns \<sigma> i = Some (Closing False lo b) \<Longrightarrow> step C \<sigma> (goto i Done \<sigma>)"
| closed_stream:
    "conns \<sigma> i = Some (Closing True lo True) \<Longrightarrow> step C \<sigma> (goto i (Flushing lo) \<sigma>)"
| closed_plain:
    "conns \<sigma> i = Some (Closing True lo False) \<Longrightarrow>
     step C \<sigma> (goto i (Releasing lo) (\<sigma>\<lparr>active_writer := None\<rparr>))"
| flushed:
    "conns \<sigma> i = Some (Flushing lo) \<Longrightarrow>
     step C \<sigma> (goto i (Releasing lo)
       (\<sigma>\<lparr>active_writer := None, net := (fst (net \<sigma>), Flushed ok # snd (net \<sigma>))\<rparr>))"
| no_lease:
    "conns \<sigma> i = Some (Releasing None) \<Longrightarrow> step C \<sigma> (goto i Done (\<sigma>\<lparr>busy := False\<rparr>))"
| released:
    "conns \<sigma> i = Some (Releasing (Some l)) \<Longrightarrow>
     release (http_sink C) l (net \<sigma>) = (l', w', True) \<Longrightarrow>
     step C \<sigma> (goto i Done (\<sigma>\<lparr>busy := False, net := w'\<rparr>))"
| release_failed:
    "conns \<sigma> i = Some (Releasing (Some l)) \<Longrightarrow>
     release (http_sink C) l (net \<sigma>) = (l', w', False) \<Longrightarrow>
     step C \<sigma> (goto i Done (\<sigma>\<lparr>recovery := Some (Retry l'), net := w'\<rparr>))"
| retry:
    "recovery \<sigma> = Some (Retry l) \<Longrightarrow> release (http_sink C) l (net \<sigma>) = (l', w', ok) \<Longrightarrow>
     step C \<sigma> (\<sigma>\<lparr>busy := (busy \<sigma> \<and> \<not> ok), recovery := (if ok then None else Some (Retry l')), net := w'\<rparr>)"
| retry_last:
    "recovery \<sigma> = Some (Retry l) \<Longrightarrow> stopping \<sigma> \<Longrightarrow>
     release (http_sink C) l (net \<sigma>) = (l', w', ok) \<Longrightarrow>
     step C \<sigma> (\<sigma>\<lparr>recovery := None, net := w'\<rparr>)"
| recover:
    "recovery \<sigma> = Some Recover \<Longrightarrow> check_and_neutralize C (net \<sigma>) = (w', r) \<Longrightarrow>
     step C \<sigma> (\<sigma>\<lparr>busy := (busy \<sigma> \<and> r \<noteq> None), recovery := (if r = None then None else Some Recover),
                 net := w'\<rparr>)"
| recover_last:
    "recovery \<sigma> = Some Recover \<Longrightarrow> stopping \<sigma> \<Longrightarrow> step C \<sigma> (\<sigma>\<lparr>recovery := None\<rparr>)"
| stop: "step C \<sigma> (\<sigma>\<lparr>stopping := True\<rparr>)"
| cancel_all:
    "stopping \<sigma> \<Longrightarrow> \<not> swept \<sigma> \<Longrightarrow>
     step C \<sigma> (\<sigma>\<lparr>swept := True, cancelling := {i. \<exists>p. conns \<sigma> i = Some p \<and> running p}\<rparr>)"
| cancelled:
    "i \<in> cancelling \<sigma> \<Longrightarrow> conns \<sigma> i = Some p \<Longrightarrow>
     step C \<sigma> (goto i (after_cancel p) (\<sigma>\<lparr>cancelling := cancelling \<sigma> - {i}\<rparr>))"
| cancelled_selecting:
    "i \<in> cancelling \<sigma> \<Longrightarrow> conns \<sigma> i = Some (Selecting m) \<Longrightarrow>
     select_mouse (http_rq C) (mode_str m) (net \<sigma>) = (w', Some e) \<Longrightarrow>
     step C \<sigma> (goto i (Closing True None False)
       (\<sigma>\<lparr>cancelling := cancelling \<sigma> - {i}, net := w'\<rparr>))"
| cancelled_consuming:
    "i \<in> cancelling \<sigma> \<Longrightarrow> conns \<sigma> i = Some (Serving l q b t) \<Longrightarrow> pop q = (Some ev, q') \<Longrightarrow>
     apply_event (event_sink C b) ev l (net \<sigma>) = (l', w', Some e) \<Longrightarrow>
     step C \<sigma> (goto i (Closing True (Some l') b)
       (\<sigma>\<lparr>cancelling := cancelling \<sigma> - {i}, net := w'\<rparr>))"
| cancelled_releasing:
    "i \<in> cancelling \<sigma> \<Longrightarrow> conns \<sigma> i = Some (Releasing (Some l)) \<Longrightarrow>
     release (http_sink C) l (net \<sigma>) = (l', (s', post @ pre @ snd (net \<sigma>)), ok) \<Longrightarrow>
     step C \<sigma> (goto i (Aborted True)
       (\<sigma>\<lparr>cancelling := cancelling \<sigma> - {i}, net := (s', pre @ snd (net \<sigma>))\<rparr>))"
| tick: "0 \<le> d \<Longrightarrow> step C \<sigma> (\<sigma>\<lparr>now := now \<sigma> + d\<rparr>)"
| outside: "step C \<sigma> (\<sigma>\<lparr>net := (s', snd (net \<sigma>))\<rparr>)"

end
