(* ===== verification/Hid_Server_Laws.thy ===== *)
theory Hid_Server_Laws
  imports Hid_Server
begin

text \<open>
  The invariants of the bridge: one owner at a time, somebody is always
  responsible for a busy bridge, and no key stays down in an idle one.
\<close>

section \<open>The sinks of the bridge\<close>

lemma request_call_event:
  "event_request c = Some (path, params) \<Longrightarrow>
     request_call path params = (if is_report c then None else Some c)"
  by (cases c) (auto simp: request_call_def bool_str_def)

lemma traced_rq_call:
  assumes "kvmd_call (traced_rq rq) c st = (st', r)"
  shows "snd st' = snd st \<or> \<not> is_report c \<and> snd st' = Sent Http c (r = None) # snd st"
    and "\<not> is_report c \<Longrightarrow> snd st' = Sent Http c (r = None) # snd st"
proof -
  have "(is_report c \<longrightarrow> snd st' = snd st) \<and>
      (\<not> is_report c \<longrightarrow> snd st' = Sent Http c (r = None) # snd st)"
  proof (cases "event_request c")
    case None
    then have "is_report c" by (cases c) simp_all
    with None show ?thesis using assms by (simp add: kvmd_call_def)
  next
    case (Some pp)
    then obtain path params where e: "event_request c = Some (path, params)" by (cases pp) simp
    obtain s' j where q: "rq ''POST'' path params (fst st) = (s', j)" by fastforce
    show ?thesis using assms
      by (cases j) (auto simp: kvmd_call_def e traced_rq_def q request_call_event [OF e])
  qed
  then show "snd st' = snd st \<or> \<not> is_report c \<and> snd st' = Sent Http c (r = None) # snd st"
    and "\<not> is_report c \<Longrightarrow> snd st' = Sent Http c (r = None) # snd st"
    by blast+
qed

text \<open>The client of \<open>Hid_Kvmd\<close> is a sink in the sense of the lease.\<close>

interpretation kv: hid_sink "kvmd_sink (traced_rq rq)" "\<lambda>st. open_keys (snd st)"
    "\<lambda>st. open_buttons (snd st)"
  for rq :: "'s requester"
proof unfold_locales
  fix c and s s' :: "'s \<times> trace" and r
  assume "send (kvmd_sink (traced_rq rq)) c s = (s', r)"
  then have c: "kvmd_call (traced_rq rq) c s = (s', r)" by (simp add: kvmd_sink_def)
  show "open_keys (snd s') \<subseteq> key_effect c (r = None) (open_keys (snd s))"
    and "open_buttons (snd s') \<subseteq> button_effect c (r = None) (open_buttons (snd s))"
    using traced_rq_call [OF c] by (cases "is_report c"; auto)+
qed

text \<open>
  The neutral taps of \<open>wake\<close> use \<open>ShiftLeft\<close> without a lease.  Leaving one name
  out of the record keeps the interface.
\<close>

lemma hid_sink_minus:
  assumes "hid_sink k K B"
  shows "hid_sink k (\<lambda>s. K s - X) B"
proof -
  have minus: "key_effect c ok S - X \<subseteq> key_effect c ok (S - X)" for c ok S
    by (cases "(c, ok, S)" rule: key_effect.cases) auto
  show ?thesis
    using assms minus unfolding hid_sink_def by (meson Diff_mono order_refl subset_trans)
qed

definition keys_apart :: "'s \<times> trace \<Rightarrow> string set" where
  "keys_apart w = open_keys (snd w) - {''ShiftLeft''}"

definition buttons_open :: "'s \<times> trace \<Rightarrow> string set" where
  "buttons_open w = open_buttons (snd w)"

interpretation es: hid_sink "event_sink C b" keys_apart buttons_open
  for C :: "'s config" and b
proof -
  have "hid_sink (event_sink C b) (\<lambda>w. open_keys (snd w)) (\<lambda>w. open_buttons (snd w))"
    unfolding event_sink_def http_sink_def http_rq_def
    by (cases b) (simp_all add: tr.hid_sink_axioms kv.hid_sink_axioms)
  from hid_sink_minus [OF this, of "{''ShiftLeft''}"]
  show "hid_sink (event_sink C b) keys_apart buttons_open"
    by (simp add: keys_apart_def [abs_def] buttons_open_def [abs_def])
qed

lemma http_event_sink: "http_sink C = event_sink C False"
  by (simp add: event_sink_def)

section \<open>Selection and recovery on the trace\<close>

lemma traced_rq_quiet:
  assumes "traced_rq rq verb path params w = (w', r)" and "request_call path params = None"
  shows "snd w' = snd w"
  using assms by (auto simp: traced_rq_def split: prod.splits)

lemma read_state_quiet:
  assumes "read_state (traced_rq rq) w = (w', r)"
  shows "snd w' = snd w"
proof -
  obtain w1 j where q: "traced_rq rq ''GET'' ''/hid'' [] w = (w1, j)" by fastforce
  then have "w' = w1" using assms by (auto simp: read_state_def split: sum.splits)
  then show ?thesis using traced_rq_quiet [OF q] by (simp add: request_call_def)
qed

lemma check_cases:
  assumes "check rq w = (w', r)"
  obtains (first) x where "read_state rq w = (w', x)"
  | (tap_failed) x w1 a b e where "read_state rq w = (w1, x)" "wake rq a b w1 = (w', Some e)" "r = Inl e"
  | (reread) x w1 a b w2 y where "read_state rq w = (w1, x)" "wake rq a b w1 = (w2, None)"
      "read_state rq w2 = (w', y)"
proof -
  obtain w1 x where q: "read_state rq w = (w1, x)" by fastforce
  show thesis
  proof (cases "w' = w1")
    case True
    with q first show thesis by blast
  next
    case False
    then obtain state kb m a b where x: "x = Inr (state, kb, m)"
      "py_and (flag_set ''enabled'' state) (offline kb m) = Inr True"
      "py_not (flag_set ''online'' kb) = Inr a" "py_not (flag_set ''online'' m) = Inr b"
      using assms q
      by (auto simp: check_def simp del: py_not_Inr split: sum.splits bool.splits)
    obtain w2 y where k: "wake rq a b w1 = (w2, y)" by fastforce
    show thesis
    proof (cases y)
      case (Some e)
      then have "w' = w2" "r = Inl e" using assms q x k by (auto simp: check_def)
      with q k Some tap_failed show thesis by blast
    next
      case None
      obtain w3 z where "read_state rq w2 = (w3, z)" by fastforce
      moreover from this have "w' = w3"
        using assms q x k None by (auto simp: check_def split: sum.splits)
      ultimately show thesis using q k None reread by blast
    qed
  qed
qed

lemma check_trace:
  assumes "check (traced_rq rq) w = (w', r)"
  shows "open_keys (snd w') \<subseteq> insert ''ShiftLeft'' (open_keys (snd w)) \<and>
    open_buttons (snd w') \<subseteq> open_buttons (snd w) \<and>
    (r = Inr state \<longrightarrow> open_keys (snd w') \<subseteq> open_keys (snd w))"
  using assms
proof (cases rule: check_cases)
  case (first x)
  then show ?thesis using read_state_quiet [OF first] by auto
next
  case (tap_failed x w1 a b e)
  then show ?thesis
    using read_state_quiet [OF tap_failed(1)] kv.wake_calls_bound [OF tap_failed(2) [unfolded wake_def]]
    by simp
next
  case (reread x w1 a b w2 y)
  then show ?thesis
    using read_state_quiet [OF reread(1)] read_state_quiet [OF reread(3)]
      kv.wake_calls_bound [OF reread(2) [unfolded wake_def]]
    by auto
qed

lemma confirm_loop_trace:
  assumes "confirm_loop (traced_rq rq) absolute target n w = (w', r)"
  shows "open_keys (snd w') \<subseteq> insert ''ShiftLeft'' (open_keys (snd w)) \<and>
    open_buttons (snd w') \<subseteq> open_buttons (snd w) \<and>
    (r = None \<longrightarrow> open_keys (snd w') \<subseteq> open_keys (snd w))"
  using assms
proof (induction n arbitrary: w)
  case (Suc n)
  obtain w1 c where q: "check (traced_rq rq) w = (w1, c)" by fastforce
  show ?case
  proof (cases c)
    case (Inl e)
    then show ?thesis using Suc.prems q check_trace [OF q] by auto
  next
    case (Inr state)
    note b = check_trace [OF q, of state, simplified Inr simp_thms]
    have "w' = w1 \<or> confirm_loop (traced_rq rq) absolute target n w1 = (w', r)"
      using Suc.prems q Inr by (auto split: sum.splits bool.splits)
    then show ?thesis
    proof
      assume "w' = w1"
      with b show ?thesis by blast
    next
      assume "confirm_loop (traced_rq rq) absolute target n w1 = (w', r)"
      from Suc.IH [OF this] b show ?thesis by blast
    qed
  qed
qed auto

lemma select_mouse_trace:
  assumes "select_mouse (traced_rq rq) m w = (w', r)"
  shows "open_keys (snd w') \<subseteq> insert ''ShiftLeft'' (open_keys (snd w)) \<and>
    open_buttons (snd w') \<subseteq> open_buttons (snd w) \<and>
    (r = None \<longrightarrow> open_keys (snd w') \<subseteq> open_keys (snd w))"
proof -
  let ?a = "m = ''absolute''" and ?t = "mouse_target (m = ''absolute'')"
  obtain w1 c where q: "check (traced_rq rq) w = (w1, c)" by fastforce
  obtain w2 j where p: "traced_rq rq ''POST'' ''/hid/set_params'' [(''mouse_output'', ?t)] w1 = (w2, j)"
    by fastforce
  have w2: "snd w2 = snd w1" by (rule traced_rq_quiet [OF p]) (simp add: request_call_def)
  show ?thesis
  proof (cases "m \<noteq> ''relative'' \<and> m \<noteq> ''absolute''")
    case True
    then show ?thesis using assms by (auto simp: select_mouse_def)
  next
    case m: False
    show ?thesis
    proof (cases c)
      case (Inl e)
      then have "w' = w1 \<and> r \<noteq> None" using assms m q by (auto simp: select_mouse_def Let_def)
      with check_trace [OF q] show ?thesis by auto
    next
      case (Inr state)
      note b = check_trace [OF q, of state, simplified Inr simp_thms]
      have "w' = w1 \<or> w' = w2 \<or> confirm_loop (traced_rq rq) ?a ?t 5 w2 = (w', r)"
        using assms m q p Inr
        by (cases "must_select state ?a ?t"; cases j)
           (auto simp: select_mouse_def Let_def simp del: confirm_loop.simps split: bool.splits)
      then show ?thesis
      proof (elim disjE)
        assume "confirm_loop (traced_rq rq) ?a ?t 5 w2 = (w', r)"
        from confirm_loop_trace [OF this] b w2 show ?thesis by auto
      qed (use b w2 in auto)
    qed
  qed
qed

lemma check_and_neutralize_trace:
  assumes "check_and_neutralize C w = (w', r)"
    and "open_keys (snd w) \<subseteq> snd ` set KEYS_items" "open_buttons (snd w) \<subseteq> snd ` set BUTTONS_items"
  shows "open_keys (snd w') \<subseteq> snd ` set KEYS_items \<and>
    open_buttons (snd w') \<subseteq> snd ` set BUTTONS_items \<and>
    (r = None \<longrightarrow> open_keys (snd w') = {} \<and> open_buttons (snd w') = {})"
proof -
  obtain w1 c where q: "check (http_rq C) w = (w1, c)" by fastforce
  have 1: "open_keys (snd w1) \<subseteq> snd ` set KEYS_items" "open_buttons (snd w1) \<subseteq> snd ` set BUTTONS_items"
    using check_trace [OF q [unfolded http_rq_def]] assms(2,3) ShiftLeft_is_key by blast+
  show ?thesis
  proof (cases c)
    case (Inl e)
    then show ?thesis using assms(1) q 1 by (auto simp: check_and_neutralize_def)
  next
    case (Inr state)
    then have "neutralize (kvmd_sink (traced_rq (http C))) w1 = (w', r)"
      using assms(1) q by (simp add: check_and_neutralize_def http_sink_def http_rq_def)
    note n = kv.neutralize_bound [OF this]
    have "open_keys (snd w1) - snd ` set KEYS_items = {}"
      "open_buttons (snd w1) - snd ` set BUTTONS_items = {}"
      using 1 by (simp_all only: Diff_eq_empty_iff)
    with n have "r = None \<Longrightarrow> open_keys (snd w') = {} \<and> open_buttons (snd w') = {}" by simp
    moreover have "open_keys (snd w') \<subseteq> snd ` set KEYS_items"
      "open_buttons (snd w') \<subseteq> snd ` set BUTTONS_items"
      using n 1 by (meson subset_trans)+
    ultimately show ?thesis by blast
  qed
qed

lemma ex_mode: "(\<exists>m. P m) \<longleftrightarrow> P Relative \<or> P Absolute"
  by (metis mouse_mode.exhaust)

lemma mode_str_in_set:
  "in_str_set v [''relative'', ''absolute''] = Inr True \<longleftrightarrow> (\<exists>m. v = JStr (mode_str m))"
  unfolding in_str_set_True ex_mode by (simp add: mode_str_def)

lemma shown_mode:
  "(case v of None \<Rightarrow> JStr ''relative'' | Some v \<Rightarrow> v) = JStr (mode_str m) \<longleftrightarrow>
     (case v of None \<Rightarrow> m = Relative | Some v \<Rightarrow> v = JStr (mode_str m))"
  by (cases v; cases m) (simp_all add: mode_str_def)

lemma mode_read:
  "v = JStr (mode_str m) \<longleftrightarrow>
     in_str_set v [''relative'', ''absolute''] = Inr True \<and> m = (if v = JStr ''absolute'' then Absolute else Relative)"
  unfolding mode_str_in_set ex_mode by (cases m) (auto simp: mode_str_def)

lemma optional_member:
  "a \<in> S \<Longrightarrow> b \<in> S \<Longrightarrow> S = set ([a, b] @ (if c \<in> S then [c] else [])) \<longleftrightarrow> S \<subseteq> {a, b, c}"
  by (cases "c \<in> S") auto

lemma hello_fields:
  assumes "map_of fs ''op'' = Some a" and "map_of fs ''version'' = Some b"
  shows "set (map fst fs) = set ([''op'', ''version''] @ (if ''mouse_mode'' \<in> set (map fst fs) then [''mouse_mode''] else []))
     \<longleftrightarrow> fst ` set fs \<subseteq> {''op'', ''version'', ''mouse_mode''}"
proof -
  have "''op'' \<in> set (map fst fs)" "''version'' \<in> set (map fst fs)"
    using assms by (metis domI dom_map_of_conv_image_fst list.set_map)+
  from optional_member [OF this] show ?thesis unfolding set_map .
qed

text \<open>
  The handshake accepts exactly the two or three known fields with version 1 (an
  integer, not a boolean) and a known mode, relative by default.
\<close>

lemma hello_mode_iff:
  "hello_mode j = Inr m \<longleftrightarrow>
     (\<exists>fs. j = JObj fs \<and> map_of fs ''op'' = Some (JStr ''hello'') \<and> map_of fs ''version'' = Some (JInt 1) \<and>
        fst ` set fs \<subseteq> {''op'', ''version'', ''mouse_mode''} \<and>
        (case map_of fs ''mouse_mode'' of None \<Rightarrow> m = Relative | Some v \<Rightarrow> v = JStr (mode_str m)))"
proof (cases j)
  case (JObj fs)
  let ?mode = "case map_of fs ''mouse_mode'' of None \<Rightarrow> JStr ''relative'' | Some v \<Rightarrow> v"
  let ?names = "[''op'', ''version''] @ (if ''mouse_mode'' \<in> set (map fst fs) then [''mouse_mode''] else [])"
  have "hello_mode j = Inr m \<longleftrightarrow>
      set (map fst fs) = set ?names \<and> map_of fs ''op'' = Some (JStr ''hello'') \<and>
      map_of fs ''version'' = Some (JInt 1) \<and> in_str_set ?mode [''relative'', ''absolute''] = Inr True \<and>
      m = (if ?mode = JStr ''absolute'' then Absolute else Relative)"
    unfolding hello_mode_def JObj Let_def json.case
    by (auto split: option.splits json.splits if_splits sum.splits bool.splits)
  also have "\<dots> \<longleftrightarrow> fst ` set fs \<subseteq> {''op'', ''version'', ''mouse_mode''} \<and>
      map_of fs ''op'' = Some (JStr ''hello'') \<and>
      map_of fs ''version'' = Some (JInt 1) \<and> ?mode = JStr (mode_str m)"
    using hello_fields [of fs] mode_read [of ?mode m] by blast
  finally show ?thesis
    unfolding shown_mode JObj json.inject by blast
qed (simp_all add: hello_mode_def)

end
