(* ===== verification/Hid_Server_Inv.thy ===== *)
theory Hid_Server_Inv
  imports Hid_Server_Laws
begin

text \<open>
  Reachable states of the bridge and their invariants.  Ownership: at most one
  handler is past admission, it excludes a running recovery, and a bridge that
  is busy and not stopping has an owner or a recovery.  Keys: whatever may be
  down at the host (but for the neutral \<open>ShiftLeft\<close> of \<open>wake\<close>) is tracked by the
  lease of the owner or of the recovery.  Sessions: the lease and the queue of
  a serving handler are well formed.
\<close>

inductive reachable :: "'s config \<Rightarrow> 's \<times> trace \<Rightarrow> 's bridge \<Rightarrow> bool"
  for C :: "'s config" and w :: "'s \<times> trace" where
  reachable_start: "start C True False w = Started \<sigma> \<Longrightarrow> reachable C w \<sigma>"
| reachable_step: "reachable C w \<sigma> \<Longrightarrow> step C \<sigma> \<sigma>' \<Longrightarrow> reachable C w \<sigma>'"

section \<open>Ownership\<close>

text \<open>Past admission and before the end of the \<open>finally\<close> block.\<close>

fun owns :: "phase \<Rightarrow> bool" where
  "owns (Accepted u) = False"
| "owns Rejecting = False"
| "owns (Closing b lo st) = b"
| "owns Done = False"
| "owns (Aborted b) = False"
| "owns p = True"

definition holds :: "phase \<Rightarrow> bool" where
  "holds p \<longleftrightarrow> owns p \<or> p = Aborted True"

definition holders :: "'s bridge \<Rightarrow> nat set" where
  "holders \<sigma> = {i. \<exists>p. conns \<sigma> i = Some p \<and> holds p}"

definition aborted :: "'s bridge \<Rightarrow> bool" where
  "aborted \<sigma> \<longleftrightarrow> (\<exists>i b. conns \<sigma> i = Some (Aborted b))"

definition owned :: "nat set \<Rightarrow> bool \<Rightarrow> bool \<Rightarrow> bool \<Rightarrow> nat set \<Rightarrow> bool \<Rightarrow> bool" where
  "owned H bsy rec stp canc abt \<longleftrightarrow>
     (\<forall>i\<in>H. H = {i}) \<and> (H \<noteq> {} \<longrightarrow> bsy \<and> \<not> rec) \<and> (rec \<longrightarrow> bsy) \<and>
     (bsy \<and> \<not> stp \<longrightarrow> rec \<or> H \<noteq> {}) \<and> (canc \<noteq> {} \<longrightarrow> stp) \<and> (abt \<longrightarrow> stp)"

definition ownership :: "'s bridge \<Rightarrow> bool" where
  "ownership \<sigma> \<longleftrightarrow>
     owned (holders \<sigma>) (busy \<sigma>) (recovery \<sigma> \<noteq> None) (stopping \<sigma>) (cancelling \<sigma>) (aborted \<sigma>)"

lemma holds_simps [simp]:
  "\<not> holds (Accepted u)" "\<not> holds Rejecting" "holds Greeting" "holds (Selecting m)"
  "holds (Opening m)" "holds (Replying l b t)" "holds (Serving l q b t)"
  "holds (Closing b lo st) = b" "holds (Flushing lo)" "holds (Releasing lo)" "\<not> holds Done"
  "holds (Aborted b) = b"
  by (simp_all add: holds_def)

lemma holders_goto:
  "conns \<sigma>' = (conns \<sigma>)(i \<mapsto> p) \<Longrightarrow>
     holders \<sigma>' = (if holds p then insert i (holders \<sigma>) else holders \<sigma> - {i})"
  by (auto simp: holders_def)

lemma in_holders: "conns \<sigma> i = Some p \<Longrightarrow> i \<in> holders \<sigma> \<longleftrightarrow> holds p"
  by (simp add: holders_def)

lemma aborted_goto:
  "conns \<sigma>' = (conns \<sigma>)(i \<mapsto> p) \<Longrightarrow> aborted \<sigma>' \<Longrightarrow> aborted \<sigma> \<or> (\<exists>b. p = Aborted b)"
  by (auto simp: aborted_def split: if_splits)

lemma same_conns: "conns \<sigma>' = conns \<sigma> \<Longrightarrow> holders \<sigma>' = holders \<sigma> \<and> aborted \<sigma>' = aborted \<sigma>"
  by (simp add: holders_def aborted_def)

text \<open>A step of handler \<open>i\<close> that keeps what it holds.\<close>

lemma ownership_same:
  assumes o: "ownership \<sigma>" and c: "conns \<sigma> i = Some p" "holds p = holds p'"
    and a: "\<And>b. p' = Aborted b \<Longrightarrow> stopping \<sigma>"
    and c': "conns \<sigma>' = (conns \<sigma>)(i \<mapsto> p')"
    and s: "busy \<sigma>' = busy \<sigma>" "recovery \<sigma>' = recovery \<sigma>" "stopping \<sigma>' = stopping \<sigma>"
      "cancelling \<sigma>' \<subseteq> cancelling \<sigma>"
  shows "ownership \<sigma>'"
proof -
  have "holders \<sigma>' = holders \<sigma>"
    using holders_goto [OF c'] in_holders [OF c(1)] c(2) by auto
  moreover have "aborted \<sigma>' \<Longrightarrow> aborted \<sigma> \<or> stopping \<sigma>"
    using aborted_goto [OF c'] a by blast
  ultimately show ?thesis using o s unfolding ownership_def owned_def by auto
qed

lemma ownership_goto:
  assumes "ownership \<sigma>" "conns \<sigma> i = Some p" "holds p = holds p'" "\<And>b. p' \<noteq> Aborted b"
    and "conns \<tau> = conns \<sigma>" "busy \<tau> = busy \<sigma>" "recovery \<tau> = recovery \<sigma>" "stopping \<tau> = stopping \<sigma>"
      "cancelling \<tau> \<subseteq> cancelling \<sigma>"
  shows "ownership (goto i p' \<tau>)"
  by (rule ownership_same [OF assms(1-3)]) (use assms(4-) in \<open>auto simp: goto_def\<close>)

text \<open>A step of the handler that owns the bridge and ends its ownership.\<close>

lemma ownership_end:
  assumes o: "ownership \<sigma>" and c: "conns \<sigma> i = Some p" "holds p"
    and c': "conns \<sigma>' = (conns \<sigma>)(i \<mapsto> Done)"
    and s: "stopping \<sigma>' = stopping \<sigma>" "cancelling \<sigma>' = cancelling \<sigma>"
    and b: "busy \<sigma>' = (recovery \<sigma>' \<noteq> None)"
  shows "ownership \<sigma>'"
proof -
  have "holders \<sigma> = {i}" using in_holders [OF c(1)] c(2) o by (auto simp: ownership_def owned_def)
  then have "holders \<sigma>' = {}" using holders_goto [OF c'] by simp
  moreover have "aborted \<sigma>' \<Longrightarrow> aborted \<sigma>" using aborted_goto [OF c'] by blast
  ultimately show ?thesis using o s b unfolding ownership_def owned_def by auto
qed

text \<open>A step that leaves the handlers alone.\<close>

lemma ownership_apart:
  assumes o: "ownership \<sigma>" and c: "conns \<sigma>' = conns \<sigma>"
    and r: "recovery \<sigma>' = recovery \<sigma> \<and> busy \<sigma>' = busy \<sigma> \<or>
         recovery \<sigma> \<noteq> None \<and> recovery \<sigma>' \<noteq> None \<and> busy \<sigma>' = busy \<sigma> \<or>
         recovery \<sigma> \<noteq> None \<and> recovery \<sigma>' = None \<and> (\<not> busy \<sigma>' \<or> stopping \<sigma>)"
    and s: "stopping \<sigma> \<longrightarrow> stopping \<sigma>'" "cancelling \<sigma>' \<noteq> {} \<longrightarrow> stopping \<sigma>'"
  shows "ownership \<sigma>'"
  using o r s same_conns [OF c] unfolding ownership_def owned_def by auto

lemma cancelling_stopping: "i \<in> cancelling \<sigma> \<Longrightarrow> ownership \<sigma> \<Longrightarrow> stopping \<sigma>"
  by (auto simp: ownership_def owned_def)

lemma holds_after_cancel [simp]: "holds (after_cancel p) = holds p"
  by (cases p) simp_all

lemma ownership_busy:
  "ownership \<sigma> \<Longrightarrow> conns \<sigma> i = Some p \<Longrightarrow> holds p \<Longrightarrow> busy \<sigma> \<and> recovery \<sigma> = None"
  using in_holders [of \<sigma> i p] by (auto simp: ownership_def owned_def)

lemma ownership_recovery: "ownership \<sigma> \<Longrightarrow> recovery \<sigma> \<noteq> None \<Longrightarrow> busy \<sigma> \<and> holders \<sigma> = {}"
  by (auto simp: ownership_def owned_def)

lemma ownership_step:
  assumes "step C \<sigma> \<sigma>'" "ownership \<sigma>"
  shows "ownership \<sigma>'"
  using assms(1)
proof (cases rule: step.cases)
  case (connect i u)
  have c': "conns \<sigma>' = (conns \<sigma>)(i \<mapsto> Accepted u)" using connect by (simp add: goto_def)
  have "holders \<sigma>' = holders \<sigma>" using connect(2) holders_goto [OF c'] by (simp add: holders_def)
  moreover have "aborted \<sigma>' \<Longrightarrow> aborted \<sigma>" using aborted_goto [OF c'] by blast
  ultimately show ?thesis
    using assms(2) connect(1) by (auto simp: ownership_def owned_def goto_def)
next
  case (admit i u)
  have c': "conns \<sigma>' = (conns \<sigma>)(i \<mapsto> Greeting)" using admit by (simp add: goto_def)
  have "holders \<sigma> = {}" using assms(2) admit(3) by (auto simp: ownership_def owned_def)
  then have "holders \<sigma>' = {i}" using holders_goto [OF c'] by simp
  moreover have "aborted \<sigma>' \<Longrightarrow> aborted \<sigma>" using aborted_goto [OF c'] by blast
  moreover have "recovery \<sigma> = None" using ownership_recovery [OF assms(2)] admit(3) by blast
  ultimately show ?thesis
    using assms(2) admit(1) by (auto simp: ownership_def owned_def goto_def)
next
  case (no_lease i)
  show ?thesis
    by (rule ownership_end [OF assms(2) no_lease(2)])
       (use no_lease ownership_busy [OF assms(2) no_lease(2)] in \<open>simp_all add: goto_def\<close>)
next
  case (released i l l' w')
  show ?thesis
    by (rule ownership_end [OF assms(2) released(2)])
       (use released ownership_busy [OF assms(2) released(2)] in \<open>simp_all add: goto_def\<close>)
next
  case (release_failed i l l' w')
  show ?thesis
    by (rule ownership_end [OF assms(2) release_failed(2)])
       (use release_failed ownership_busy [OF assms(2) release_failed(2)] in \<open>simp_all add: goto_def\<close>)
next
  case (retry l l' w' ok)
  then show ?thesis
    by (intro ownership_apart [OF assms(2)])
       (use assms(2) ownership_recovery [OF assms(2)] in \<open>auto simp: ownership_def owned_def\<close>)
next
  case (retry_last l l' w' ok)
  then show ?thesis
    by (intro ownership_apart [OF assms(2)]) (use assms(2) in \<open>auto simp: ownership_def owned_def\<close>)
next
  case (recover w' r)
  then show ?thesis
    by (intro ownership_apart [OF assms(2)])
       (use assms(2) ownership_recovery [OF assms(2)] in \<open>auto simp: ownership_def owned_def\<close>)
next
  case recover_last
  then show ?thesis
    by (intro ownership_apart [OF assms(2)]) (use assms(2) in \<open>auto simp: ownership_def owned_def\<close>)
next
  case stop
  then show ?thesis
    by (intro ownership_apart [OF assms(2)]) (use assms(2) in \<open>auto simp: ownership_def owned_def\<close>)
next
  case cancel_all
  then show ?thesis
    by (intro ownership_apart [OF assms(2)]) (use assms(2) in \<open>auto simp: ownership_def owned_def\<close>)
next
  case (tick d)
  then show ?thesis
    by (intro ownership_apart [OF assms(2)]) (use assms(2) in \<open>auto simp: ownership_def owned_def\<close>)
next
  case (outside s')
  then show ?thesis
    by (intro ownership_apart [OF assms(2)]) (use assms(2) in \<open>auto simp: ownership_def owned_def\<close>)
next
  case (cancelled i p)
  show ?thesis
    by (rule ownership_same [OF assms(2) cancelled(3)])
       (use cancelled cancelling_stopping [OF cancelled(2) assms(2)] in \<open>simp_all add: goto_def\<close>)
next
  case (cancelled_releasing i l l' s' post pre ok)
  show ?thesis
    by (rule ownership_same [OF assms(2) cancelled_releasing(3)])
       (use cancelled_releasing cancelling_stopping [OF cancelled_releasing(2) assms(2)]
        in \<open>simp_all add: goto_def\<close>)
qed (hypsubst, rule ownership_goto [OF assms(2)], assumption, (simp; fail)+)+

section \<open>Keys\<close>

definition covered :: "'s \<times> trace \<Rightarrow> lease \<Rightarrow> bool" where
  "covered w l \<longleftrightarrow> tracks (keys_apart w) (buttons_open w) l"

definition neutral :: "'s \<times> trace \<Rightarrow> bool" where
  "neutral w \<longleftrightarrow> keys_apart w = {} \<and> buttons_open w = {}"

text \<open>Only names of the tables can be down: what a recovery is able to release.\<close>

definition in_tables :: "'s \<times> trace \<Rightarrow> bool" where
  "in_tables w \<longleftrightarrow>
     open_keys (snd w) \<subseteq> snd ` set KEYS_items \<and> open_buttons (snd w) \<subseteq> snd ` set BUTTONS_items"

text \<open>The lease that answers for the keys while a handler is in a phase.\<close>

fun leased :: "phase \<Rightarrow> lease option" where
  "leased Greeting = Some (new_lease Relative)"
| "leased (Selecting m) = Some (new_lease m)"
| "leased (Opening m) = Some (new_lease m)"
| "leased (Replying l b t) = Some l"
| "leased (Serving l q b t) = Some l"
| "leased (Closing True lo b) = Some (case lo of None \<Rightarrow> new_lease Relative | Some l \<Rightarrow> l)"
| "leased (Flushing lo) = Some (case lo of None \<Rightarrow> new_lease Relative | Some l \<Rightarrow> l)"
| "leased (Releasing lo) = Some (case lo of None \<Rightarrow> new_lease Relative | Some l \<Rightarrow> l)"
| "leased p = None"

definition keys_ok :: "'s bridge \<Rightarrow> bool" where
  "keys_ok \<sigma> \<longleftrightarrow>
     (\<not> busy \<sigma> \<longrightarrow> neutral (net \<sigma>)) \<and>
     (\<forall>l. recovery \<sigma> = Some (Retry l) \<longrightarrow> covered (net \<sigma>) l) \<and>
     (recovery \<sigma> = Some Recover \<longrightarrow> in_tables (net \<sigma>)) \<and>
     (\<forall>i p l. conns \<sigma> i = Some p \<longrightarrow> leased p = Some l \<longrightarrow> covered (net \<sigma>) l)"

lemma covered_new [simp]: "covered w (new_lease m) \<longleftrightarrow> neutral w"
  by (simp add: covered_def neutral_def tracks_def new_lease_def)

lemma covered_apply:
  "covered w l \<Longrightarrow> apply_event (event_sink C b) e l w = (l', w', r) \<Longrightarrow> covered w' l'"
  unfolding covered_def by (rule es.apply_tracked)

lemma covered_release:
  assumes "covered w l" "release (http_sink C) l w = (l', w', ok)"
  shows "covered w' l'" "ok \<Longrightarrow> neutral w'"
  using es.release_tracked [of w l C False l' w' ok] assms
  by (simp_all add: covered_def neutral_def http_event_sink)

lemma covered_select:
  assumes "covered w l" "select_mouse (http_rq C) m w = (w', r)"
  shows "covered w' l"
proof -
  have "keys_apart w' \<subseteq> keys_apart w" "buttons_open w' \<subseteq> buttons_open w"
    using select_mouse_trace [OF assms(2) [unfolded http_rq_def]]
    by (auto simp: keys_apart_def buttons_open_def)
  then show ?thesis using assms(1) by (auto simp: covered_def tracks_def)
qed

lemma leased_holds: "leased p = Some l \<Longrightarrow> holds p"
  by (cases p rule: leased.cases) simp_all

lemma covered_outside [simp]:
  "covered (s, snd w) l = covered w l" "neutral (s, snd w) = neutral w" "in_tables (s, snd w) = in_tables w"
  by (simp_all add: covered_def neutral_def in_tables_def keys_apart_def buttons_open_def)

lemma covered_flushed [simp]:
  "covered (s, Flushed ok # snd w) l = covered w l"
  by (simp add: covered_def keys_apart_def buttons_open_def)

lemma keys_leased:
  "keys_ok \<sigma> \<Longrightarrow> conns \<sigma> i = Some p \<Longrightarrow> leased p = Some l \<Longrightarrow> covered (net \<sigma>) l"
  by (simp add: keys_ok_def)

text \<open>A step of the owner: the others hold nothing.\<close>

lemma keys_owner:
  assumes o: "ownership \<sigma>" "keys_ok \<sigma>" and c: "conns \<sigma> i = Some p0" "holds p0"
    and k: "\<And>l. leased p = Some l \<Longrightarrow> covered (net \<tau>) l"
    and s: "conns \<tau> = conns \<sigma>" "busy \<tau> = busy \<sigma>" "recovery \<tau> = recovery \<sigma>"
  shows "keys_ok (goto i p \<tau>)"
proof -
  have H: "holders \<sigma> = {i}"
    using in_holders [OF c(1)] c(2) o(1) by (auto simp: ownership_def owned_def)
  have "leased q = None" if "conns \<sigma> j = Some q" "j \<noteq> i" for j q
    using that H leased_holds [of q] in_holders [OF that(1)] by (cases "leased q") auto
  then show ?thesis
    using ownership_busy [OF o(1) c] k s by (auto simp: keys_ok_def goto_def)
qed

text \<open>A step of anyone that does not touch the world.\<close>

lemma keys_quiet:
  assumes "keys_ok \<sigma>" "conns \<sigma> i = Some p0" "\<And>l. leased p = Some l \<Longrightarrow> leased p0 = Some l"
    and "conns \<tau> = conns \<sigma>" "busy \<tau> = busy \<sigma>" "recovery \<tau> = recovery \<sigma>" "net \<tau> = net \<sigma>"
  shows "keys_ok (goto i p \<tau>)"
  using assms unfolding keys_ok_def goto_def by auto

lemma ownership_no_lease:
  assumes "ownership \<sigma>" "recovery \<sigma> \<noteq> None"
  shows "conns \<sigma> j = Some q \<Longrightarrow> leased q = None"
  using ownership_recovery [OF assms] in_holders [of \<sigma> j q] leased_holds [of q]
  by (cases "leased q") auto

lemma keys_recovery:
  assumes "ownership \<sigma>" "keys_ok \<sigma>" "recovery \<sigma> \<noteq> None" "conns \<tau> = conns \<sigma>"
    and "\<not> busy \<tau> \<Longrightarrow> neutral (net \<tau>)"
    and "\<And>l. recovery \<tau> = Some (Retry l) \<Longrightarrow> covered (net \<tau>) l"
    and "recovery \<tau> = Some Recover \<Longrightarrow> in_tables (net \<tau>)"
  shows "keys_ok \<tau>"
  using assms(4-) ownership_no_lease [OF assms(1,3)] by (simp add: keys_ok_def)

lemma check_and_neutralize_tables:
  assumes "check_and_neutralize C w = (w', r)" "in_tables w"
  shows "in_tables w'" "r = None \<Longrightarrow> neutral w'"
  using check_and_neutralize_trace [OF assms(1)] assms(2)
  by (simp_all add: in_tables_def neutral_def keys_apart_def buttons_open_def)

lemma keys_step:
  assumes "step C \<sigma> \<sigma>'" "ownership \<sigma>" "keys_ok \<sigma>"
  shows "keys_ok \<sigma>'"
  using assms(1)
proof (cases rule: step.cases)
  case (connect i u)
  then show ?thesis using assms(3) by (auto simp: keys_ok_def goto_def)
next
  case (admit i u)
  then show ?thesis using assms(3) by (auto simp: keys_ok_def goto_def)
next
  case (selected i m w')
  have "covered w' (new_lease m)"
    by (rule covered_select [OF _ selected(3)]) (use keys_leased [OF assms(3) selected(2)] in simp)
  then show ?thesis unfolding selected(1) by (intro keys_owner [OF assms(2,3) selected(2)]) auto
next
  case (select_failed i m w' e)
  have "covered w' (new_lease m)"
    by (rule covered_select [OF _ select_failed(3)])
       (use keys_leased [OF assms(3) select_failed(2)] in simp)
  then show ?thesis unfolding select_failed(1) by (intro keys_owner [OF assms(2,3) select_failed(2)]) auto
next
  case (cancelled_selecting i m w' e)
  have "covered w' (new_lease m)"
    by (rule covered_select [OF _ cancelled_selecting(4)])
       (use keys_leased [OF assms(3) cancelled_selecting(3)] in simp)
  then show ?thesis unfolding cancelled_selecting(1) by (intro keys_owner [OF assms(2,3) cancelled_selecting(3)]) auto
next
  case (hello i line m)
  have "neutral (net \<sigma>)" using keys_leased [OF assms(3) hello(2)] by simp
  then show ?thesis unfolding hello(1) by (intro keys_owner [OF assms(2,3) hello(2)]) auto
next
  case (opened i m b)
  have "neutral (net \<sigma>)" using keys_leased [OF assms(3) opened(2)] by simp
  then show ?thesis unfolding opened(1) by (intro keys_owner [OF assms(2,3) opened(2)]) auto
next
  case (consume i l q b t ev q' l' w')
  have "covered w' l'"
    by (rule covered_apply [OF _ consume(4)]) (use keys_leased [OF assms(3) consume(2)] in simp)
  then show ?thesis unfolding consume(1) by (intro keys_owner [OF assms(2,3) consume(2)]) auto
next
  case (consume_failed i l q b t ev q' l' w' e)
  have "covered w' l'"
    by (rule covered_apply [OF _ consume_failed(4)])
       (use keys_leased [OF assms(3) consume_failed(2)] in simp)
  then show ?thesis unfolding consume_failed(1) by (intro keys_owner [OF assms(2,3) consume_failed(2)]) auto
next
  case (cancelled_consuming i l q b t ev q' l' w' e)
  have "covered w' l'"
    by (rule covered_apply [OF _ cancelled_consuming(5)])
       (use keys_leased [OF assms(3) cancelled_consuming(3)] in simp)
  then show ?thesis unfolding cancelled_consuming(1) by (intro keys_owner [OF assms(2,3) cancelled_consuming(3)]) auto
next
  case (flushed i lo ok)
  have "\<And>l. leased (Releasing lo) = Some l \<Longrightarrow> covered (net \<sigma>) l"
    using keys_leased [OF assms(3) flushed(2)] by simp
  then show ?thesis unfolding flushed(1) by (intro keys_owner [OF assms(2,3) flushed(2)]) auto
next
  case (no_lease i)
  have "neutral (net \<sigma>)" using keys_leased [OF assms(3) no_lease(2)] by simp
  then show ?thesis
    using no_lease assms(3) ownership_busy [OF assms(2) no_lease(2)] by (auto simp: keys_ok_def goto_def)
next
  case (released i l l' w')
  have "covered (net \<sigma>) l" using keys_leased [OF assms(3) released(2)] by simp
  then have n: "neutral w'" using covered_release [OF _ released(3)] by simp
  have "keys_ok (goto i Done (\<sigma>\<lparr>net := w'\<rparr>))"
    by (rule keys_owner [OF assms(2,3) released(2)]) simp_all
  then show ?thesis using released(1) n by (simp add: keys_ok_def goto_def)
next
  case (release_failed i l l' w')
  have "covered (net \<sigma>) l" using keys_leased [OF assms(3) release_failed(2)] by simp
  then have n: "covered w' l'" using covered_release [OF _ release_failed(3)] by simp
  have "keys_ok (goto i Done (\<sigma>\<lparr>net := w'\<rparr>))"
    by (rule keys_owner [OF assms(2,3) release_failed(2)]) simp_all
  then show ?thesis using release_failed(1) n by (simp add: keys_ok_def goto_def)
next
  case (retry l l' w' ok)
  have "covered (net \<sigma>) l" using assms(3) retry(2) by (auto simp: keys_ok_def)
  note c = covered_release [OF this retry(3)]
  have "busy \<sigma>" using ownership_recovery [OF assms(2)] retry(2) by simp
  then show ?thesis using c retry by (intro keys_recovery [OF assms(2,3)]) (auto split: if_splits)
next
  case (retry_last l l' w' ok)
  have "busy \<sigma>" using ownership_recovery [OF assms(2)] retry_last(2) by simp
  then show ?thesis using retry_last by (intro keys_recovery [OF assms(2,3)]) auto
next
  case (recover w' r)
  have "in_tables (net \<sigma>)" using assms(3) recover(2) by (auto simp: keys_ok_def)
  note c = check_and_neutralize_tables [OF recover(3) this]
  have "busy \<sigma>" using ownership_recovery [OF assms(2)] recover(2) by simp
  then show ?thesis using c recover by (intro keys_recovery [OF assms(2,3)]) (auto split: if_splits)
next
  case recover_last
  have "busy \<sigma>" using ownership_recovery [OF assms(2)] recover_last(2) by simp
  then show ?thesis using recover_last by (intro keys_recovery [OF assms(2,3)]) auto
next
  case (cancelled_releasing i l l' s' post pre ok)
  then show ?thesis unfolding cancelled_releasing(1)
    by (intro keys_owner [OF assms(2,3) cancelled_releasing(3)]) auto
next
  case (cancelled i p)
  have "leased (after_cancel p) = Some l \<Longrightarrow> leased p = Some l \<or>
      (\<exists>m. leased p = Some (new_lease m) \<and> l = new_lease Relative)" for l
    by (cases p) auto
  then have "leased (after_cancel p) = Some l \<Longrightarrow> covered (net \<sigma>) l" for l
    using assms(3) cancelled(3) by (fastforce simp: keys_ok_def)
  then show ?thesis
    using cancelled(1) assms(3) by (auto simp: keys_ok_def goto_def)
qed (use assms(3) in \<open>auto simp: keys_ok_def goto_def split: if_splits option.splits\<close>)

section \<open>Sessions\<close>

fun session_ok :: "phase \<Rightarrow> bool" where
  "session_ok (Replying l b t) = lease_wf l"
| "session_ok (Serving l q b t) = (lease_wf l \<and> queue_ok q \<and> capacity q = 256)"
| "session_ok p = True"

definition sessions_ok :: "'s bridge \<Rightarrow> bool" where
  "sessions_ok \<sigma> \<longleftrightarrow> (\<forall>i p. conns \<sigma> i = Some p \<longrightarrow> session_ok p)"

lemma sessions_goto:
  "sessions_ok \<sigma> \<Longrightarrow> session_ok p \<Longrightarrow> conns \<tau> = conns \<sigma> \<Longrightarrow> sessions_ok (goto i p \<tau>)"
  by (simp add: sessions_ok_def goto_def)

lemma session_line_ok:
  "session_line dec line q = Inr (Some q') \<Longrightarrow> queue_ok q \<Longrightarrow>
     queue_ok q' \<and> capacity q' = capacity q"
  by (auto simp: session_line_def put_ok put_capacity split: if_splits sum.splits)

lemma session_ok_cancel [simp]: "session_ok (after_cancel p)"
  by (cases p) (auto split: option.splits)

lemma sessions_step:
  assumes "step C \<sigma> \<sigma>'" "sessions_ok \<sigma>"
  shows "sessions_ok \<sigma>'"
  using assms(1)
proof (cases rule: step.cases)
  case (replied i l b t)
  then have "session_ok (Replying l b t)" using assms(2) unfolding sessions_ok_def by blast
  then show ?thesis unfolding replied(1)
    by (intro sessions_goto [OF assms(2)]) (simp_all add: queue_ok_new, simp add: new_queue_def)
next
  case (read_line i l q b t line q')
  then have "session_ok (Serving l q b t)" using assms(2) unfolding sessions_ok_def by blast
  then show ?thesis unfolding read_line(1) using session_line_ok [OF read_line(3)]
    by (intro sessions_goto [OF assms(2)]) simp_all
next
  case (consume i l q b t ev q' l' w')
  then have "session_ok (Serving l q b t)" using assms(2) unfolding sessions_ok_def by blast
  then show ?thesis unfolding consume(1)
    using apply_event_wf [OF _ consume(4)] pop_ok [OF _ consume(3)] pop_capacity [OF consume(3)]
    by (intro sessions_goto [OF assms(2)]) simp_all
next
  case (opened i m b)
  then show ?thesis unfolding opened(1) by (intro sessions_goto [OF assms(2)]) (simp_all add: lease_wf_new)
next
  case (cancelled i p)
  then show ?thesis unfolding cancelled(1) by (intro sessions_goto [OF assms(2)]) simp_all
qed (use assms(2) in \<open>simp_all add: sessions_ok_def goto_def\<close>)

section \<open>Every reachable state\<close>

lemma start_inv:
  assumes "start C True False w = Started \<sigma>" "in_tables w"
  shows "ownership \<sigma> \<and> keys_ok \<sigma> \<and> sessions_ok \<sigma>"
proof -
  obtain w' r where n: "check_and_neutralize C w = (w', r)" by fastforce
  note t = check_and_neutralize_tables [OF n assms(2)]
  have "r = None \<and> \<sigma> = idle w' \<or> \<sigma> = block_until_neutral (idle w')"
    using assms(1) n by (auto simp: start_def split: option.splits if_splits)
  then show ?thesis
    using t by (auto simp: idle_def block_until_neutral_def ownership_def owned_def holders_def
      aborted_def keys_ok_def sessions_ok_def)
qed

lemma reachable_inv:
  "reachable C w \<sigma> \<Longrightarrow> in_tables w \<Longrightarrow> ownership \<sigma> \<and> keys_ok \<sigma> \<and> sessions_ok \<sigma>"
proof (induction rule: reachable.induct)
  case (reachable_start \<sigma>)
  then show ?case by (rule start_inv)
next
  case (reachable_step \<sigma> \<sigma>')
  then show ?case using ownership_step keys_step sessions_step by blast
qed

end
