(* ===== verification/Hid_Server_Live.thy ===== *)
theory Hid_Server_Live
  imports Hid_Server_Inv
begin

text \<open>
  Progress of the bridge: under a kvmd that answers every request, whoever holds
  the lease can give it back.  \<open>drains C \<sigma>\<close> says that some sequence of steps
  leads from \<open>\<sigma>\<close> to a bridge that is free.  The last section runs the bridge on
  two concrete worlds, which the witnesses of the properties use.
\<close>

section \<open>A kvmd that answers\<close>

definition responsive :: "'s requester \<Rightarrow> bool" where
  "responsive rq \<longleftrightarrow>
     (\<forall>verb path params s. \<exists>j. snd (rq verb path params s) = Inr j) \<and>
     (\<forall>s j. snd (rq ''GET'' ''/hid'' [] s) = Inr j \<longrightarrow> usable j)"

lemma responsive_send:
  assumes "responsive (http C)" and "is_release c"
  shows "\<exists>w'. send (http_sink C) c w = (w', None)"
proof -
  obtain path params where e: "event_request c = Some (path, params)"
    using assms(2) by (auto simp: is_release_def)
  obtain s' j where "http C ''POST'' path params (fst w) = (s', Inr j)"
    using assms(1) unfolding responsive_def by (metis prod.collapse)
  with e show ?thesis
    by (simp add: http_sink_def http_rq_def kvmd_sink_def kvmd_call_def traced_rq_def)
qed

lemma release_keys_done:
  "(\<And>n s. \<exists>s'. send k (CKey n False) s = (s', None)) \<Longrightarrow> release_keys k ks l s = (l', s') \<Longrightarrow>
     set (possibly_down l') = set (possibly_down l) - set ks \<and> buttons l' = buttons l"
proof (induction ks arbitrary: l s)
  case (Cons n ks)
  obtain s1 where s: "send k (CKey n False) s = (s1, None)" using Cons.prems(1) by blast
  with Cons.IH [OF Cons.prems(1), of "l\<lparr>possibly_down := removeAll n (possibly_down l)\<rparr>" s1] Cons.prems(2)
  show ?case by auto
qed auto

lemma release_buttons_done:
  "(\<And>n s. \<exists>s'. send k (CButton n False) s = (s', None)) \<Longrightarrow> release_buttons k bs l s = (l', s') \<Longrightarrow>
     set (buttons l') = set (buttons l) - set bs \<and> possibly_down l' = possibly_down l"
proof (induction bs arbitrary: l s)
  case (Cons n bs)
  obtain s1 where s: "send k (CButton n False) s = (s1, None)" using Cons.prems(1) by blast
  with Cons.IH [OF Cons.prems(1), of "l\<lparr>buttons := removeAll n (buttons l)\<rparr>" s1] Cons.prems(2)
  show ?case by auto
qed auto

lemma responsive_release:
  assumes "responsive (http C)"
  shows "\<exists>l' w'. release (http_sink C) l w = (l', w', True)"
proof -
  let ?k = "http_sink C" and ?l = "l\<lparr>virtual := [], wheel_x := 0, wheel_y := 0\<rparr>"
  have k: "\<exists>s'. send ?k (CKey n False) s = (s', None)" and b: "\<exists>s'. send ?k (CButton n False) s = (s', None)"
    for n s using responsive_send [OF assms] by (simp_all add: is_release_def)
  obtain l1 w1 where r1: "release_keys ?k (possibly_down ?l) ?l w = (l1, w1)" by (metis surj_pair)
  obtain l2 w2 where r2: "release_buttons ?k (buttons l1) l1 w1 = (l2, w2)" by (metis surj_pair)
  have "possibly_down l2 = [] \<and> buttons l2 = []"
    using release_keys_done [OF k r1] release_buttons_done [OF b r2] by simp
  with r1 r2 show ?thesis by (simp add: release_def Let_def)
qed

lemma responsive_neutralize:
  assumes "responsive (http C)"
  shows "\<exists>w'. check_and_neutralize C w = (w', None)"
proof -
  obtain s' j where h: "http C ''GET'' ''/hid'' [] (fst w) = (s', Inr j)" "usable j"
    using assms unfolding responsive_def by (metis prod.collapse snd_conv)
  obtain kb m where p: "hid_parts j = Inr (kb, m)"
    using h(2) by (auto simp: usable_def split: sum.splits)
  have "check (http_rq C) w = ((s', snd w), Inr j)"
    using h p by (auto simp: check_def read_state_def http_rq_def traced_rq_def request_call_def
        usable_def offline_def py_not_def confirm_def)
  moreover have "\<exists>w'. release_each (http_sink C) cs False v = (w', None)" if "list_all is_release cs" for cs v
    using that
  proof (induction cs arbitrary: v)
    case (Cons c cs)
    from Cons.prems obtain v' where "send (http_sink C) c v = (v', None)"
      using responsive_send [OF assms, of c v] by auto
    with Cons show ?case by simp
  qed simp
  moreover have "list_all is_release neutral_calls"
    using neutral_calls_release by (auto simp: list_all_iff)
  ultimately show ?thesis
    by (simp add: check_and_neutralize_def neutralize_def)
qed

section \<open>The bridge becomes free\<close>

definition drains :: "'s config \<Rightarrow> 's bridge \<Rightarrow> bool" where
  "drains C \<sigma> \<longleftrightarrow> (\<exists>\<sigma>'. (step C)\<^sup>*\<^sup>* \<sigma> \<sigma>' \<and> \<not> busy \<sigma>' \<and> stopping \<sigma>' = stopping \<sigma>)"

lemma drains_step: "step C \<sigma> \<tau> \<Longrightarrow> stopping \<tau> = stopping \<sigma> \<Longrightarrow> drains C \<tau> \<Longrightarrow> drains C \<sigma>"
  by (auto simp: drains_def intro: converse_rtranclp_into_rtranclp)

lemma drains_now: "\<not> busy \<sigma> \<Longrightarrow> drains C \<sigma>"
  by (auto simp: drains_def)

lemma goto_simps [simp]:
  "conns (goto i p \<sigma>) i = Some p" "stopping (goto i p \<sigma>) = stopping \<sigma>" "busy (goto i p \<sigma>) = busy \<sigma>"
  "net (goto i p \<sigma>) = net \<sigma>"
  by (simp_all add: goto_def)

lemma drains_releasing:
  assumes "responsive (http C)" and "conns \<sigma> i = Some (Releasing lo)"
  shows "drains C \<sigma>"
proof (cases lo)
  case None
  with assms(2) have "conns \<sigma> i = Some (Releasing None)" by simp
  from no_lease [OF this] show ?thesis by (rule drains_step) (simp_all add: drains_now)
next
  case (Some l)
  with assms(2) have c: "conns \<sigma> i = Some (Releasing (Some l))" by simp
  obtain l' w' where "release (http_sink C) l (net \<sigma>) = (l', w', True)"
    using responsive_release [OF assms(1)] by blast
  from released [OF c this] show ?thesis by (rule drains_step) (simp_all add: drains_now)
qed

lemma drains_flushing:
  assumes "responsive (http C)" and "conns \<sigma> i = Some (Flushing lo)"
  shows "drains C \<sigma>"
  by (rule drains_step [OF flushed [OF assms(2), where ok = True]], simp,
      rule drains_releasing [OF assms(1), where i = i and lo = lo], simp)

lemma drains_closing:
  assumes "responsive (http C)" and "conns \<sigma> i = Some (Closing True lo b)"
  shows "drains C \<sigma>"
proof (cases b)
  case True
  with assms(2) have "conns \<sigma> i = Some (Closing True lo True)" by simp
  from closed_stream [OF this] show ?thesis
    by (rule drains_step) (simp_all add: drains_flushing [OF assms(1), where i = i and lo = lo])
next
  case False
  with assms(2) have "conns \<sigma> i = Some (Closing True lo False)" by simp
  from closed_plain [OF this] show ?thesis
    by (rule drains_step) (simp_all add: drains_releasing [OF assms(1), where i = i and lo = lo])
qed

text \<open>A step of the owner that leads to the clean-up.\<close>

lemma drains_abandon:
  assumes "responsive (http C)" and "step C \<sigma> (goto i (Closing True lo b) \<tau>)" and "stopping \<tau> = stopping \<sigma>"
  shows "drains C \<sigma>"
  using assms(2) by (rule drains_step)
    (simp_all add: assms(3) drains_closing [OF assms(1), where i = i and lo = lo and b = b])

lemma drains_opening:
  assumes "responsive (http C)" and "conns \<sigma> i = Some (Opening m)"
  shows "drains C \<sigma>"
proof (rule drains_step [OF opened [OF assms(2)]])
  show "drains C (goto i (Replying (new_lease m) b (now \<sigma>)) \<sigma>)" for b
    by (rule drains_abandon [OF assms(1) reply_failed [OF goto_simps(1)]]) (rule refl)
qed simp

lemma drains_owner:
  assumes r: "responsive (http C)" and c: "conns \<sigma> i = Some p" and o: "owns p"
  shows "drains C \<sigma>"
proof (cases p)
  case Greeting
  with c show ?thesis by (auto intro: drains_abandon [OF r hello_failed])
next
  case (Selecting m)
  with c have c: "conns \<sigma> i = Some (Selecting m)" by simp
  obtain w' x where s: "select_mouse (http_rq C) (mode_str m) (net \<sigma>) = (w', x)" by (metis surj_pair)
  show ?thesis
  proof (cases x)
    case None
    with s have "step C \<sigma> (goto i (Opening m) (\<sigma>\<lparr>net := w'\<rparr>))" using selected [OF c] by simp
    then show ?thesis
      by (rule drains_step) (simp_all add: drains_opening [OF r, where i = i and m = m])
  next
    case (Some e)
    with s have "step C \<sigma> (goto i (Closing True None False) (\<sigma>\<lparr>net := w'\<rparr>))"
      using select_failed [OF c] by simp
    then show ?thesis by (rule drains_abandon [OF r]) simp
  qed
next
  case (Replying l b t)
  with c show ?thesis by (auto intro: drains_abandon [OF r reply_failed])
next
  case (Serving l q b t)
  with c show ?thesis by (auto intro: drains_abandon [OF r connection_lost])
next
  case (Closing own lo b)
  with c o show ?thesis using drains_closing [OF r] by simp
next
  case (Opening m)
  with c show ?thesis using drains_opening [OF r] by simp
next
  case (Flushing lo)
  with c show ?thesis using drains_flushing [OF r] by simp
next
  case (Releasing lo)
  with c show ?thesis using drains_releasing [OF r] by simp
qed (use o in simp_all)

section \<open>Two bridges to try things on\<close>

text \<open>
  The world is one flag: \<open>True\<close>, everything works; \<open>False\<close>, the keyboard is
  reported offline and kvmd rejects the release of a key.
\<close>

definition lab_state :: "bool \<Rightarrow> json" where
  "lab_state s = JObj [(''enabled'', JBool True), (''keyboard'', JObj [(''online'', JBool s)]),
     (''mouse'', JObj [(''online'', JBool True), (''absolute'', JBool False)])]"

definition lab_rq :: "bool requester" where
  "lab_rq verb path params s =
     (s, if verb = ''GET'' then Inr (lab_state s)
         else if \<not> s \<and> path = ''/hid/events/send_key'' \<and> map_of params ''state'' = Some ''false''
         then Inl BackendError else Inr (JObj []))"

definition lab :: "bool config" where
  "lab = \<lparr>http = lab_rq, ws = \<lparr>send = (\<lambda>c s. (s, None)), has_move_many = True\<rparr>,
          decode = (\<lambda>line. Inr (JObj (if line = ''hello''
             then [(''op'', JStr ''hello''), (''version'', JInt 1)] else event_items (EKey 0x41 True)))),
          owner_uid = 1000, timeout = 2\<rparr>"

lemma lab_send:
  "is_release c \<Longrightarrow> send (http_sink lab) c (True, t) = ((True, Sent Http c True # t), None)"
  by (auto simp: is_release_def http_sink_def http_rq_def kvmd_sink_def kvmd_call_def traced_rq_def
      lab_def lab_rq_def request_call_def bool_str_def)

lemma lab_release_each:
  "list_all is_release cs \<Longrightarrow> \<exists>t'. release_each (http_sink lab) cs False (True, t) = ((True, t'), None)"
  by (induction cs arbitrary: t) (auto simp: lab_send)

lemma lab_check: "check (http_rq lab) (True, t) = ((True, t), Inr (lab_state True))"
  by (simp add: check_def read_state_def http_rq_def traced_rq_def lab_def lab_rq_def request_call_def
      hid_parts_def lab_state_def flag_set_def offline_def py_not_def confirm_def)

lemma lab_starts: "\<exists>t. reachable lab (True, []) (idle (True, t))"
proof -
  have "list_all is_release neutral_calls"
    using neutral_calls_release by (auto simp: list_all_iff)
  from lab_release_each [OF this] obtain t where
    "release_each (http_sink lab) neutral_calls False (True, []) = ((True, t), None)" by blast
  then have "start lab True False (True, []) = Started (idle (True, t))"
    by (simp add: start_def check_and_neutralize_def lab_check neutralize_def)
  then show ?thesis by (blast intro: reachable_start)
qed

lemma lab_select: "select_mouse (http_rq lab) ''relative'' (True, t) = ((True, t), None)"
  by (simp add: select_mouse_def lab_check must_select_def mouse_target_def already_selected_def
      same_mode_def lab_state_def)

lemma lab_hello: "hello_line (decode lab) ''hello'' = Inr Relative"
  by (simp add: hello_line_def lab_def hello_mode_def)

lemma idle_greets:
  assumes "reachable C w (idle v)"
  shows "\<exists>\<sigma>. reachable C w \<sigma> \<and> conns \<sigma> 0 = Some Greeting \<and> net \<sigma> = v \<and>
     busy \<sigma> \<and> \<not> stopping \<sigma> \<and> recovery \<sigma> = None"
proof -
  let ?\<sigma> = "goto 0 (Accepted (owner_uid C)) (idle v)"
  have "reachable C w ?\<sigma>"
    using assms by (rule reachable_step) (rule connect, simp add: idle_def)
  then have "reachable C w (goto 0 Greeting (?\<sigma>\<lparr>busy := True, active_writer := Some 0\<rparr>))"
    by (rule reachable_step) (rule admit [where u = "owner_uid C"], simp_all add: idle_def goto_def)
  then show ?thesis by (rule_tac exI) (auto simp: goto_def idle_def)
qed

lemma lab_greets:
  "\<exists>\<sigma> t. reachable lab (True, []) \<sigma> \<and> conns \<sigma> 0 = Some Greeting \<and> net \<sigma> = (True, t) \<and>
     busy \<sigma> \<and> \<not> stopping \<sigma> \<and> recovery \<sigma> = None"
  using lab_starts idle_greets by blast

lemma lab_serves:
  "\<exists>\<sigma> t. reachable lab (True, []) \<sigma> \<and> net \<sigma> = (True, t) \<and> \<not> stopping \<sigma> \<and>
     conns \<sigma> 0 = Some (Serving (new_lease Relative) (new_queue 256) True (now \<sigma>))"
proof -
  obtain \<sigma> t where r: "reachable lab (True, []) \<sigma>" and g: "conns \<sigma> 0 = Some Greeting"
    and n: "net \<sigma> = (True, t)" and st: "\<not> stopping \<sigma>" using lab_greets by blast
  let ?s1 = "goto 0 (Selecting Relative) \<sigma>"
  let ?s2 = "goto 0 (Opening Relative) (?s1\<lparr>net := (True, t)\<rparr>)"
  let ?s3 = "goto 0 (Replying (new_lease Relative) True (now ?s2)) ?s2"
  let ?s4 = "goto 0 (Serving (new_lease Relative) (new_queue 256) True (now ?s2)) ?s3"
  have r1: "reachable lab (True, []) ?s1"
    using r by (rule reachable_step) (rule hello [OF g lab_hello])
  have r2: "reachable lab (True, []) ?s2"
    using r1 by (rule reachable_step) (rule selected, simp_all add: goto_def n mode_str_def lab_select)
  have r3: "reachable lab (True, []) ?s3"
    using r2 by (rule reachable_step) (rule opened, simp add: goto_def)
  have "reachable lab (True, []) ?s4"
    using r3 by (rule reachable_step) (rule replied, simp add: goto_def)
  with st show ?thesis by (rule_tac exI [of _ ?s4]) (simp add: goto_def)
qed

lemma lab_tap_fails:
  "select_mouse (http_rq lab) ''relative'' (False, t) =
     ((False, Sent Http (CKey ''ShiftLeft'' False) False # Sent Http (CKey ''ShiftLeft'' True) True # t),
      Some BackendError)"
  by (simp add: select_mouse_def check_def read_state_def http_rq_def traced_rq_def lab_def lab_rq_def
      request_call_def hid_parts_def lab_state_def flag_set_def offline_def py_not_def wake_def
      wake_calls_def kvmd_sink_def kvmd_call_def bool_str_def)

definition steady :: "unit config" where
  "steady = \<lparr>http = (\<lambda>verb path params s. (s, Inr (lab_state True))),
             ws = \<lparr>send = (\<lambda>c s. (s, None)), has_move_many = True\<rparr>,
             decode = (\<lambda>line. Inl ValueError), owner_uid = 1000, timeout = 2\<rparr>"

lemma steady_responsive: "responsive (http steady)"
  by (simp add: responsive_def steady_def usable_def hid_parts_def lab_state_def flag_set_def)

end
