(* ===== verification/Hid_Server_Lock.thy ===== *)
theory Hid_Server_Lock
  imports Hid_Server_Live
begin

text \<open>
  The bridge as a lock.  What \<open>busy\<close>, the handlers and the recovery amount to is a
  lock that is free, held by one connection, held by the recovery, or lost when the
  bridge is stopped; every step of the bridge is a step of that lock or keeps it.
\<close>

datatype lock = Free | Held nat | Recovering | Lost

text \<open>The flag says whether the bridge is stopping.\<close>

inductive lock_step :: "bool \<Rightarrow> lock \<Rightarrow> lock \<Rightarrow> bool" where
  acquire: "lock_step False Free (Held i)"
| give_back: "lock_step stp (Held i) Free"
| hand_over: "lock_step stp (Held i) Recovering"
| recovered: "lock_step stp Recovering Free"
| abandon: "lock_step True (Held i) Lost"
| give_up: "lock_step True Recovering Lost"

inductive_simps lock_step_simps: "lock_step stp L L'"

text \<open>The state of the lock in a state of the bridge.\<close>

fun at_lock :: "'s bridge \<Rightarrow> lock \<Rightarrow> bool" where
  "at_lock \<sigma> Free = (\<not> busy \<sigma> \<and> recovery \<sigma> = None \<and> holders \<sigma> = {})"
| "at_lock \<sigma> (Held i) =
     (busy \<sigma> \<and> recovery \<sigma> = None \<and> holders \<sigma> = {i} \<and> (\<exists>p. conns \<sigma> i = Some p \<and> owns p))"
| "at_lock \<sigma> Recovering = (busy \<sigma> \<and> recovery \<sigma> \<noteq> None \<and> holders \<sigma> = {})"
| "at_lock \<sigma> Lost = (busy \<sigma> \<and> recovery \<sigma> = None \<and> stopping \<sigma> \<and> (\<forall>i p. conns \<sigma> i = Some p \<longrightarrow> \<not> owns p))"

lemma owns_holds: "owns p \<Longrightarrow> holds p"
  by (simp add: holds_def)

lemma lock_exists:
  assumes "ownership \<sigma>"
  shows "\<exists>L. at_lock \<sigma> L"
proof (cases "busy \<sigma> \<and> recovery \<sigma> = None")
  case True
  show ?thesis
  proof (cases "\<exists>i p. conns \<sigma> i = Some p \<and> owns p")
    case True
    then obtain i p where p: "conns \<sigma> i = Some p" "owns p" by blast
    then have "i \<in> holders \<sigma>" using in_holders owns_holds by blast
    with assms have "holders \<sigma> = {i}" by (auto simp: ownership_def owned_def)
    with \<open>busy \<sigma> \<and> recovery \<sigma> = None\<close> p show ?thesis by (intro exI [of _ "Held i"]) simp
  next
    case False
    have "stopping \<sigma>"
    proof (rule ccontr)
      assume n: "\<not> stopping \<sigma>"
      with True assms obtain i where "i \<in> holders \<sigma>" by (auto simp: ownership_def owned_def)
      then obtain p where "conns \<sigma> i = Some p" "p = Aborted True" using False by (auto simp: holders_def holds_def)
      then have "aborted \<sigma>" by (auto simp: aborted_def)
      with assms n show False by (simp add: ownership_def owned_def)
    qed
    with True False show ?thesis by (intro exI [of _ Lost]) simp
  qed
next
  case False
  then show ?thesis
  proof (cases "busy \<sigma>")
    case True
    with False assms show ?thesis by (intro exI [of _ Recovering]) (auto dest: ownership_recovery)
  next
    case nb: False
    with assms show ?thesis by (intro exI [of _ Free]) (auto simp: ownership_def owned_def)
  qed
qed

lemma lock_unique: "at_lock \<sigma> L \<Longrightarrow> at_lock \<sigma> L' \<Longrightarrow> L = L'"
  by (cases L; cases L') auto

text \<open>A step of one handler that keeps what it holds, and a step of the recovery.\<close>

lemma lock_same:
  assumes "at_lock \<sigma> L" "at_lock \<sigma>' L'" and c: "conns \<sigma> i = Some p" "holds p = holds p'" "owns p' \<Longrightarrow> owns p"
    and a: "\<And>b. p' = Aborted b \<Longrightarrow> stopping \<sigma>"
    and c': "conns \<sigma>' = (conns \<sigma>)(i \<mapsto> p')" and s: "busy \<sigma>' = busy \<sigma>" "recovery \<sigma>' = recovery \<sigma>"
  shows "L' = L \<or> lock_step (stopping \<sigma>) L L'"
proof -
  have h: "holders \<sigma>' = holders \<sigma>" using holders_goto [OF c'] in_holders [OF c(1)] c(2) by auto
  show ?thesis
  proof (cases L)
    case Free
    with assms(1,2) s show ?thesis by (cases L') auto
  next
    case Recovering
    with assms(1,2) s show ?thesis by (cases L') auto
  next
    case Lost
    with assms(1) have "\<not> owns q" if "conns \<sigma>' j = Some q" for j q
      using that c' c(1,3) by (auto split: if_splits)
    with Lost assms(1,2) s show ?thesis by (cases L') auto
  next
    case (Held j)
    then obtain q where q: "conns \<sigma> j = Some q" "owns q" using assms(1) by auto
    have "stopping \<sigma>" if "L' = Lost"
    proof -
      from that assms(2) have "\<forall>k r. conns \<sigma>' k = Some r \<longrightarrow> \<not> owns r" by simp
      with q c' have "i = j" "\<not> owns p'" by (auto split: if_splits)
      with q c(1) owns_holds [of q] c(2) have "holds p'" by simp
      with \<open>\<not> owns p'\<close> have "p' = Aborted True" by (simp add: holds_def)
      then show ?thesis by (rule a)
    qed
    with Held assms(1,2) s h show ?thesis by (cases L') (auto simp: lock_step_simps)
  qed
qed

lemma lock_goto:
  assumes "at_lock \<sigma> L" "at_lock (goto i p' \<tau>) L'" "conns \<sigma> i = Some p" "holds p = holds p'" "owns p' \<Longrightarrow> owns p"
    and "\<And>b. p' = Aborted b \<Longrightarrow> stopping \<sigma>" and "conns \<tau> = conns \<sigma>" "busy \<tau> = busy \<sigma>" "recovery \<tau> = recovery \<sigma>"
  shows "L' = L \<or> lock_step (stopping \<sigma>) L L'"
  by (rule lock_same [OF assms(1-6)]) (use assms(7-) in \<open>simp_all add: goto_def\<close>)

lemma lock_apart:
  assumes "at_lock \<sigma> L" "at_lock \<sigma>' L'" "conns \<sigma>' = conns \<sigma>" "busy \<sigma>' = busy \<sigma>" "recovery \<sigma>' = recovery \<sigma>"
  shows "L' = L \<or> lock_step (stopping \<sigma>) L L'"
proof -
  have "holders \<sigma>' = holders \<sigma>" using same_conns [OF assms(3)] by simp
  with assms show ?thesis by (cases L; cases L') (auto simp: holders_def dest: owns_holds)
qed

lemma lock_recovery:
  assumes "at_lock \<sigma> L" "at_lock \<sigma>' L'" "conns \<sigma>' = conns \<sigma>" "recovery \<sigma> \<noteq> None"
    and "recovery \<sigma>' \<noteq> None \<or> \<not> busy \<sigma>' \<or> stopping \<sigma>"
  shows "L' = L \<or> lock_step (stopping \<sigma>) L L'"
proof -
  have "L = Recovering" "holders \<sigma>' = {}" using assms(1,3,4) same_conns [of \<sigma>' \<sigma>] by (cases L; auto)+
  with assms(2,5) show ?thesis by (cases L') (auto simp: lock_step_simps)
qed

text \<open>The owner ends.\<close>

lemma lock_end:
  assumes "at_lock \<sigma> L" "at_lock \<sigma>' L'" "conns \<sigma> i = Some p" "owns p" "ownership \<sigma>"
    and "conns \<sigma>' = (conns \<sigma>)(i \<mapsto> Done)" "busy \<sigma>' = (recovery \<sigma>' \<noteq> None)"
  shows "L' = L \<or> lock_step (stopping \<sigma>) L L'"
proof -
  have "i \<in> holders \<sigma>" using assms(3,4) in_holders owns_holds by blast
  with assms(1,3,4) assms(5) have "L = Held i" by (cases L) (auto simp: ownership_def owned_def)
  with assms(2,7) show ?thesis by (cases L') (auto simp: lock_step_simps)
qed

lemma lock_simulates:
  assumes "step C \<sigma> \<sigma>'" "ownership \<sigma>" "at_lock \<sigma> L" "at_lock \<sigma>' L'"
  shows "L' = L \<or> lock_step (stopping \<sigma>) L L'"
  using assms(1)
proof (cases rule: step.cases)
  case (connect i u)
  then have "holders \<sigma>' = holders \<sigma>" using holders_goto [of \<sigma>' \<sigma> i "Accepted u"] by (simp add: goto_def holders_def)
  with connect assms(3,4) show ?thesis
    by (cases L; cases L') (auto simp: goto_def lock_step_simps split: if_splits)
next
  case (admit i u)
  then have "L = Free" "recovery \<sigma> = None" using assms(2,3) by (cases L, auto)+
  with admit assms(4) show ?thesis by (cases L') (auto simp: lock_step_simps goto_def)
next
  case (no_lease i)
  then show ?thesis by (intro lock_end [OF assms(3,4) no_lease(2) _ assms(2)])
    (use ownership_busy [OF assms(2) no_lease(2)] in \<open>simp_all add: goto_def\<close>)
next
  case (released i l l' w')
  then show ?thesis by (intro lock_end [OF assms(3,4) released(2) _ assms(2)])
    (use ownership_busy [OF assms(2) released(2)] in \<open>simp_all add: goto_def\<close>)
next
  case (release_failed i l l' w')
  then show ?thesis by (intro lock_end [OF assms(3,4) release_failed(2) _ assms(2)])
    (use ownership_busy [OF assms(2) release_failed(2)] in \<open>simp_all add: goto_def\<close>)
next
  case (retry l l' w' ok)
  then show ?thesis by (intro lock_recovery [OF assms(3,4)]) auto
next
  case (retry_last l l' w' ok)
  then show ?thesis by (intro lock_recovery [OF assms(3,4)]) auto
next
  case (recover w' r)
  then show ?thesis by (intro lock_recovery [OF assms(3,4)]) auto
next
  case recover_last
  then show ?thesis by (intro lock_recovery [OF assms(3,4)]) auto
next
  case stop
  then show ?thesis by (intro lock_apart [OF assms(3,4)]) auto
next
  case cancel_all
  then show ?thesis by (intro lock_apart [OF assms(3,4)]) auto
next
  case (tick d)
  then show ?thesis by (intro lock_apart [OF assms(3,4)]) auto
next
  case (outside s')
  then show ?thesis by (intro lock_apart [OF assms(3,4)]) auto
next
  case (cancelled i p)
  have "owns (after_cancel p) \<Longrightarrow> owns p" by (cases p) auto
  then show ?thesis
    by (intro lock_same [OF assms(3,4) cancelled(3)])
      (use cancelled cancelling_stopping [OF cancelled(2) assms(2)] in \<open>simp_all add: goto_def\<close>)
next
  case (cancelled_releasing i l l' s' post pre ok)
  show ?thesis
    by (rule lock_same [OF assms(3,4) cancelled_releasing(3)])
      (use cancelled_releasing cancelling_stopping [OF cancelled_releasing(2) assms(2)] in \<open>simp_all add: goto_def\<close>)
qed (insert assms(3,4), hypsubst, rule lock_goto, assumption, assumption, assumption, (simp; fail)+)+

text \<open>Only admission takes a free lock, for a peer with the right user id.\<close>

lemma lock_taken:
  assumes "step C \<sigma> \<sigma>'" "at_lock \<sigma> Free" "at_lock \<sigma>' (Held i)"
  shows "conns \<sigma> i = Some (Accepted (owner_uid C))"
  using assms(1)
proof (cases rule: step.cases)
  case (admit j u)
  have "holders \<sigma>' = insert j (holders \<sigma>)" using admit(1) holders_goto [of \<sigma>' \<sigma> j Greeting] by (simp add: goto_def)
  with assms(2,3) have "i = j" by simp
  with admit show ?thesis by simp
qed (use assms(2,3) in \<open>simp_all add: goto_def\<close>)

lemma lost_stays:
  assumes "(step C)\<^sup>*\<^sup>* \<sigma> \<sigma>'" "ownership \<sigma>" "at_lock \<sigma> Lost"
  shows "ownership \<sigma>' \<and> at_lock \<sigma>' Lost"
  using assms
proof (induction rule: rtranclp_induct)
  case (step \<tau> \<tau>')
  then have t: "ownership \<tau>" "at_lock \<tau> Lost" by simp_all
  from ownership_step [OF step(2) t(1)] have o: "ownership \<tau>'" .
  then obtain L where "at_lock \<tau>' L" using lock_exists by blast
  with lock_simulates [OF step(2) t this] o show ?case by (auto simp: lock_step_simps simp del: at_lock.simps)
qed simp

text \<open>
  C4. In every reachable state the bridge is in exactly one state of the lock, every step
  of the bridge keeps that state or is a step of the lock, only a connected peer with the
  right user id takes it, and a lock that is lost when the bridge stops stays lost.
\<close>

theorem bridge_is_lock:
  assumes "reachable C w \<sigma>" and "in_tables w"
  shows "(\<exists>!L. at_lock \<sigma> L) \<and>
    (\<forall>\<sigma>' L L'. step C \<sigma> \<sigma>' \<and> at_lock \<sigma> L \<and> at_lock \<sigma>' L' \<longrightarrow>
      L' = L \<or> lock_step (stopping \<sigma>) L L' \<and> (\<forall>i. L' = Held i \<longrightarrow> conns \<sigma> i = Some (Accepted (owner_uid C)))) \<and>
    (\<forall>\<sigma>'. (step C)\<^sup>*\<^sup>* \<sigma> \<sigma>' \<and> at_lock \<sigma> Lost \<longrightarrow> at_lock \<sigma>' Lost)"
proof (intro conjI allI impI)
  have o: "ownership \<sigma>" using reachable_inv [OF assms] by blast
  show "\<exists>!L. at_lock \<sigma> L" using lock_exists [OF o] lock_unique by blast
  show "at_lock \<sigma>' Lost" if "(step C)\<^sup>*\<^sup>* \<sigma> \<sigma>' \<and> at_lock \<sigma> Lost" for \<sigma>'
    using that lost_stays [OF _ o] by blast
  fix \<sigma>' L L'
  assume "step C \<sigma> \<sigma>' \<and> at_lock \<sigma> L \<and> at_lock \<sigma>' L'"
  then have s: "step C \<sigma> \<sigma>'" "at_lock \<sigma> L" "at_lock \<sigma>' L'" by blast+
  have "conns \<sigma> i = Some (Accepted (owner_uid C))" if "lock_step (stopping \<sigma>) L (Held i)" "L' = Held i" for i
    using that s lock_taken by (auto simp: lock_step_simps simp del: at_lock.simps)
  with lock_simulates [OF s(1) o s(2,3)]
  show "L' = L \<or> lock_step (stopping \<sigma>) L L' \<and> (\<forall>i. L' = Held i \<longrightarrow> conns \<sigma> i = Some (Accepted (owner_uid C)))"
    by blast
qed

theorem bridge_is_lock_witness:
  "\<exists>\<sigma>. reachable lab (True, []) \<sigma> \<and> at_lock \<sigma> (Held 0) \<and>
     (\<forall>\<sigma>' L'. step lab \<sigma> \<sigma>' \<and> at_lock \<sigma>' L' \<longrightarrow> L' \<in> {Held 0, Free, Recovering})"
proof -
  obtain \<sigma> where s: "reachable lab (True, []) \<sigma>" "conns \<sigma> 0 = Some Greeting" "busy \<sigma>" "\<not> stopping \<sigma>" "recovery \<sigma> = None"
    using lab_greets by blast
  have "in_tables (True, [])" by (simp add: in_tables_def)
  note lock = bridge_is_lock [OF s(1) this]
  then obtain L where L: "at_lock \<sigma> L" by blast
  have "0 \<in> holders \<sigma>" using in_holders [OF s(2)] by simp
  with L s(3-5) have "L = Held 0" by (cases L) auto
  moreover have "L' \<in> {Held 0, Free, Recovering}" if "step lab \<sigma> \<sigma>'" "at_lock \<sigma>' L'" for \<sigma>' L'
  proof -
    have "L' = L \<or> lock_step (stopping \<sigma>) L L'" using lock that L by blast
    then have "L' = Held 0 \<or> lock_step False (Held 0) L'" using s(4) \<open>L = Held 0\<close> by simp
    then show ?thesis by (auto simp: lock_step_simps)
  qed
  ultimately show ?thesis using s(1) L by blast
qed

end
