(* ===== verification/Run_Config.thy ===== *)
theory Run_Config
  imports Hid_Prelude
begin

text \<open>
  The configuration of the supervisor \<open>tools/run.py\<close>: what \<open>load\<close> accepts, the
  arguments of the HID bridge, the environment of the children, and the
  configuration \<open>tools/install_server.py\<close> writes.  A configuration is the JSON
  value that was parsed; a path is a POSIX path.
\<close>

section \<open>Small pieces of Python\<close>

definition starts_with :: "string \<Rightarrow> string \<Rightarrow> bool" where
  "starts_with p s \<longleftrightarrow> take (length p) s = p"

definition bad_char :: "char \<Rightarrow> bool" where
  "bad_char c \<longleftrightarrow> c \<in> set [CHR 0x0D, CHR 0x0A, CHR 0x00]"

text \<open>\<open>os.path.isabs\<close> on POSIX\<close>

definition is_abs :: "string \<Rightarrow> bool" where
  "is_abs p \<longleftrightarrow> starts_with ''/'' p"

fun is_bool_value :: "json \<Rightarrow> bool" where
  "is_bool_value (JBool b) = True"
| "is_bool_value _ = False"

text \<open>\<open>bool(v)\<close>\<close>

fun truthy :: "json \<Rightarrow> bool" where
  "truthy JNull = False"
| "truthy (JBool b) = b"
| "truthy (JInt i) = (i \<noteq> 0)"
| "truthy (JFloat q) = (q \<noteq> 0)"
| "truthy (JStr s) = (s \<noteq> [])"
| "truthy (JList vs) = (vs \<noteq> [])"
| "truthy (JObj fs) = (fs \<noteq> [])"

definition item :: "(string \<times> json) list \<Rightarrow> string \<Rightarrow> json \<Rightarrow> json" where
  "item c k d = (case map_of c k of None \<Rightarrow> d | Some v \<Rightarrow> v)"

definition key_set :: "(string \<times> json) list \<Rightarrow> string set" where
  "key_set c = set (map fst c)"

definition set_default :: "(string \<times> json) list \<Rightarrow> string \<Rightarrow> json \<Rightarrow> (string \<times> json) list" where
  "set_default c k d = (if map_of c k = None then c @ [(k, d)] else c)"

definition set_item :: "(string \<times> json) list \<Rightarrow> string \<Rightarrow> json \<Rightarrow> (string \<times> json) list" where
  "set_item c k v = (if map_of c k = None then c @ [(k, v)]
     else map (\<lambda>(k', v'). (k', if k' = k then v else v')) c)"

section \<open>\<open>load\<close>\<close>

definition expected :: "string list" where
  "expected = [''schema'', ''sunshine_binary'', ''worker_binary'', ''state_directory'',
     ''capture_device'', ''capture_ownership_authorized'', ''allow_cpu_pixel_copy'',
     ''allow_high_resolution'', ''input'']"

definition optional :: "string list" where
  "optional = [''audio'', ''allow_1440p90_experiment'', ''allow_absolute_mouse'']"

definition no_audio :: json where
  "no_audio = JObj [(''enabled'', JBool False), (''alsa_device'', JStr [])]"

definition audio_device_ok :: "string \<Rightarrow> bool" where
  "audio_device_ok d \<longleftrightarrow>
     (starts_with ''hw:'' d \<or> starts_with ''plughw:'' d) \<and> length d \<le> 128 \<and>
     \<not> list_ex bad_char d"

definition check_audio :: "json \<Rightarrow> exn option" where
  "check_audio audio =
     (case audio of
        JObj a \<Rightarrow>
          if key_set a \<noteq> {''enabled'', ''alsa_device''} then Some Refused
          else
            (case (item a ''enabled'' JNull, item a ''alsa_device'' JNull) of
               (JBool on, JStr dev) \<Rightarrow>
                 if on \<and> \<not> audio_device_ok dev then Some Refused else None
             | _ \<Rightarrow> Some Refused)
      | _ \<Rightarrow> Some Refused)"

definition check_input :: "json \<Rightarrow> exn option" where
  "check_input i =
     (case i of
        JObj a \<Rightarrow>
          if key_set a \<noteq> {''enabled'', ''exclusive_hid_authorized'', ''kvmd_socket'', ''auth_headers_file''}
          then Some Refused
          else if \<not> is_bool_value (item a ''enabled'' JNull) \<or>
                  \<not> is_bool_value (item a ''exclusive_hid_authorized'' JNull)
          then Some Refused else None
      | _ \<Rightarrow> Some Refused)"

fun check_path :: "json \<Rightarrow> bool" where
  "check_path (JStr p) = (is_abs p \<and> \<not> list_ex bad_char p)"
| "check_path _ = False"

definition path_fields :: "string list" where
  "path_fields = [''sunshine_binary'', ''worker_binary'', ''state_directory'', ''capture_device'']"

definition bool_fields :: "string list" where
  "bool_fields = [''capture_ownership_authorized'', ''allow_cpu_pixel_copy'', ''allow_high_resolution'']"

fun under_dev :: "json \<Rightarrow> bool" where
  "under_dev (JStr p) = starts_with ''/dev/'' p"
| "under_dev _ = False"

text \<open>
  \<open>load\<close> after \<open>json.loads\<close>.  A value without keys fails in \<open>set(c)\<close>, in the test
  of the fields, or in \<open>c['schema']\<close>; \<open>TypeError\<close> stands for the first and the
  last.
\<close>

definition load_fields :: "(string \<times> json) list \<Rightarrow> (string \<times> json) list res" where
  "load_fields c0 =
     (if \<not> set expected \<subseteq> key_set c0 \<or> \<not> key_set c0 \<subseteq> set expected \<union> set optional
         \<or> \<not> py_eq_int (item c0 ''schema'' JNull) 1 then Inl Refused
      else if \<not> is_bool_value (item c0 ''allow_1440p90_experiment'' (JBool False)) then Inl Refused
      else
        (let c1 = set_default c0 ''allow_1440p90_experiment'' (JBool False) in
         if \<not> is_bool_value (item c1 ''allow_absolute_mouse'' (JBool False)) then Inl Refused
         else
           (let c2 = set_default c1 ''allow_absolute_mouse'' (JBool False);
                audio = item c2 ''audio'' no_audio
            in case check_audio audio of
                 Some e \<Rightarrow> Inl e
               | None \<Rightarrow>
                   (let c = set_item c2 ''audio'' audio in
                    if \<not> list_all (\<lambda>k. is_bool_value (item c k JNull)) bool_fields then Inl Refused
                    else
                      (case check_input (item c ''input'' JNull) of
                         Some e \<Rightarrow> Inl e
                       | None \<Rightarrow>
                           if \<not> list_all (\<lambda>k. check_path (item c k JNull)) path_fields then Inl Refused
                           else if \<not> under_dev (item c ''capture_device'' JNull) then Inl Refused
                           else Inr c)))))"

fun unhashable :: "json \<Rightarrow> bool" where
  "unhashable (JList _) = True"
| "unhashable (JObj _) = True"
| "unhashable _ = False"

fun load :: "json \<Rightarrow> (string \<times> json) list res" where
  "load (JObj c) = load_fields c"
| "load (JStr s) = Inl Refused"
| "load (JList vs) =
     (if list_ex unhashable vs then Inl TypeError
      else if set (map JStr expected) \<subseteq> set vs \<and> set vs \<subseteq> set (map JStr (expected @ optional))
      then Inl TypeError else Inl Refused)"
| "load _ = Inl TypeError"

section \<open>Command and environment\<close>

fun sub :: "json \<Rightarrow> string \<Rightarrow> json" where
  "sub (JObj a) k = item a k JNull"
| "sub _ k = JNull"

definition hid_command :: "string \<Rightarrow> (string \<times> json) list \<Rightarrow> string \<Rightarrow> bool \<Rightarrow> json list res" where
  "hid_command python c state release =
     (let i = item c ''input'' JNull in
      if \<not> truthy (sub i ''enabled'') \<or> \<not> truthy (sub i ''exclusive_hid_authorized'') then Inl Refused
      else
        Inr (map JStr [python, ''-m'', ''rkmoon_hid'', ''--socket'', state @ ''/hid.sock'', ''--kvmd-socket'']
             @ [sub i ''kvmd_socket'', JStr ''--exclusive-hid-authorized'']
             @ (if truthy (sub i ''auth_headers_file'') then [JStr ''--headers'', sub i ''auth_headers_file''] else [])
             @ (if release then [JStr ''--release-all''] else [])))"

definition flag :: "bool \<Rightarrow> json" where
  "flag b = JStr (if b then ''1'' else ''0'')"

text \<open>\<open>base\<close> is the release directory, \<open>env\<close> the supervisor's own environment.\<close>

definition base_env ::
  "string \<Rightarrow> (string \<times> json) list \<Rightarrow> string \<Rightarrow> (string \<rightharpoonup> json) \<Rightarrow> (string \<rightharpoonup> json)" where
  "base_env base c state env =
     (let e1 = env(''PYTHONPATH'' \<mapsto> JStr (base @ ''/python''), ''HOME'' \<mapsto> JStr state,
                   ''XDG_CONFIG_HOME'' \<mapsto> JStr (state @ ''/xdg''));
          e2 = e1(''RKMOON_WORKER'' \<mapsto> item c ''worker_binary'' JNull,
                  ''RKMOON_VIDEO_DEVICE'' \<mapsto> item c ''capture_device'' JNull,
                  ''RKMOON_CAPTURE_AUTHORIZED'' \<mapsto> JStr ''1'',
                  ''RKMOON_ALLOW_COPY'' \<mapsto> flag (truthy (item c ''allow_cpu_pixel_copy'' JNull)),
                  ''RKMOON_ALLOW_HIGH_RES'' \<mapsto> flag (truthy (item c ''allow_high_resolution'' JNull)),
                  ''RKMOON_ALLOW_1440P90_EXPERIMENT'' \<mapsto>
                    flag (truthy (item c ''allow_1440p90_experiment'' (JBool False))),
                  ''RKMOON_ALLOW_ABSOLUTE_MOUSE'' \<mapsto>
                    flag (truthy (item c ''allow_absolute_mouse'' (JBool False)) \<and>
                          truthy (sub (item c ''input'' JNull) ''enabled'')));
          e3 = e2(''CONFIGURATION_DIRECTORY'' := None, ''SUNSHINE_MIGRATE_CONFIG'' := None,
                  ''RKMOON_HID_SOCKET'' := None, ''RKMOON_AUDIO_DEVICE'' := None,
                  ''RKMOON_ADMIN_SOCKET'' := None);
          e4 = (if truthy (sub (item c ''audio'' JNull) ''enabled'')
                then e3(''RKMOON_AUDIO_DEVICE'' \<mapsto> sub (item c ''audio'' JNull) ''alsa_device'') else e3)
      in if truthy (sub (item c ''input'' JNull) ''enabled'')
         then e4(''RKMOON_HID_SOCKET'' \<mapsto> JStr (state @ ''/hid.sock'')) else e4)"

section \<open>The installed configuration\<close>

definition runtime_config :: "string \<Rightarrow> json" where
  "runtime_config user = JObj
     [(''schema'', JInt 1),
      (''sunshine_binary'', JStr ''/opt/rkmoon/current/bin/rkmoon-kvm''),
      (''worker_binary'', JStr ''/opt/rkmoon/current/bin/rkmoon-worker''),
      (''state_directory'', JStr ''/var/lib/rkmoon''),
      (''capture_device'', JStr ''/dev/video0''),
      (''capture_ownership_authorized'', JBool True),
      (''allow_cpu_pixel_copy'', JBool True),
      (''allow_high_resolution'', JBool True),
      (''audio'', JObj [(''enabled'', JBool True),
                        (''alsa_device'', JStr ''hw:CARD=rockchiphdmiin,DEV=0'')]),
      (''input'', JObj [(''enabled'', JBool True), (''exclusive_hid_authorized'', JBool True),
                        (''kvmd_socket'', JStr ''/run/rkmoon-input/kvmd.sock''),
                        (''auth_headers_file'', JNull)]),
      (''allow_1440p90_experiment'', JBool True),
      (''allow_absolute_mouse'', JBool True)]"

section \<open>What an accepted configuration satisfies\<close>

text \<open>The whole contract of \<open>load\<close>: what the rest of the supervisor relies on.\<close>

definition accepted :: "(string \<times> json) list \<Rightarrow> bool" where
  "accepted c \<longleftrightarrow>
     py_eq_int (item c ''schema'' JNull) 1 \<and>
     (\<forall>k\<in>set path_fields. \<exists>p. map_of c k = Some (JStr p) \<and> is_abs p \<and> \<not> list_ex bad_char p) \<and>
     (\<exists>p. map_of c ''capture_device'' = Some (JStr p) \<and> starts_with ''/dev/'' p) \<and>
     (\<forall>k\<in>set bool_fields \<union> {''allow_1440p90_experiment'', ''allow_absolute_mouse''}.
        \<exists>b. map_of c k = Some (JBool b)) \<and>
     (\<exists>a on dev. map_of c ''audio'' = Some (JObj a) \<and> map_of a ''enabled'' = Some (JBool on) \<and>
        map_of a ''alsa_device'' = Some (JStr dev) \<and> (on \<longrightarrow> audio_device_ok dev)) \<and>
     (\<exists>i on ex. map_of c ''input'' = Some (JObj i) \<and> map_of i ''enabled'' = Some (JBool on) \<and>
        map_of i ''exclusive_hid_authorized'' = Some (JBool ex) \<and>
        map_of i ''kvmd_socket'' \<noteq> None \<and> map_of i ''auth_headers_file'' \<noteq> None) \<and>
     key_set c = set expected \<union> set optional"

lemma key_set_map_of: "k \<in> key_set c \<longleftrightarrow> map_of c k \<noteq> None"
  by (simp add: key_set_def map_of_eq_None_iff)

lemma item_present: "map_of c k \<noteq> None \<Longrightarrow> item c k d = the (map_of c k)"
  by (auto simp: item_def)

lemma map_of_set_default:
  "map_of (set_default c k d) j = (if j = k \<and> map_of c k = None then Some d else map_of c j)"
  by (auto simp: set_default_def map_add_def split: option.splits)

lemma map_of_set_item: "map_of (set_item c k v) j = (if j = k then Some v else map_of c j)"
proof (cases "map_of c k")
  case None
  then show ?thesis by (auto simp: set_item_def map_add_def split: option.splits)
next
  case (Some u)
  have "map_of (map (\<lambda>(k', v'). (k', if k' = k then v else v')) c) j
      = map_option (\<lambda>v'. if j = k then v else v') (map_of c j)"
    by (induction c) auto
  with Some show ?thesis by (auto simp: set_item_def map_option_case split: option.splits)
qed

lemma key_set_set_default: "key_set (set_default c k d) = insert k (key_set c)"
  by (rule set_eqI) (auto simp: key_set_map_of map_of_set_default)

lemma key_set_set_item: "key_set (set_item c k d) = insert k (key_set c)"
  by (rule set_eqI) (auto simp: key_set_map_of map_of_set_item)

lemma item_eq_JBool: "is_bool_value (item c k d) \<longleftrightarrow>
    (\<exists>b. map_of c k = Some (JBool b)) \<or> map_of c k = None \<and> is_bool_value d"
  by (cases "item c k d") (auto simp: item_def split: option.splits)

lemma check_path_item: "check_path (item c k JNull) \<longleftrightarrow>
    (\<exists>p. map_of c k = Some (JStr p) \<and> is_abs p \<and> \<not> list_ex bad_char p)"
  by (cases "item c k JNull") (auto simp: item_def split: option.splits)

lemma under_dev_item: "under_dev (item c k JNull) \<longleftrightarrow>
    (\<exists>p. map_of c k = Some (JStr p) \<and> starts_with ''/dev/'' p)"
  by (cases "item c k JNull") (auto simp: item_def split: option.splits)

lemma check_audio_None: "check_audio a = None \<Longrightarrow>
    \<exists>fs on dev. a = JObj fs \<and> map_of fs ''enabled'' = Some (JBool on) \<and>
      map_of fs ''alsa_device'' = Some (JStr dev) \<and> (on \<longrightarrow> audio_device_ok dev)"
  by (cases a)
     (auto simp: check_audio_def item_def split: if_splits json.splits option.splits)

lemma check_input_None: "check_input i = None \<Longrightarrow>
    \<exists>fs on ex. i = JObj fs \<and> map_of fs ''enabled'' = Some (JBool on) \<and>
      map_of fs ''exclusive_hid_authorized'' = Some (JBool ex) \<and>
      map_of fs ''kvmd_socket'' \<noteq> None \<and> map_of fs ''auth_headers_file'' \<noteq> None"
proof (cases i)
  case (JObj a)
  assume n: "check_input i = None"
  then have k: "key_set a = {''enabled'', ''exclusive_hid_authorized'', ''kvmd_socket'', ''auth_headers_file''}"
    and b: "is_bool_value (item a ''enabled'' JNull)" "is_bool_value (item a ''exclusive_hid_authorized'' JNull)"
    unfolding check_input_def JObj by (simp_all split: if_splits)
  have "map_of a ''kvmd_socket'' \<noteq> None" "map_of a ''auth_headers_file'' \<noteq> None"
    using k key_set_map_of [of _ a] by blast+
  with b JObj show ?thesis by (auto simp: item_eq_JBool)
qed (simp_all add: check_input_def)

lemma load_accepted:
  assumes "load j = Inr c"
  shows "accepted c"
proof -
  obtain c0 where j: "load_fields c0 = Inr c"
    using assms by (cases j) (auto split: if_splits)
  define c1 where "c1 = set_default c0 ''allow_1440p90_experiment'' (JBool False)"
  define c2 where "c2 = set_default c1 ''allow_absolute_mouse'' (JBool False)"
  have c: "c = set_item c2 ''audio'' (item c2 ''audio'' no_audio)"
    and keys: "set expected \<subseteq> key_set c0" "key_set c0 \<subseteq> set expected \<union> set optional"
    and schema: "py_eq_int (item c0 ''schema'' JNull) 1"
    and b1: "is_bool_value (item c0 ''allow_1440p90_experiment'' (JBool False))"
    and b2: "is_bool_value (item c1 ''allow_absolute_mouse'' (JBool False))"
    and au: "check_audio (item c2 ''audio'' no_audio) = None"
    and bs: "list_all (\<lambda>k. is_bool_value (item c k JNull)) bool_fields"
    and inp: "check_input (item c ''input'' JNull) = None"
    and ps: "list_all (\<lambda>k. check_path (item c k JNull)) path_fields"
    and dev: "under_dev (item c ''capture_device'' JNull)"
    using j by (auto simp: load_fields_def Let_def c1_def c2_def split: if_splits option.splits)
  note m = c map_of_set_item c2_def map_of_set_default c1_def
  have "py_eq_int (item c ''schema'' JNull) 1"
    using schema by (simp add: item_def m)
  moreover have "\<exists>b. map_of c ''allow_1440p90_experiment'' = Some (JBool b)"
    using b1 by (auto simp: item_eq_JBool m)
  moreover have "\<exists>b. map_of c ''allow_absolute_mouse'' = Some (JBool b)"
    using b2 by (auto simp: item_eq_JBool m)
  moreover have "\<exists>a on dev. map_of c ''audio'' = Some (JObj a) \<and> map_of a ''enabled'' = Some (JBool on) \<and>
      map_of a ''alsa_device'' = Some (JStr dev) \<and> (on \<longrightarrow> audio_device_ok dev)"
    using check_audio_None [OF au] by (auto simp: c map_of_set_item)
  moreover have "\<exists>i on ex. map_of c ''input'' = Some (JObj i) \<and> map_of i ''enabled'' = Some (JBool on) \<and>
        map_of i ''exclusive_hid_authorized'' = Some (JBool ex) \<and>
        map_of i ''kvmd_socket'' \<noteq> None \<and> map_of i ''auth_headers_file'' \<noteq> None"
    using check_input_None [OF inp] by (auto simp: item_def split: option.splits)
  moreover have "key_set c = set expected \<union> set optional"
  proof -
    have k: "key_set c = key_set c0 \<union> set optional"
      unfolding m(1) c2_def c1_def key_set_set_item key_set_set_default optional_def by auto
    from keys show ?thesis unfolding k by blast
  qed
  moreover have "\<forall>k\<in>set bool_fields. \<exists>b. map_of c k = Some (JBool b)"
    using bs by (simp add: list_all_iff item_eq_JBool)
  moreover have "\<forall>k\<in>set path_fields. \<exists>p. map_of c k = Some (JStr p) \<and> is_abs p \<and> \<not> list_ex bad_char p"
    using ps by (simp add: list_all_iff check_path_item)
  ultimately show ?thesis using dev unfolding accepted_def under_dev_item by blast
qed

lemma runtime_config_loads: "\<exists>c. load (runtime_config user) = Inr c"
proof -
  have "\<not> isl (load (runtime_config []))" by code_simp
  moreover have "runtime_config user = runtime_config []" by (simp add: runtime_config_def)
  ultimately show ?thesis by (cases "load (runtime_config [])") auto
qed

lemma installed_config_accepted:
  "\<exists>c. load (runtime_config user) = Inr c \<and> accepted c"
  using runtime_config_loads load_accepted by blast



lemma if_apply: "(if b then f else g) x = (if b then f x else g x)"
  by simp

text \<open>
  The children see none of the five variables they must not inherit, the HID socket and
  the audio device exactly when they are enabled, and every other variable as it was.
\<close>

lemma child_environment:
  "base_env base c state env ''CONFIGURATION_DIRECTORY'' = None \<and>
   base_env base c state env ''SUNSHINE_MIGRATE_CONFIG'' = None \<and>
   base_env base c state env ''RKMOON_ADMIN_SOCKET'' = None \<and>
   base_env base c state env ''RKMOON_HID_SOCKET'' =
     (if truthy (sub (item c ''input'' JNull) ''enabled'') then Some (JStr (state @ ''/hid.sock'')) else None) \<and>
   base_env base c state env ''RKMOON_AUDIO_DEVICE'' =
     (if truthy (sub (item c ''audio'' JNull) ''enabled'')
      then Some (sub (item c ''audio'' JNull) ''alsa_device'') else None) \<and>
   base_env base c state env ''HOME'' = Some (JStr state) \<and>
   (n \<notin> {''PYTHONPATH'', ''HOME'', ''XDG_CONFIG_HOME'', ''CONFIGURATION_DIRECTORY'', ''SUNSHINE_MIGRATE_CONFIG''} \<and>
      take 7 n \<noteq> ''RKMOON_'' \<longrightarrow> base_env base c state env n = env n)"
proof -
  have own: "base_env base c state env n = env n"
    if "n \<notin> {''PYTHONPATH'', ''HOME'', ''XDG_CONFIG_HOME'', ''CONFIGURATION_DIRECTORY'', ''SUNSHINE_MIGRATE_CONFIG''}"
      "take 7 n \<noteq> ''RKMOON_''"
  proof -
    have "n \<noteq> ''RKMOON_WORKER''" "n \<noteq> ''RKMOON_VIDEO_DEVICE''" "n \<noteq> ''RKMOON_CAPTURE_AUTHORIZED''"
      "n \<noteq> ''RKMOON_ALLOW_COPY''" "n \<noteq> ''RKMOON_ALLOW_HIGH_RES''"
      "n \<noteq> ''RKMOON_ALLOW_1440P90_EXPERIMENT''" "n \<noteq> ''RKMOON_ALLOW_ABSOLUTE_MOUSE''"
      "n \<noteq> ''RKMOON_HID_SOCKET''" "n \<noteq> ''RKMOON_AUDIO_DEVICE''" "n \<noteq> ''RKMOON_ADMIN_SOCKET''"
      using that(2) by fastforce+
    with that(1) show ?thesis
      unfolding base_env_def Let_def if_apply fun_upd_apply insert_iff empty_iff
      by (simp only: if_False simp_thms if_cancel de_Morgan_disj)
  qed
  show ?thesis
    unfolding base_env_def Let_def if_apply fun_upd_apply
    by (intro conjI impI own [unfolded base_env_def Let_def if_apply fun_upd_apply])
      (simp_all only: list.inject char.inject simp_thms if_True if_False if_cancel list.distinct)
qed

lemma child_environment_witness:
  "base_env ''/opt'' [] ''/s'' [''PATH'' \<mapsto> JStr ''/bin''] ''PATH'' = Some (JStr ''/bin'')"
  using child_environment [of "''/opt''" "[]" "''/s''" "[''PATH'' \<mapsto> JStr ''/bin'']" "''PATH''"] by simp

end
