(* ===== verification/Input_Service.thy ===== *)
theory Input_Service
  imports Hid_Kvmd Run_Config
begin

text \<open>
  The input service on the board: the configuration of the independent kvmd
  (\<open>tools/input_config.py\<close>) and the script that owns the project's USB gadget
  (\<open>tools/input_runtime.py\<close>).  The state of the machine is an argument; the
  result is the list of things done to it, in order, and the exception.
\<close>

section \<open>\<open>input_config.py\<close>\<close>

definition disabled :: json where
  "disabled = JObj [(''enabled'', JBool False)]"

definition starts :: "bool \<Rightarrow> json" where
  "starts b = JObj [(''start'', JBool b)]"

text \<open>\<open>source\<close> and \<open>state\<close> are the resolved paths.\<close>

definition configuration :: "string \<Rightarrow> string \<Rightarrow> string \<Rightarrow> string \<Rightarrow> json" where
  "configuration source state user udc = JObj
     [(''kvmd'', JObj
        [(''auth'', JObj
           [(''enabled'', JBool True),
            (''internal'', JObj [(''type'', JStr ''htpasswd''), (''file'', JStr (state @ ''/htpasswd''))]),
            (''totp'', JObj [(''secret'', JObj [(''file'', JStr [])])]),
            (''usc'', JObj [(''users'', JList [JStr user]), (''groups'', JList []),
                            (''kvmd_users'', JList []), (''kvmd_groups'', JList [])])]),
         (''atx'', JObj [(''type'', JStr ''disabled'')]), (''msd'', JObj [(''type'', JStr ''disabled'')]),
         (''hid'', JObj
           [(''type'', JStr ''otg''), (''keymap'', JStr (source @ ''/contrib/keymaps/en-us'')),
            (''keyboard'', JObj [(''device'', JStr ''/dev/hidg0'')]),
            (''mouse'', JObj [(''device'', JStr ''/dev/hidg1''), (''absolute'', JBool False),
                              (''horizontal_wheel'', JBool True)]),
            (''mouse_alt'', JObj [(''device'', JStr ''/dev/hidg2''), (''horizontal_wheel'', JBool True)]),
            (''jiggler'', disabled)]),
         (''server'', JObj [(''unix'', JStr ''/run/rkmoon-input/kvmd.sock''), (''unix_mode'', JInt 0x1B0),
                            (''unix_rm'', JBool True)]),
         (''info'', JObj
           [(''extras'', JStr (state @ ''/extras'')), (''meta'', JStr (state @ ''/meta.yaml'')),
            (''hw'', JObj [(''platform'', JStr (state @ ''/platform'')),
                           (''vcgencmd_cmd'', JList [JStr ''/bin/false''])])]),
         (''log_reader'', disabled), (''gpio'', JObj [(''drivers'', JObj []), (''scheme'', JObj [])]),
         (''snapshot'', JObj [(''idle_interval'', JInt 0), (''live_interval'', JInt 0),
                              (''wakeup_key'', JStr []), (''wakeup_move'', JInt 0)]),
         (''streamer'', JObj
           [(''cmd'', JList [JStr ''/bin/false'']), (''forever'', JBool False), (''quality'', JInt 0),
            (''unix'', JStr ''/run/rkmoon-input/unused-streamer.sock''),
            (''process_name_prefix'', JStr ''rkmoon/unused-streamer'')]),
         (''switch'', JObj [(''device'', JStr ''/dev/rkmoon-no-switch''),
                            (''default_edid'', JStr (source @ ''/configs/kvmd/edid/v0.hex''))])]),
      (''otg'', JObj
        [(''gadget'', JStr ''rkmoon''), (''udc'', JStr udc), (''user'', JStr ''root''),
         (''meta'', JStr ''/run/rkmoon-gadget/meta''), (''manufacturer'', JStr ''RKMoon''),
         (''product'', JStr ''RKMoon keyboard and dual-mode mouse''), (''serial'', JStr ''RKMOON001''),
         (''config'', JStr ''RKMoon HID only''), (''remote_wakeup'', JBool False),
         (''devices'', JObj
           [(''hid'', JObj [(''keyboard'', starts True), (''mouse'', starts True), (''mouse_alt'', starts True)]),
            (''msd'', starts False), (''drives'', disabled), (''audio'', disabled),
            (''ethernet'', disabled), (''serial'', disabled)])]),
      (''pst'', JObj [(''server'', JObj [(''unix'', JStr ''/run/rkmoon-input/unused-pst.sock'')])])]"

definition side_files :: "(string \<times> string) list" where
  "side_files =
     [(''htpasswd'', []), (''empty.yaml'', ''{}'' @ [CHR 0x0A]), (''meta.yaml'', ''{}'' @ [CHR 0x0A]),
      (''platform'', ''RKMOON_BOARD=NanoPC-T6'' @ [CHR 0x0A]), (''unused-edid.hex'', [])]"

text \<open>The files of the state directory by name; \<open>dumps\<close> is \<open>json.dumps\<close> with indentation.\<close>

fun add_missing :: "(string \<times> string) list \<Rightarrow> (string \<rightharpoonup> string) \<Rightarrow> (string \<rightharpoonup> string)" where
  "add_missing [] fs = fs"
| "add_missing ((name, content) # rest) fs =
     add_missing rest (if fs name = None then fs(name \<mapsto> content) else fs)"

definition write_config ::
  "(json \<Rightarrow> string) \<Rightarrow> json \<Rightarrow> (string \<rightharpoonup> string) \<Rightarrow> (string \<rightharpoonup> string) \<times> exn option" where
  "write_config dumps cfg fs =
     (let fs1 = add_missing side_files fs in
      if fs1 ''main.yaml'' \<noteq> None then (fs1, Some RuntimeError)
      else (fs1(''main.yaml'' \<mapsto> dumps cfg @ [CHR 0x0A]), None))"

section \<open>\<open>input_runtime.py\<close>\<close>

text \<open>\<open>cfg[a][b]...\<close> and the assignment to such a place\<close>

fun look :: "json \<Rightarrow> string list \<Rightarrow> json res" where
  "look j [] = Inr j"
| "look j (k # ks) = (case py_index j k of Inl e \<Rightarrow> Inl e | Inr v \<Rightarrow> look v ks)"

fun assign :: "json \<Rightarrow> string list \<Rightarrow> json \<Rightarrow> json res" where
  "assign j [] v = Inr v"
| "assign j (k # ks) v =
     (case j of
        JObj fs \<Rightarrow>
          if ks = [] then Inr (JObj (set_item fs k v))
          else
            (case map_of fs k of
               None \<Rightarrow> Inl KeyError
             | Some w \<Rightarrow>
                 (case assign w ks v of
                    Inl e \<Rightarrow> Inl e
                  | Inr w' \<Rightarrow> Inr (JObj (set_item fs k w'))))
      | _ \<Rightarrow> Inl TypeError)"

text \<open>
  \<open>gadgets\<close> lists the gadgets of configfs with the UDC each is bound to, \<open>serial\<close>
  is the serial number of the one called rkmoon, \<open>hid_dev\<close> the device number of
  a HID function once the gadget is started, \<open>node_dev\<close> the device number behind
  \<open>/dev/hidgN\<close> once it has appeared (\<open>None\<close> when it has not after three seconds).
\<close>

record usb_host =
  run_uid :: int
  udcs :: "string list"
  has_group :: bool
  has_empty :: bool
  gadgets :: "(string \<times> string) list"
  serial :: string
  command_fails :: bool
  hid_dev :: "string \<Rightarrow> nat \<times> nat"
  node_dev :: "nat \<Rightarrow> (nat \<times> nat) option"
  connects :: bool

datatype verb = Start | Stop | Serve | Check | Ready

datatype usb_act = Otg verb | Own_Node nat | Write_Main json | Exec_Kvmd | Dump_Config

definition run_module :: "usb_host \<Rightarrow> usb_act \<Rightarrow> exn option" where
  "run_module h a = (if command_fails h then Some CalledProcessError else None)"

text \<open>The loop over the HID functions: nodes handed over so far, and the exception.\<close>

fun own_nodes :: "usb_host \<Rightarrow> string list \<Rightarrow> nat list \<times> exn option" where
  "own_nodes h [] = ([], None)"
| "own_nodes h (f # fs) =
     (case hid_dev h f of
        (major, minor) \<Rightarrow>
          if node_dev h minor \<noteq> Some (major, minor) then ([], Some RuntimeError)
          else (case own_nodes h fs of (ns, r) \<Rightarrow> (minor # ns, r)))"

definition node_path :: "nat \<Rightarrow> json" where
  "node_path minor = JStr (''/dev/hidg'' @ nat_str minor)"

definition hid_functions :: "json \<Rightarrow> string list res" where
  "hid_functions cfg =
     (case look cfg [''kvmd'', ''hid''] of
        Inl e \<Rightarrow> Inl e
      | Inr hid \<Rightarrow>
          (case py_get hid ''mouse_alt'' (JObj []) of
             Inl e \<Rightarrow> Inl e
           | Inr alt \<Rightarrow>
               (case py_get alt ''device'' JNull of
                  Inl e \<Rightarrow> Inl e
                | Inr dev \<Rightarrow>
                    Inr ([''hid.usb0'', ''hid.usb1''] @ (if truthy dev then [''hid.usb2''] else [])))))"

definition device_names :: "string list" where
  "device_names = [''keyboard'', ''mouse'', ''mouse_alt'']"

text \<open>The assignments of the device paths.\<close>

fun set_devices :: "json \<Rightarrow> (string \<times> nat) list \<Rightarrow> json res" where
  "set_devices cfg [] = Inr cfg"
| "set_devices cfg ((name, minor) # rest) =
     (case assign cfg [''kvmd'', ''hid'', name, ''device''] (node_path minor) of
        Inl e \<Rightarrow> Inl e
      | Inr cfg' \<Rightarrow> set_devices cfg' rest)"

definition start_gadget :: "usb_host \<Rightarrow> json \<Rightarrow> string \<Rightarrow> usb_act list \<times> exn option" where
  "start_gadget h cfg udc =
     (if \<not> has_group h then ([], Some KeyError)
      else if \<not> has_empty h then ([], Some RuntimeError)
      else if list_ex (\<lambda>(n, u). n \<noteq> ''rkmoon'' \<and> u = udc) (gadgets h) then ([], Some RuntimeError)
      else if map_of (gadgets h) ''rkmoon'' \<noteq> None then ([], Some RuntimeError)
      else
        (case run_module h (Otg Start) of
           Some e \<Rightarrow> ([Otg Start], Some e)
         | None \<Rightarrow>
             (case hid_functions cfg of
                Inl e \<Rightarrow> ([Otg Start], Some e)
              | Inr fns \<Rightarrow>
                  (case own_nodes h fns of
                     (ns, Some e) \<Rightarrow> (Otg Start # map Own_Node ns, Some e)
                   | (ns, None) \<Rightarrow>
                       (case set_devices cfg (zip device_names ns) of
                          Inl e \<Rightarrow> (Otg Start # map Own_Node ns, Some e)
                        | Inr cfg' \<Rightarrow> (Otg Start # map Own_Node ns @ [Write_Main cfg'], None))))))"

definition stop_gadget :: "usb_host \<Rightarrow> string \<Rightarrow> usb_act list \<times> exn option" where
  "stop_gadget h udc =
     (case map_of (gadgets h) ''rkmoon'' of
        None \<Rightarrow> ([], None)
      | Some u \<Rightarrow>
          if serial h \<noteq> ''RKMOON001'' then ([], Some RuntimeError)
          else if u \<noteq> [] \<and> u \<noteq> udc then ([], Some RuntimeError)
          else ([Otg Stop], run_module h (Otg Stop)))"

definition runtime_main :: "verb \<Rightarrow> usb_host \<Rightarrow> json \<Rightarrow> usb_act list \<times> exn option" where
  "runtime_main v h cfg =
     (case look cfg [''otg'', ''gadget''] of
        Inl e \<Rightarrow> ([], Some e)
      | Inr g \<Rightarrow>
          if g \<noteq> JStr ''rkmoon'' then ([], Some RuntimeError)
          else
            (case look cfg [''otg'', ''udc''] of
               Inl e \<Rightarrow> ([], Some e)
             | Inr u \<Rightarrow>
                 if v = Ready then
                   (case look cfg [''kvmd'', ''server'', ''unix''] of
                      Inl e \<Rightarrow> ([], Some e)
                    | Inr (JStr _) \<Rightarrow> ([], if connects h then None else Some RuntimeError)
                    | Inr _ \<Rightarrow> ([], Some TypeError))
                 else if v = Serve then ([Exec_Kvmd], None)
                 else if v = Check then ([Dump_Config], run_module h Dump_Config)
                 else if run_uid h \<noteq> 0 then ([], Some RuntimeError)
                 else
                   (case u of
                      JStr udc \<Rightarrow>
                        if udc \<notin> set (udcs h) then ([], Some RuntimeError)
                        else if v = Start then start_gadget h cfg udc
                        else stop_gadget h udc
                    | _ \<Rightarrow> ([], Some TypeError))))"

section \<open>What the two scripts guarantee\<close>

lemma add_missing_keeps: "fs n = Some v \<Longrightarrow> add_missing ds fs n = Some v"
proof (induction ds arbitrary: fs)
  case (Cons d ds)
  then show ?case by (cases d) (auto intro!: Cons.IH)
qed simp

lemma add_missing_other: "n \<notin> fst ` set ds \<Longrightarrow> add_missing ds fs n = fs n"
  by (induction ds arbitrary: fs) auto

text \<open>
Writing the configuration of the input service changes no file that exists:
a present \<open>main.yaml\<close> makes it fail, and only an absent one is written.
\<close>

lemma config_never_overwritten:
  assumes "write_config dumps cfg fs = (fs', r)"
  shows "(\<forall>n v. fs n = Some v \<longrightarrow> fs' n = Some v) \<and>
    (r = None \<longleftrightarrow> fs ''main.yaml'' = None) \<and>
    (r = None \<longrightarrow> fs' ''main.yaml'' = Some (dumps cfg @ [CHR 0x0A]))"
proof -
  have "add_missing side_files fs ''main.yaml'' = fs ''main.yaml''"
    by (rule add_missing_other) (simp add: side_files_def)
  with assms add_missing_keeps show ?thesis
    by (auto simp: write_config_def Let_def split: if_splits)
qed

text \<open>The node of every function of this gadget, and of nothing else, is handed over.\<close>

lemma own_nodes_match:
  "own_nodes h fs = (ns, r) \<Longrightarrow>
     ns = map (snd \<circ> hid_dev h) (take (length ns) fs) \<and> (r = None \<longrightarrow> length ns = length fs) \<and>
     (\<forall>f \<in> set (take (length ns) fs). node_dev h (snd (hid_dev h f)) = Some (hid_dev h f))"
proof (induction fs arbitrary: ns r)
  case (Cons f fs)
  obtain major minor where d: "hid_dev h f = (major, minor)" by fastforce
  show ?case
  proof (cases "node_dev h minor = Some (major, minor)")
    case True
    obtain ms q where o: "own_nodes h fs = (ms, q)" by fastforce
    with Cons.prems d True have "ns = minor # ms" "r = q" by auto
    with Cons.IH [OF o] d True show ?thesis by simp
  next
    case False
    with Cons.prems d have "ns = []" "r \<noteq> None" by auto
    then show ?thesis by simp
  qed
qed simp

lemma hid_functions_known:
  "hid_functions cfg = Inr fns \<Longrightarrow> set fns \<subseteq> {''hid.usb0'', ''hid.usb1'', ''hid.usb2''}"
  by (auto simp: hid_functions_def split: sum.splits if_splits)

definition matched_node :: "usb_host \<Rightarrow> nat \<Rightarrow> bool" where
  "matched_node h n \<longleftrightarrow>
     (\<exists>f \<in> {''hid.usb0'', ''hid.usb1'', ''hid.usb2''}. snd (hid_dev h f) = n \<and> node_dev h n = Some (hid_dev h f))"

lemma own_nodes_matched:
  assumes "own_nodes h fns = (ns, r)" and "hid_functions cfg = Inr fns" and "n \<in> set ns"
  shows "matched_node h n"
proof -
  note m = own_nodes_match [OF assms(1)]
  then have "set ns = (\<lambda>f. snd (hid_dev h f)) ` set (take (length ns) fns)"
    by (metis (no_types, lifting) comp_def list.map_cong0 list.set_map)
  with assms(3) obtain f where f: "f \<in> set (take (length ns) fns)" "n = snd (hid_dev h f)" by blast
  with m have "node_dev h n = Some (hid_dev h f)" by blast
  moreover have "f \<in> {''hid.usb0'', ''hid.usb1'', ''hid.usb2''}"
    using hid_functions_known [OF assms(2)] f(1) in_set_takeD by fast
  ultimately show ?thesis using f(2) unfolding matched_node_def by blast
qed

lemma start_gadget_shape:
  assumes "start_gadget h cfg udc = (acts, r)"
  obtains (none) "acts = []"
    | (begun) ns where "acts = Otg Start # map Own_Node ns" "\<not> list_ex (\<lambda>(n, u). n \<noteq> ''rkmoon'' \<and> u = udc) (gadgets h)"
        "map_of (gadgets h) ''rkmoon'' = None" "\<forall>n \<in> set ns. matched_node h n"
    | (written) ns j where "acts = Otg Start # map Own_Node ns @ [Write_Main j]"
        "\<not> list_ex (\<lambda>(n, u). n \<noteq> ''rkmoon'' \<and> u = udc) (gadgets h)"
        "map_of (gadgets h) ''rkmoon'' = None" "\<forall>n \<in> set ns. matched_node h n"
proof (cases "\<not> has_group h \<or> \<not> has_empty h \<or> list_ex (\<lambda>(n, u). n \<noteq> ''rkmoon'' \<and> u = udc) (gadgets h) \<or>
    map_of (gadgets h) ''rkmoon'' \<noteq> None")
  case True
  with assms have "acts = []" by (auto simp only: start_gadget_def if_True if_False prod.inject split: if_splits)
  then show ?thesis by (rule none)
next
  case False
  note free = this
  show ?thesis
  proof (cases "hid_functions cfg")
    case (Inl e)
    with assms False have "acts = Otg Start # map Own_Node []"
      by (auto simp: start_gadget_def split: option.splits)
    with begun [of "[]"] free show ?thesis by simp
  next
    case (Inr fns)
    obtain ns q where o: "own_nodes h fns = (ns, q)" by (metis surj_pair)
    have m: "\<forall>n \<in> set ns. matched_node h n" using own_nodes_matched [OF o Inr] by blast
    have "acts = Otg Start # map Own_Node [] \<or> acts = Otg Start # map Own_Node ns \<or>
        (\<exists>j. acts = Otg Start # map Own_Node ns @ [Write_Main j])"
      using assms free Inr o by (auto simp: start_gadget_def split: option.splits sum.splits)
    with begun [of ns] begun [of "[]"] written [of ns] m free show ?thesis by auto
  qed
qed

lemma start_gadget_acts:
  assumes "start_gadget h cfg udc = (acts, r)"
  shows "Otg Stop \<notin> set acts"
    and "acts \<noteq> [] \<Longrightarrow> Otg Start \<in> set acts \<and> map_of (gadgets h) ''rkmoon'' = None \<and>
      list_all (\<lambda>(n, u). n = ''rkmoon'' \<or> u \<noteq> udc) (gadgets h)"
    and "Own_Node n \<in> set acts \<Longrightarrow> matched_node h n"
proof -
  consider (none) "acts = []"
    | (begun) ns where "acts = Otg Start # map Own_Node ns" "\<not> list_ex (\<lambda>(n, u). n \<noteq> ''rkmoon'' \<and> u = udc) (gadgets h)"
        "map_of (gadgets h) ''rkmoon'' = None" "\<forall>n \<in> set ns. matched_node h n"
    | (written) ns j where "acts = Otg Start # map Own_Node ns @ [Write_Main j]"
        "\<not> list_ex (\<lambda>(n, u). n \<noteq> ''rkmoon'' \<and> u = udc) (gadgets h)"
        "map_of (gadgets h) ''rkmoon'' = None" "\<forall>n \<in> set ns. matched_node h n"
    by (rule start_gadget_shape [OF assms])
  note shapes = this
  show "Otg Stop \<notin> set acts" by (cases rule: shapes) auto
  show "acts \<noteq> [] \<Longrightarrow> Otg Start \<in> set acts \<and> map_of (gadgets h) ''rkmoon'' = None \<and>
      list_all (\<lambda>(n, u). n = ''rkmoon'' \<or> u \<noteq> udc) (gadgets h)"
    by (cases rule: shapes) (auto simp: list_all_iff list_ex_iff)
  show "Own_Node n \<in> set acts \<Longrightarrow> matched_node h n"
    by (cases rule: shapes) auto
qed

lemma stop_gadget_acts:
  assumes "stop_gadget h udc = (acts, r)"
  shows "acts = [] \<or> acts = [Otg Stop] \<and> serial h = ''RKMOON001'' \<and>
    (\<exists>u. map_of (gadgets h) ''rkmoon'' = Some u \<and> u \<in> {[], udc})"
  using assms by (auto simp: stop_gadget_def split: option.splits if_splits)

text \<open>The only ways \<open>main\<close> gets to act on a gadget.\<close>

lemma runtime_main_cases:
  assumes "runtime_main v h cfg = (acts, r)"
  obtains (apart) "set acts \<subseteq> {Exec_Kvmd, Dump_Config}"
  | (start) udc where "v = Start" "run_uid h = 0" "look cfg [''otg'', ''gadget''] = Inr (JStr ''rkmoon'')"
      "look cfg [''otg'', ''udc''] = Inr (JStr udc)" "udc \<in> set (udcs h)" "start_gadget h cfg udc = (acts, r)"
  | (stop) udc where "v = Stop" "run_uid h = 0" "look cfg [''otg'', ''gadget''] = Inr (JStr ''rkmoon'')"
      "look cfg [''otg'', ''udc''] = Inr (JStr udc)" "stop_gadget h udc = (acts, r)"
proof (cases "look cfg [''otg'', ''gadget'']")
  case (Inl e)
  with assms show ?thesis by (intro apart) (simp add: runtime_main_def del: look.simps)
next
  case (Inr g)
  note g = this
  show ?thesis
  proof (cases "look cfg [''otg'', ''udc'']")
    case (Inl e)
    with assms g show ?thesis
      by (intro apart) (simp add: runtime_main_def del: look.simps split: if_splits)
  next
    case (Inr u)
    show ?thesis
    proof (cases "v \<in> {Ready, Serve, Check} \<or> run_uid h \<noteq> 0 \<or> g \<noteq> JStr ''rkmoon'' \<or> (\<nexists>udc. u = JStr udc \<and> udc \<in> set (udcs h))")
      case True
      from assms have "runtime_main v h cfg = (acts, r)" .
      then have "acts = [] \<or> acts = [Exec_Kvmd] \<or> acts = [Dump_Config]"
        unfolding runtime_main_def g Inr sum.case using True
        by (simp del: look.simps split: if_splits sum.split_asm json.split_asm)
      then show ?thesis by (intro apart) auto
    next
      case False
      then obtain udc where u: "u = JStr udc" "udc \<in> set (udcs h)" "g = JStr ''rkmoon''" "run_uid h = 0"
        and v: "v = Start \<or> v = Stop" by (cases v) auto
      from v show ?thesis
      proof
        assume v: "v = Start"
        with assms u g Inr have "start_gadget h cfg udc = (acts, r)" by (simp add: runtime_main_def del: look.simps)
        with u v g Inr show ?thesis by (intro start) auto
      next
        assume v: "v = Stop"
        with assms u g Inr have "stop_gadget h udc = (acts, r)" by (simp add: runtime_main_def del: look.simps)
        with u v g Inr show ?thesis by (intro stop) auto
      qed
    qed
  qed
qed

lemma only_other_gadgets:
  assumes "map_of gs k = None" and "list_all (\<lambda>(n, u). n = k \<or> u \<noteq> udc) gs"
  shows "list_all (\<lambda>(n, u). n \<noteq> k \<and> u \<noteq> udc) gs"
  using assms by (induction gs) (auto split: if_splits)

text \<open>
C36. The gadget is started only by \<open>start\<close>, as root, for the gadget rkmoon, on a UDC
that exists and that no other gadget holds, and only when there is no rkmoon
gadget yet.  It is stopped only by \<open>stop\<close>, as root, when the present one carries
the project's serial number and sits on no other UDC.  A device node is handed
to the input group only after such a start, and only when it is the node of one
of this gadget's own HID functions.
\<close>

theorem gadget_guarded:
  assumes "runtime_main v h cfg = (acts, r)"
  shows "(Otg Start \<in> set acts \<longrightarrow> v = Start \<and> run_uid h = 0 \<and> look cfg [''otg'', ''gadget''] = Inr (JStr ''rkmoon'') \<and>
      (\<exists>udc. look cfg [''otg'', ''udc''] = Inr (JStr udc) \<and> udc \<in> set (udcs h) \<and>
        list_all (\<lambda>(n, u). n \<noteq> ''rkmoon'' \<and> u \<noteq> udc) (gadgets h))) \<and>
    (Otg Stop \<in> set acts \<longrightarrow> v = Stop \<and> run_uid h = 0 \<and> serial h = ''RKMOON001'' \<and>
      (\<exists>u udc. map_of (gadgets h) ''rkmoon'' = Some u \<and> look cfg [''otg'', ''udc''] = Inr (JStr udc) \<and> u \<in> {[], udc})) \<and>
    (Own_Node n \<in> set acts \<longrightarrow> Otg Start \<in> set acts \<and> matched_node h n)"
  using assms
proof (cases rule: runtime_main_cases)
  case (start udc)
  note acts = start_gadget_acts [OF start(6)]
  have free: "list_all (\<lambda>(n, u). n \<noteq> ''rkmoon'' \<and> u \<noteq> udc) (gadgets h)" if "acts \<noteq> []"
    by (rule only_other_gadgets) (use acts(2) [OF that] in blast)+
  show ?thesis
  proof (intro conjI impI)
    assume "Otg Start \<in> set acts"
    then have "acts \<noteq> []" by auto
    from start(4,5) free [OF this] show "\<exists>udc. look cfg [''otg'', ''udc''] = Inr (JStr udc) \<and> udc \<in> set (udcs h) \<and>
        list_all (\<lambda>(n, u). n \<noteq> ''rkmoon'' \<and> u \<noteq> udc) (gadgets h)" by blast
  next
    assume "Own_Node n \<in> set acts"
    moreover from this have "acts \<noteq> []" by auto
    ultimately show "Otg Start \<in> set acts" "matched_node h n" using acts(2,3) by blast+
  qed (use start acts(1) in simp_all)
next
  case (stop udc)
  from stop_gadget_acts [OF stop(5)] show ?thesis
  proof
    assume "acts = []"
    then show ?thesis by simp
  next
    assume a: "acts = [Otg Stop] \<and> serial h = ''RKMOON001'' \<and>
      (\<exists>u. map_of (gadgets h) ''rkmoon'' = Some u \<and> u \<in> {[], udc})"
    with stop(4) have "\<exists>u udc. map_of (gadgets h) ''rkmoon'' = Some u \<and> look cfg [''otg'', ''udc''] = Inr (JStr udc) \<and> u \<in> {[], udc}"
      by blast
    with a stop(1,2) show ?thesis by (simp del: look.simps)
  qed
qed auto


section \<open>The configuration that is written back\<close>

lemma set_item_twice: "set_item (set_item fs k v) k w = set_item fs k w"
proof (cases "map_of fs k")
  case None
  then have "map (\<lambda>(k', v'). (k', if k' = k then w else v')) fs = fs"
    by (intro map_idI) (auto simp: map_of_eq_None_iff image_iff)
  with None show ?thesis by (simp add: set_item_def map_add_def)
next
  case (Some x)
  then show ?thesis
    using map_of_set_item [of fs k v k] by (simp add: set_item_def) (auto simp: comp_def intro!: map_cong)
qed

lemma set_item_swap:
  "map_of fs k \<noteq> None \<Longrightarrow> map_of fs l \<noteq> None \<Longrightarrow> k \<noteq> l \<Longrightarrow>
     set_item (set_item fs k v) l w = set_item (set_item fs l w) k v"
  using map_of_set_item [of fs k v l] map_of_set_item [of fs l w k]
  by (simp add: set_item_def split del: if_split) (auto simp: comp_def)

lemma assign_deep:
  assumes "assign j (k # ks) v = Inr j1" and "ks \<noteq> []"
  obtains fs w w' where "j = JObj fs" "map_of fs k = Some w" "assign w ks v = Inr w'" "j1 = JObj (set_item fs k w')"
  using assms by (auto split: json.splits option.splits sum.splits)

lemma assign_into:
  "map_of fs k = Some w \<Longrightarrow> assign w ks v = Inr w' \<Longrightarrow> ks \<noteq> [] \<Longrightarrow>
     assign (JObj fs) (k # ks) v = Inr (JObj (set_item fs k w'))"
  by simp

lemma assign_again: "assign j p v = Inr j1 \<Longrightarrow> assign j1 p w = assign j p w"
proof (induction p arbitrary: j j1)
  case (Cons k ks)
  show ?case
  proof (cases "ks = []")
    case True
    with Cons.prems show ?thesis by (auto simp: set_item_twice split: json.splits)
  next
    case False
    with Cons.prems obtain fs x x' where d: "j = JObj fs" "map_of fs k = Some x" "assign x ks v = Inr x'"
        "j1 = JObj (set_item fs k x')" by (rule assign_deep)
    with Cons.IH [OF d(3)] False show ?thesis
      by (simp add: map_of_set_item set_item_twice split: sum.splits)
  qed
qed simp

lemma assign_any: "assign j p v = Inr j1 \<Longrightarrow> \<exists>j2. assign j p w = Inr j2"
proof (induction p arbitrary: j j1)
  case (Cons k ks)
  show ?case
  proof (cases "ks = []")
    case True
    with Cons.prems show ?thesis by (auto split: json.splits)
  next
    case False
    with Cons.prems obtain fs x x' where d: "j = JObj fs" "map_of fs k = Some x" "assign x ks v = Inr x'"
      by (rule assign_deep)
    with Cons.IH [OF d(3)] False show ?thesis by auto
  qed
qed simp

lemma assign_diamond:
  assumes "assign j (c @ k # p) v = Inr j1" and "assign j (c @ l # q) w = Inr j2"
    and "k \<noteq> l" "p \<noteq> []" "q \<noteq> []"
  shows "\<exists>j3. assign j1 (c @ l # q) w = Inr j3 \<and> assign j2 (c @ k # p) v = Inr j3"
  using assms
proof (induction c arbitrary: j j1 j2)
  case Nil
  from Nil.prems(1) [unfolded append_Nil] Nil.prems(4) obtain fs x x' where
      x: "j = JObj fs" "map_of fs k = Some x" "assign x p v = Inr x'" "j1 = JObj (set_item fs k x')"
    by (rule assign_deep)
  from Nil.prems(2) [unfolded append_Nil] Nil.prems(5) obtain gs y y' where
      y: "j = JObj gs" "map_of gs l = Some y" "assign y q w = Inr y'" "j2 = JObj (set_item gs l y')"
    by (rule assign_deep)
  from x y Nil.prems show ?case by (auto simp: map_of_set_item intro: set_item_swap)
next
  case (Cons a c)
  from Cons.prems(1) [unfolded append_Cons] obtain fs x x' where
      x: "j = JObj fs" "map_of fs a = Some x" "assign x (c @ k # p) v = Inr x'" "j1 = JObj (set_item fs a x')"
    by (rule assign_deep) simp
  from Cons.prems(2) [unfolded append_Cons] obtain gs y y' where
      y: "j = JObj gs" "map_of gs a = Some y" "assign y (c @ l # q) w = Inr y'" "j2 = JObj (set_item gs a y')"
    by (rule assign_deep) simp
  from x y have "assign x (c @ l # q) w = Inr y'" by simp
  from Cons.IH [OF x(3) this Cons.prems(3-5)] obtain z where
      z: "assign x' (c @ l # q) w = Inr z" "assign y' (c @ k # p) v = Inr z" by blast
  from x y z show ?case by (simp add: map_of_set_item set_item_twice)
qed

definition device_path :: "string \<Rightarrow> string list" where
  "device_path name = [''kvmd'', ''hid'', name, ''device'']"

lemma set_devices_step:
  "set_devices cfg ((name, m) # rest) =
     (case assign cfg (device_path name) (node_path m) of Inl e \<Rightarrow> Inl e | Inr c \<Rightarrow> set_devices c rest)"
  by (simp add: device_path_def)

lemma device_diamond:
  assumes "assign j (device_path a) v = Inr j1" and "assign j (device_path b) w = Inr j2" and "a \<noteq> b"
  shows "\<exists>j3. assign j1 (device_path b) w = Inr j3 \<and> assign j2 (device_path a) v = Inr j3"
  using assign_diamond [of j "[''kvmd'', ''hid'']" a "[''device'']" v j1 b "[''device'']" w j2] assms
  by (simp add: device_path_def del: assign.simps)

text \<open>An assignment to one device and the assignments to the others can be made in either order.\<close>

lemma set_devices_diamond:
  assumes "set_devices c l = Inr c1" and "assign c (device_path a) v = Inr c2" and "a \<notin> fst ` set l"
  shows "\<exists>c3. assign c1 (device_path a) v = Inr c3 \<and> set_devices c2 l = Inr c3"
  using assms
proof (induction l arbitrary: c c2)
  case (Cons d l)
  obtain b m where d: "d = (b, m)" by (metis surj_pair)
  from Cons.prems(1) obtain x where x: "assign c (device_path b) (node_path m) = Inr x" "set_devices x l = Inr c1"
    by (auto simp: d set_devices_step simp del: set_devices.simps split: sum.splits)
  from device_diamond [OF x(1) Cons.prems(2)] Cons.prems(3) d obtain y where
      y: "assign x (device_path a) v = Inr y" "assign c2 (device_path b) (node_path m) = Inr y" by auto
  from Cons.IH [OF x(2) y(1)] Cons.prems(3) obtain z where
      "assign c1 (device_path a) v = Inr z" "set_devices y l = Inr z" by auto
  with y show ?case by (auto simp: d set_devices_step simp del: set_devices.simps)
qed simp

text \<open>Assigning again forgets what was assigned before.\<close>

lemma set_devices_again:
  assumes "set_devices c l = Inr c1" and "map fst l' = map fst l" and "distinct (map fst l)"
  shows "set_devices c1 l' = set_devices c l'"
  using assms
proof (induction l arbitrary: c c1 l')
  case (Cons d l)
  obtain a m where d: "d = (a, m)" by (metis surj_pair)
  from Cons.prems(2) d obtain m' k where l': "l' = (a, m') # k" "map fst k = map fst l"
    by (cases l') auto
  from Cons.prems(1) obtain x where x: "assign c (device_path a) (node_path m) = Inr x" "set_devices x l = Inr c1"
    by (auto simp: d set_devices_step simp del: set_devices.simps split: sum.splits)
  from assign_any [OF x(1)] obtain y where y: "assign c (device_path a) (node_path m') = Inr y" by blast
  with assign_again [OF x(1)] have "assign x (device_path a) (node_path m') = Inr y" by simp
  from set_devices_diamond [OF x(2) this] Cons.prems(3) d obtain z where
      z: "assign c1 (device_path a) (node_path m') = Inr z" "set_devices y l = Inr z" by auto
  from Cons.IH [OF z(2) l'(2)] Cons.prems(3) have "set_devices z k = set_devices y k" by simp
  with y z show ?case by (simp add: l' set_devices_step del: set_devices.simps)
qed simp

section \<open>What is read of the rewritten configuration\<close>

lemma look_assign_other:
  assumes "assign j (k # p) v = Inr j1" and "l \<noteq> k"
  shows "look j1 (l # q) = look j (l # q)"
  using assms by (auto simp: map_of_set_item split: json.splits if_splits option.splits sum.splits)

lemma look_assign_deep:
  assumes "assign j (c @ k # p) v = Inr j1" and "l \<noteq> k"
  shows "look j1 (c @ l # q) = look j (c @ l # q)"
  using assms
proof (induction c arbitrary: j j1)
  case Nil
  with look_assign_other show ?case by (metis append_Nil)
next
  case (Cons a c)
  from Cons.prems(1) [unfolded append_Cons] obtain fs x x' where
      x: "j = JObj fs" "map_of fs a = Some x" "assign x (c @ k # p) v = Inr x'" "j1 = JObj (set_item fs a x')"
    by (rule assign_deep) simp
  with Cons.IH [OF x(3)] Cons.prems(2) show ?case by (simp add: map_of_set_item)
qed

lemma device_keeps_functions:
  assumes "assign c (device_path a) (node_path m) = Inr c1" and "hid_functions c = Inr fns"
    and "a = ''mouse_alt'' \<Longrightarrow> length fns = 3"
  shows "hid_functions c1 = Inr fns"
proof -
  from assms(1) [unfolded device_path_def] obtain f1 w1 w1' where
      1: "c = JObj f1" "map_of f1 ''kvmd'' = Some w1"
        "assign w1 [''hid'', a, ''device''] (node_path m) = Inr w1'" "c1 = JObj (set_item f1 ''kvmd'' w1')"
    by (rule assign_deep) simp
  from 1(3) obtain f2 w2 w2' where
      2: "w1 = JObj f2" "map_of f2 ''hid'' = Some w2"
        "assign w2 [a, ''device''] (node_path m) = Inr w2'" "w1' = JObj (set_item f2 ''hid'' w2')"
    by (rule assign_deep) simp
  from 2(3) obtain f3 w3 w3' where
      3: "w2 = JObj f3" "map_of f3 a = Some w3"
        "assign w3 [''device''] (node_path m) = Inr w3'" "w2' = JObj (set_item f3 a w3')"
    by (rule assign_deep) simp
  from 3(3) obtain f4 where 4: "w3 = JObj f4" "w3' = JObj (set_item f4 ''device'' (node_path m))"
    by (auto split: json.splits)
  show ?thesis
  proof (cases "a = ''mouse_alt''")
    case True
    with assms(2,3) 3(2) show ?thesis
      by (auto simp: hid_functions_def map_of_set_item 1(1,2,4) 2(1,2,4) 3(1,4) 4 node_path_def split: if_splits sum.splits)
  next
    case False
    with assms(2) show ?thesis
      by (simp add: hid_functions_def map_of_set_item 1(1,2,4) 2(1,2,4) 3(1,2,4) 4)
  qed
qed

lemma device_keeps_rest:
  assumes "assign c (device_path a) v = Inr c1"
  shows "look c1 [''otg'', k] = look c [''otg'', k]"
    and "look c1 [''kvmd'', ''server'', ''unix''] = look c [''kvmd'', ''server'', ''unix'']"
proof -
  show "look c1 [''otg'', k] = look c [''otg'', k]"
    by (rule look_assign_other [OF assms [unfolded device_path_def]]) simp
  show "look c1 [''kvmd'', ''server'', ''unix''] = look c [''kvmd'', ''server'', ''unix'']"
    using look_assign_deep [of c "[''kvmd'']" "''hid''" "[a, ''device'']" v c1 "''server''" "[''unix'']"] assms
    by (simp add: device_path_def del: assign.simps look.simps)
qed

lemma set_devices_rest:
  assumes "set_devices c l = Inr c1"
  shows "look c1 [''otg'', k] = look c [''otg'', k] \<and>
    look c1 [''kvmd'', ''server'', ''unix''] = look c [''kvmd'', ''server'', ''unix'']"
  using assms
proof (induction l arbitrary: c)
  case (Cons d l)
  obtain a m where d: "d = (a, m)" by (metis surj_pair)
  with Cons.prems obtain x where x: "assign c (device_path a) (node_path m) = Inr x" "set_devices x l = Inr c1"
    by (auto simp: set_devices_step simp del: set_devices.simps split: sum.splits)
  from Cons.IH [OF x(2)] show ?case by (simp only: device_keeps_rest [OF x(1)])
qed simp

lemma set_devices_functions:
  assumes "set_devices c l = Inr c1" and "hid_functions c = Inr fns"
    and "''mouse_alt'' \<in> fst ` set l \<Longrightarrow> length fns = 3"
  shows "hid_functions c1 = Inr fns"
  using assms
proof (induction l arbitrary: c)
  case (Cons d l)
  obtain a m where d: "d = (a, m)" by (metis surj_pair)
  with Cons.prems(1) obtain x where x: "assign c (device_path a) (node_path m) = Inr x" "set_devices x l = Inr c1"
    by (auto simp: set_devices_step simp del: set_devices.simps split: sum.splits)
  have "hid_functions x = Inr fns"
    by (rule device_keeps_functions [OF x(1) Cons.prems(2)]) (use Cons.prems(3) d in simp)
  from Cons.IH [OF x(2) this] Cons.prems(3) show ?case by simp
qed simp

lemma hid_functions_length: "hid_functions c = Inr fns \<Longrightarrow> length fns = 2 \<or> length fns = 3"
  by (auto simp: hid_functions_def simp del: look.simps split: sum.splits if_splits)

lemma own_nodes_complete: "own_nodes h fns = (ns, None) \<Longrightarrow> length ns = length fns"
  using own_nodes_match by blast

lemma names_of: "length ns = length fns \<Longrightarrow> length fns = 2 \<or> length fns = 3 \<Longrightarrow>
   map fst (zip device_names ns) = take (length fns) device_names"
  by (auto simp: device_names_def numeral_2_eq_2 numeral_3_eq_3 length_Suc_conv)

lemma written_by:
  assumes "start_gadget h cfg udc = (acts @ [Write_Main cfg'], r)"
  obtains fns ns where "hid_functions cfg = Inr fns" "own_nodes h fns = (ns, None)"
    "set_devices cfg (zip device_names ns) = Inr cfg'"
proof -
  note s = assms [unfolded start_gadget_def]
  have go: "has_group h" "has_empty h" "\<not> list_ex (\<lambda>(n, u). n \<noteq> ''rkmoon'' \<and> u = udc) (gadgets h)"
      "map_of (gadgets h) ''rkmoon'' = None" "run_module h (Otg Start) = None"
    using s by (auto split: if_splits option.splits)
  from s go obtain fns where f: "hid_functions cfg = Inr fns" by (auto split: sum.splits)
  obtain ns q where o: "own_nodes h fns = (ns, q)" by (metis surj_pair)
  have none: "acts @ [Write_Main cfg'] \<noteq> Otg Start # map Own_Node ns" for ns
    by (metis Un_iff append_Cons append_Nil ex_map_conv list.set_intros(1) set_ConsD set_append usb_act.distinct(3,9))
  from s go f o none [of ns] have "q = None" by (auto split: option.splits)
  moreover from this s go f o none [of ns] have "set_devices cfg (zip device_names ns) = Inr cfg'"
    by (auto split: sum.splits dest: arg_cong [where f = last])
  ultimately show ?thesis using that f o by blast
qed

lemma start_again:
  assumes "start_gadget h cfg udc = (acts @ [Write_Main cfg'], r)"
  shows "start_gadget h' cfg' udc' = start_gadget h' cfg udc'"
proof -
  from written_by [OF assms] obtain fns ns where
      f: "hid_functions cfg = Inr fns" "own_nodes h fns = (ns, None)" "set_devices cfg (zip device_names ns) = Inr cfg'" .
  note len = hid_functions_length [OF f(1)]
  have names: "map fst (zip device_names ns) = take (length fns) device_names"
    by (rule names_of [OF own_nodes_complete [OF f(2)] len])
  have "''mouse_alt'' \<in> fst ` set (zip device_names ns) \<Longrightarrow> length fns = 3"
    using names len by (auto simp: device_names_def simp flip: set_map)
  from set_devices_functions [OF f(3,1) this] have f': "hid_functions cfg' = Inr fns" .
  have "set_devices cfg' (zip device_names ns') = set_devices cfg (zip device_names ns')"
    if "own_nodes h' fns = (ns', None)" for ns'
    by (rule set_devices_again [OF f(3)])
      (use names names_of [OF own_nodes_complete [OF that] len] in \<open>simp_all add: device_names_def\<close>)
  then show ?thesis using f(1) f' by (auto simp: start_gadget_def split: option.splits prod.splits)
qed

text \<open>
C37. The configuration that a start writes back, with the device paths it found,
behaves as the original one at every later start, stop and readiness check of
any host: what one boot writes never influences the next.
\<close>

theorem rewriting_invisible:
  assumes "runtime_main w h cfg = (acts @ [Write_Main cfg'], r)" and "v \<in> {Start, Stop, Ready}"
  shows "runtime_main v h' cfg' = runtime_main v h' cfg"
  using assms(1)
proof (cases rule: runtime_main_cases)
  case (start udc)
  from written_by [OF start(6)] obtain fns ns where
      f: "set_devices cfg (zip device_names ns) = Inr cfg'" by blast
  note same = set_devices_rest [OF f, THEN conjunct1] set_devices_rest [OF f, THEN conjunct2]
  from assms(2) consider "v = Start" | "v = Stop" | "v = Ready" by blast
  then show ?thesis
    by cases (simp_all only: runtime_main_def same start_again [OF start(6)] if_True if_False verb.simps simp_thms)
next
  case (stop udc)
  with stop_gadget_acts [OF stop(5)] show ?thesis by auto
qed auto



lemma configuration_functions:
  "hid_functions (configuration source state user udc) = Inr [''hid.usb0'', ''hid.usb1'', ''hid.usb2'']"
  by (simp add: hid_functions_def configuration_def)

lemma configuration_look:
  "look (configuration source state user udc) [''otg'', ''gadget''] = Inr (JStr ''rkmoon'')"
  "look (configuration source state user udc) [''otg'', ''udc''] = Inr (JStr udc)"
  "look (configuration source state user udc) [''kvmd'', ''server'', ''unix''] = Inr (JStr ''/run/rkmoon-input/kvmd.sock'')"
  by (simp_all add: configuration_def)

lemma configuration_devices:
  "\<exists>c. set_devices (configuration source state user udc) (zip device_names [k, m, a]) = Inr c \<and>
    look c [''kvmd'', ''hid'', ''keyboard'', ''device''] = Inr (node_path k) \<and>
    look c [''kvmd'', ''hid'', ''mouse'', ''device''] = Inr (node_path m) \<and>
    look c [''kvmd'', ''hid'', ''mouse_alt'', ''device''] = Inr (node_path a)"
  by (simp add: configuration_def device_names_def map_of_set_item set_item_def)

text \<open>
C38. On a board whose gadgets leave the UDC free, with matching device nodes, the
first start of a freshly written configuration succeeds, hands over exactly the
nodes of the three HID functions, records them as keyboard, mouse and absolute
mouse, and leaves kvmd on the very socket that the installed configuration of
the supervisor names.
\<close>

theorem first_start:
  assumes "run_uid h = 0" "udc \<in> set (udcs h)" "has_group h" "has_empty h" "\<not> command_fails h"
    and "list_all (\<lambda>(n, u). n \<noteq> ''rkmoon'' \<and> u \<noteq> udc) (gadgets h)"
    and "hid_dev h ''hid.usb0'' = (ma, k)" "hid_dev h ''hid.usb1'' = (mb, m)" "hid_dev h ''hid.usb2'' = (mc, a)"
    and "node_dev h k = Some (ma, k)" "node_dev h m = Some (mb, m)" "node_dev h a = Some (mc, a)"
  shows "\<exists>c. runtime_main Start h (configuration source state user udc) =
      ([Otg Start, Own_Node k, Own_Node m, Own_Node a, Write_Main c], None) \<and>
    look c [''kvmd'', ''hid'', ''keyboard'', ''device''] = Inr (node_path k) \<and>
    look c [''kvmd'', ''hid'', ''mouse'', ''device''] = Inr (node_path m) \<and>
    look c [''kvmd'', ''hid'', ''mouse_alt'', ''device''] = Inr (node_path a) \<and>
    look c [''kvmd'', ''server'', ''unix''] = look (runtime_config owner) [''input'', ''kvmd_socket'']"
proof -
  let ?j = "configuration source state user udc"
  obtain c where c: "set_devices ?j (zip device_names [k, m, a]) = Inr c"
    "look c [''kvmd'', ''hid'', ''keyboard'', ''device''] = Inr (node_path k)"
    "look c [''kvmd'', ''hid'', ''mouse'', ''device''] = Inr (node_path m)"
    "look c [''kvmd'', ''hid'', ''mouse_alt'', ''device''] = Inr (node_path a)"
    using configuration_devices by blast
  have o: "own_nodes h [''hid.usb0'', ''hid.usb1'', ''hid.usb2''] = ([k, m, a], None)"
    using assms(7-12) by simp
  have g: "\<not> list_ex (\<lambda>(n, u). n \<noteq> ''rkmoon'' \<and> u = udc) (gadgets h)" "map_of (gadgets h) ''rkmoon'' = None"
    using assms(6) by (auto simp: list_all_iff list_ex_iff map_of_eq_None_iff)
  have "start_gadget h ?j udc = ([Otg Start, Own_Node k, Own_Node m, Own_Node a, Write_Main c], None)"
    using assms(3-5) by (simp add: start_gadget_def run_module_def configuration_functions o g c(1)
        del: own_nodes.simps set_devices.simps)
  then have "runtime_main Start h ?j = ([Otg Start, Own_Node k, Own_Node m, Own_Node a, Write_Main c], None)"
    using assms(1,2) by (simp add: runtime_main_def configuration_look del: look.simps)
  moreover have "look (runtime_config owner) [''input'', ''kvmd_socket''] = Inr (JStr ''/run/rkmoon-input/kvmd.sock'')"
    by (simp add: runtime_config_def)
  ultimately show ?thesis
    using c set_devices_rest [OF c(1)] by (simp add: configuration_look del: look.simps)
qed

definition fresh_board :: usb_host where
  "fresh_board = \<lparr>run_uid = 0, udcs = [''fc000000.usb''], has_group = True, has_empty = True,
     gadgets = [(''old'', [])], serial = [], command_fails = False,
     hid_dev = (\<lambda>f. if f = ''hid.usb0'' then (236, 2) else if f = ''hid.usb1'' then (236, 3) else (236, 4)),
     node_dev = (\<lambda>n. if n < 5 then Some (236, n) else None), connects = True\<rparr>"

definition fresh_start :: "usb_act list \<times> exn option" where
  "fresh_start = runtime_main Start fresh_board (configuration ''/opt/s'' ''/etc/s'' ''rkmoon'' ''fc000000.usb'')"

lemma fresh_start_writes:
  "\<exists>acts c. fresh_start = (acts @ [Write_Main c], None) \<and> Otg Start \<in> set acts \<and> Own_Node 4 \<in> set acts"
proof -
  have "case fresh_start of (acts, r) \<Rightarrow> r = None \<and> take 4 acts = [Otg Start, Own_Node 2, Own_Node 3, Own_Node 4] \<and>
    length acts = 5 \<and> (case last acts of Write_Main _ \<Rightarrow> True | _ \<Rightarrow> False)" by code_simp
  then show ?thesis
    by (cases fresh_start)
      (auto simp: numeral_eq_Suc length_Suc_conv split: usb_act.splits intro!: exI [of _ "[Otg Start, Own_Node 2, Own_Node 3, Own_Node 4]"])
qed

theorem first_start_witness:
  "\<exists>c. fresh_start = ([Otg Start, Own_Node 2, Own_Node 3, Own_Node 4, Write_Main c], None)"
  using first_start [of fresh_board "''fc000000.usb''" 236 2 236 3 236 4 "''/opt/s''" "''/etc/s''" "''rkmoon''"]
  by (fastforce simp: fresh_start_def fresh_board_def simp del: look.simps)

theorem gadget_guarded_witness:
  "\<exists>acts r. fresh_start = (acts, r) \<and> Own_Node 4 \<in> set acts \<and> matched_node fresh_board 4"
proof -
  from fresh_start_writes obtain acts c where s: "fresh_start = (acts @ [Write_Main c], None)" "Own_Node 4 \<in> set acts"
    by blast
  from gadget_guarded [OF s(1) [unfolded fresh_start_def], of 4] s show ?thesis by auto
qed

theorem rewriting_invisible_witness:
  "\<exists>acts c. fresh_start = (acts @ [Write_Main c], None) \<and>
     runtime_main Ready fresh_board c = ([], None)"
proof -
  from fresh_start_writes obtain acts c where s: "fresh_start = (acts @ [Write_Main c], None)" by blast
  have "runtime_main Ready fresh_board (configuration ''/opt/s'' ''/etc/s'' ''rkmoon'' ''fc000000.usb'') = ([], None)"
    by (simp add: runtime_main_def configuration_look fresh_board_def del: look.simps)
  with rewriting_invisible [OF s [unfolded fresh_start_def], of Ready fresh_board] s show ?thesis by auto
qed

lemma config_never_overwritten_witness:
  "\<exists>fs' r. write_config (\<lambda>_. ''{}'') disabled [''main.yaml'' \<mapsto> ''old''] = (fs', r) \<and>
     r \<noteq> None \<and> fs' ''main.yaml'' = Some ''old''"
proof -
  obtain fs' r where w: "write_config (\<lambda>_. ''{}'') disabled [''main.yaml'' \<mapsto> ''old''] = (fs', r)" by (metis surj_pair)
  from config_never_overwritten [OF w] w show ?thesis by simp
qed

end
