(* ===== verification/Hid_Open.thy ===== *)
theory Hid_Open
  imports Hid_Stream_Laws Hid_Http_Laws Run_Config
begin

unbundle bit_operations_syntax

text \<open>
  How the bridge opens its three doors: the WebSocket to kvmd
  (\<open>KvmdStream.open\<close>), the private file with the authentication headers
  (\<open>read_private_json\<close>) and its own socket (\<open>Server.listen\<close> and the frame
  around it in \<open>__main__.py\<close>).  What the system answers is an argument.
\<close>

section \<open>The upgrade of the stream\<close>

text \<open>
  What becomes of the connection: none at all, one that ends or stays silent
  before a blank line, or one that answers with a head.
\<close>

datatype upgrade =
    No_Connection
  | No_Reply
  | Reply string

definition upgrade_lines :: "string \<Rightarrow> (string \<times> string) list \<Rightarrow> string list" where
  "upgrade_lines nonce hs =
     ''GET /ws?stream=0 HTTP/1.1''
     # map (\<lambda>(k, v). k @ '': '' @ v)
         ([(''Host'', ''localhost''), (''Upgrade'', ''websocket''), (''Connection'', ''Upgrade''),
           (''Sec-WebSocket-Key'', nonce), (''Sec-WebSocket-Version'', ''13'')] @ hs)"

definition upgrade_request :: "string \<Rightarrow> (string \<times> string) list \<Rightarrow> string" where
  "upgrade_request nonce hs = concat (map (\<lambda>l. l @ crlf) (upgrade_lines nonce hs)) @ crlf"

definition upgrade_accepted :: "string \<Rightarrow> bool" where
  "upgrade_accepted head =
     (let status = byte_words (hd (split_crlf head)) in
      \<not> (length status < 2 \<or> status ! 1 \<noteq> ''101''))"

text \<open>
  \<open>connect\<close> takes the request; a request that is not ASCII is never written.
  \<open>answer\<close> is what the first flush waits for.
\<close>

definition stream_open ::
  "step_env \<Rightarrow> bool option \<Rightarrow> string \<Rightarrow> (string \<times> string) list \<Rightarrow> (string \<Rightarrow> upgrade) \<Rightarrow>
   stream \<Rightarrow> stream \<times> exn option" where
  "stream_open env answer nonce hs connect st =
     (let raw = upgrade_request nonce hs;
          opened = st\<lparr>has_writer := True\<rparr>;
          refused = (stream_close env opened, Some BackendError)
      in
        case connect raw of
          No_Connection \<Rightarrow> (stream_close env st, Some BackendError)
        | No_Reply \<Rightarrow> refused
        | Reply head \<Rightarrow>
            if list_ex (\<lambda>c. of_char c \<ge> (128 :: nat)) raw then refused
            else if \<not> upgrade_accepted head then refused
            else stream_flush env answer (opened\<lparr>alive := True\<rparr>))"

lemma stream_write_alive:
  assumes "stream_write e p st = (st', r)" and "alive st" and "has_writer st"
  shows "has_writer st' \<and> (alive st' \<longleftrightarrow> r = None) \<and> (r = None \<or> r = Some BackendError)"
  using assms by (auto simp: stream_write_def Let_def split: sum.splits if_splits)

lemma stream_flush_alive:
  assumes "stream_flush e a st = (st', r)" and "alive st" and "has_writer st"
  shows "has_writer st' \<and> (alive st' \<longleftrightarrow> r = None) \<and> (r = None \<or> r = Some BackendError) \<and>
    (r = None \<longrightarrow> a = Some True)"
proof (cases "stream_write e [0] (st\<lparr>pongs := []\<rparr>)")
  case (Pair st1 x)
  from stream_write_alive [OF Pair] assms Pair show ?thesis
    by (auto simp: stream_flush_def split: option.splits if_splits)
qed

lemma stream_close_dead: "\<not> alive (stream_close e st) \<and> \<not> has_writer (stream_close e st)"
  by (simp add: stream_close_def)

text \<open>
  Opening the stream either succeeds, alive, with an accepted upgrade and a confirmed
  flush, or raises \<open>BackendError\<close> with a dead stream.
\<close>

lemma stream_open_result:
  assumes "stream_open env answer nonce hs connect new_stream = (st, r)"
  shows "(alive st \<longleftrightarrow> r = None) \<and> (r = None \<or> r = Some BackendError) \<and>
    (has_writer st \<longleftrightarrow> (\<exists>head. connect (upgrade_request nonce hs) = Reply head \<and> upgrade_accepted head \<and>
       ascii_text (upgrade_request nonce hs))) \<and>
    (r = None \<longrightarrow> has_writer st \<and> answer = Some True)"
proof (cases "connect (upgrade_request nonce hs)")
  case (Reply head)
  let ?ok = "upgrade_accepted head \<and> ascii_text (upgrade_request nonce hs)"
  show ?thesis
  proof (cases ?ok)
    case True
    with Reply assms have "stream_flush env answer (new_stream\<lparr>has_writer := True, alive := True\<rparr>) = (st, r)"
      by (auto simp: stream_open_def Let_def ascii_text_def)
    from stream_flush_alive [OF this] True Reply show ?thesis by auto
  next
    case False
    with Reply assms show ?thesis
      using stream_close_dead [of env "new_stream\<lparr>has_writer := True\<rparr>"]
      by (auto simp: stream_open_def Let_def ascii_text_def split: if_splits)
  qed
qed (use assms stream_close_dead in \<open>auto simp: stream_open_def Let_def\<close>)

lemma stream_open_result_witness:
  "\<exists>st r. stream_open env (Some False) ''x'' [] (\<lambda>_. No_Reply) new_stream = (st, r) \<and> (alive st \<longleftrightarrow> r = None)"
proof -
  obtain st r where o: "stream_open env (Some False) ''x'' [] (\<lambda>_. No_Reply) new_stream = (st, r)"
    by (metis surj_pair)
  from stream_open_result [OF o] o show ?thesis by blast
qed

definition silent_env :: step_env where
  "silent_env = \<lparr>now_at = 0, woke_at = 0, drained = True, step_mask = [0, 0, 0, 0]\<rparr>"

text \<open>
  C33. When the upgrade is accepted but the first flush is not confirmed, \<open>open\<close> raises and
  leaves the connection open: nothing closes it, since the caller never gets the stream.
\<close>

theorem stream_open_leaks:
  assumes "connect (upgrade_request nonce hs) = Reply head" and "upgrade_accepted head"
    and "ascii_text (upgrade_request nonce hs)" and "answer \<noteq> Some True"
  shows "\<exists>st. stream_open env answer nonce hs connect new_stream = (st, Some BackendError) \<and>
    has_writer st \<and> \<not> alive st"
proof -
  obtain st r where o: "stream_open env answer nonce hs connect new_stream = (st, r)" by (metis surj_pair)
  from stream_open_result [OF o] assms o show ?thesis by auto
qed

theorem stream_open_leaks_witness:
  "\<exists>st. stream_open silent_env None ''x'' [] (\<lambda>_. Reply ''HTTP/1.1 101 OK'') new_stream = (st, Some BackendError) \<and>
    has_writer st \<and> \<not> alive st"
proof (rule stream_open_leaks)
  show "upgrade_accepted ''HTTP/1.1 101 OK''" by code_simp
  show "ascii_text (upgrade_request ''x'' [])" by code_simp
qed simp_all

section \<open>The private file\<close>

record opened_file =
  is_regular :: bool
  file_uid :: int
  file_mode :: nat
  file_size :: nat
  file_text :: string

text \<open>\<open>None\<close>: \<open>os.open\<close> fails; it does not follow a symbolic link.\<close>

definition read_private_json ::
  "int \<Rightarrow> (string \<Rightarrow> json res) \<Rightarrow> opened_file option \<Rightarrow> json res" where
  "read_private_json uid decode_json f =
     (case f of
        None \<Rightarrow> Inl OSError
      | Some st \<Rightarrow>
          if \<not> is_regular st \<or> file_uid st \<noteq> uid \<or> file_mode st AND 0x3F \<noteq> 0 then Inl BackendError
          else if file_size st > 16384 then Inl BackendError
          else decode_json (take 16385 (file_text st)))"

text \<open>
  \<open>headers\<close> of \<open>main\<close> up to the constructor of \<open>Kvmd\<close>, which takes an empty
  value for no headers; \<open>given\<close> says whether \<open>--headers\<close> was.
\<close>

definition load_headers ::
  "int \<Rightarrow> (string \<Rightarrow> json res) \<Rightarrow> bool \<Rightarrow> opened_file option \<Rightarrow> (string \<times> string) list res" where
  "load_headers uid decode_json given f =
     (if \<not> given then Inr []
      else
        (case read_private_json uid decode_json f of
           Inl e \<Rightarrow> Inl e
         | Inr j \<Rightarrow>
             if \<not> truthy j then Inr []
             else (case j of JObj fs \<Rightarrow> checked_headers fs | _ \<Rightarrow> Inl AttributeError)))"

text \<open>
  Authentication headers come only from a regular file of the same user that nobody
  else may access, and each is one of the three known names on one line.
\<close>

lemma headers_private:
  assumes "load_headers uid decode_json given f = Inr kvs" and "kvs \<noteq> []"
  shows "\<exists>st. f = Some st \<and> is_regular st \<and> file_uid st = uid \<and> file_mode st AND 0x3F = 0 \<and>
    (\<forall>(k, v) \<in> set kvs. k \<in> set header_names \<and> no_line_break v)"
proof -
  obtain st where "f = Some st" "is_regular st" "file_uid st = uid" "file_mode st AND 0x3F = 0"
    using assms by (auto simp: load_headers_def read_private_json_def split: if_splits option.splits)
  moreover obtain fs where "checked_headers fs = Inr kvs"
    using assms by (auto simp: load_headers_def split: if_splits sum.splits json.splits)
  ultimately show ?thesis using checked_headers_ok by fast
qed

lemma headers_private_witness:
  "load_headers 1000 (\<lambda>_. Inr (JObj [(''Authorization'', JStr ''Basic x'')])) True
     (Some \<lparr>is_regular = True, file_uid = 1000, file_mode = 0x180, file_size = 30, file_text = []\<rparr>)
   = Inr [(''Authorization'', ''Basic x'')] \<and> no_line_break ''Basic x''"
proof -
  have l: "load_headers 1000 (\<lambda>_. Inr (JObj [(''Authorization'', JStr ''Basic x'')])) True
     (Some \<lparr>is_regular = True, file_uid = 1000, file_mode = 0x180, file_size = 30, file_text = []\<rparr>)
   = Inr [(''Authorization'', ''Basic x'')]"
    by (simp add: load_headers_def read_private_json_def header_names_def)
  from headers_private [OF l] l show ?thesis by auto
qed

section \<open>Listening\<close>

datatype listen_act = Mkdir | Set_Umask | Bind | Restore_Umask | Limit_Buffers | Close_Server | Unlink

record place =
  mkdir_fails :: bool
  dir_uid :: int
  dir_mode :: nat
  taken :: bool
  bind_fails :: bool

definition listen :: "int \<Rightarrow> place \<Rightarrow> listen_act list \<times> exn option" where
  "listen uid p =
     (if mkdir_fails p then ([], Some OSError)
      else if dir_uid p \<noteq> uid \<or> dir_mode p AND 0x3F \<noteq> 0 then ([Mkdir], Some InputError)
      else if taken p then ([Mkdir], Some InputError)
      else if bind_fails p then ([Mkdir, Set_Umask, Restore_Umask], Some OSError)
      else ([Mkdir, Set_Umask, Bind, Restore_Umask, Limit_Buffers], None))"

text \<open>\<open>main\<close> from \<open>listen\<close> to the end of the process.\<close>

definition serve :: "int \<Rightarrow> place \<Rightarrow> listen_act list \<times> exn option" where
  "serve uid p =
     (case listen uid p of
        (acts, Some e) \<Rightarrow> (acts, Some e)
      | (acts, None) \<Rightarrow> (acts @ [Close_Server, Unlink], None))"

definition umask_restored :: "listen_act list \<Rightarrow> bool" where
  "umask_restored acts \<longleftrightarrow>
     Set_Umask \<notin> set acts \<or>
     (\<exists>pre mid post. acts = pre @ [Set_Umask] @ mid @ [Restore_Umask] @ post \<and> set mid \<subseteq> {Bind})"

lemma umask_restored_lists:
  "umask_restored [Mkdir, Set_Umask, Restore_Umask]"
  "umask_restored [Mkdir, Set_Umask, Bind, Restore_Umask, Limit_Buffers, Close_Server, Unlink]"
  "umask_restored []" "umask_restored [Mkdir]"
  unfolding umask_restored_def
     apply (rule disjI2, rule exI [of _ "[Mkdir]"], rule exI [of _ "[]"], rule exI [of _ "[]"], simp)
    apply (rule disjI2, rule exI [of _ "[Mkdir]"], rule exI [of _ "[Bind]"],
      rule exI [of _ "[Limit_Buffers, Close_Server, Unlink]"], simp)
   apply simp_all
  done

text \<open>
  The bridge binds its socket only in a private directory of its own and never over an
  existing path; it restores the umask in every case and unlinks only a socket it bound.
\<close>

lemma socket_guarded:
  assumes "serve uid p = (acts, r)"
  shows "(Bind \<in> set acts \<longleftrightarrow> r = None) \<and> (Unlink \<in> set acts \<longleftrightarrow> Bind \<in> set acts) \<and>
    (Bind \<in> set acts \<longrightarrow> dir_uid p = uid \<and> dir_mode p AND 0x3F = 0 \<and> \<not> taken p) \<and>
    umask_restored acts"
  using assms by (auto simp: serve_def listen_def umask_restored_lists split: if_splits)

lemma socket_guarded_witness:
  "umask_restored (fst (serve 1000 \<lparr>mkdir_fails = False, dir_uid = 1000, dir_mode = 0x1C0, taken = False,
     bind_fails = True\<rparr>))"
  using socket_guarded [OF prod.collapse [symmetric]] by blast

end
