(* ===== verification/Edid.thy ===== *)
theory Edid
  imports Hid_Prelude "HOL-Library.Word" "HOL-Library.Multiset" "HOL-Library.List_Lexorder" "HOL-Library.Product_Lexorder"
begin

unbundle bit_operations_syntax

text \<open>
  The display identification data (EDID) of the HDMI receiver:
  \<open>tools/edid_fit_trial.py\<close> generates a 256-byte EDID for a list of modes and
  walks it again to recover them; \<open>tools/edid_apply.py\<close> installs an EDID with a
  backup of the first one and a readback.
\<close>

type_synonym octet = "8 word"

text \<open>\<open>bytes([...])\<close> raises on a value outside 0..255.\<close>

definition octet_of :: "int \<Rightarrow> octet res" where
  "octet_of i = (if 0 \<le> i \<and> i < 256 then Inr (of_int i) else Inl ValueError)"

definition byte_sum :: "octet list \<Rightarrow> nat" where
  "byte_sum bs = (\<Sum>b\<leftarrow>bs. unat b)"

definition edid_header :: "octet list" where
  "edid_header = [0x00, 0xFF, 0xFF, 0xFF, 0xFF, 0xFF, 0xFF, 0x00]"

section \<open>\<open>edid_apply.py\<close>\<close>

definition BLOCKS :: nat where
  "BLOCKS = 2"

text \<open>
  The requests of V4L2 and the argument \<open>struct.pack('=8IQ', ...)\<close> builds: eight
  32-bit words, the third the number of blocks, and the address of the buffer.
\<close>

definition G_EDID :: "32 word" where
  "G_EDID = 0xC0285628"

definition S_EDID :: "32 word" where
  "S_EDID = 0xC0285629"

fun little_endian :: "nat \<Rightarrow> nat \<Rightarrow> octet list" where
  "little_endian 0 v = []"
| "little_endian (Suc k) v = of_nat v # little_endian k (v div 256)"

definition edid_argument :: "64 word \<Rightarrow> octet list" where
  "edid_argument address =
     concat (map (little_endian 4) [0, 0, BLOCKS, 0, 0, 0, 0, 0]) @ little_endian 8 (unat address)"

text \<open>
  A request number carries the size of its argument in bits 16 to 29 and its
  direction, here both ways, in the two above: the kernel copies exactly the bytes
  that are packed.
\<close>

lemma little_endian_length: "length (little_endian k v) = k"
  by (induction k arbitrary: v) simp_all

lemma edid_requests:
  assumes "request \<in> {G_EDID, S_EDID}"
  shows "unat (drop_bit 16 request AND 0x3FFF) = length (edid_argument address)" and "drop_bit 30 request = 3"
proof -
  have "length (edid_argument address) = 40" by (simp add: edid_argument_def little_endian_length)
  moreover have "unat (drop_bit 16 request AND 0x3FFF) = 40"
    using assms by (elim insertE) (simp_all add: G_EDID_def S_EDID_def)
  ultimately show "unat (drop_bit 16 request AND 0x3FFF) = length (edid_argument address)" by simp
  show "drop_bit 30 request = 3" using assms by (elim insertE) (simp_all add: G_EDID_def S_EDID_def)
qed

definition blocks :: "octet list \<Rightarrow> octet list list" where
  "blocks raw = map (\<lambda>k. take 128 (drop (128 * k) raw)) [0..<(length raw + 127) div 128]"

definition valid :: "octet list \<Rightarrow> bool" where
  "valid raw \<longleftrightarrow>
     length raw = 128 * BLOCKS \<and> take 8 raw = edid_header \<and>
     list_all (\<lambda>b. byte_sum b mod 256 = 0) (blocks raw)"

text \<open>The receiver, and the file the first differing EDID is saved to.\<close>

record 'd receiver =
  get_edid :: "'d \<Rightarrow> octet list"
  set_edid :: "octet list \<Rightarrow> 'd \<Rightarrow> 'd"

record 'd edid_host =
  device :: 'd
  backup :: "octet list option"

text \<open>\<open>main\<close> with \<open>apply\<close>; \<open>keep\<close> says whether \<open>--backup\<close> was given.\<close>

definition apply_edid ::
  "'d receiver \<Rightarrow> bool \<Rightarrow> octet list \<Rightarrow> 'd edid_host \<Rightarrow> 'd edid_host \<times> exn option" where
  "apply_edid rx keep wanted h =
     (let current = get_edid rx (device h) in
      if \<not> valid wanted then (h, Some SystemExit)
      else if current = wanted then (h, None)
      else
        let h1 = (if keep \<and> backup h = None \<and> valid current then h\<lparr>backup := Some current\<rparr> else h);
            h2 = h1\<lparr>device := set_edid rx wanted (device h1)\<rparr>
        in if get_edid rx (device h2) \<noteq> wanted then (h2, Some SystemExit) else (h2, None))"

section \<open>\<open>edid_fit_trial.py\<close>\<close>

type_synonym mode = "int \<times> int \<times> int"

definition vics :: "(mode \<times> octet) list" where
  "vics = [((1920, 1080, 30), 34), ((1920, 1080, 60), 16), ((1920, 1080, 120), 63),
           ((3840, 2160, 30), 95), ((3840, 2160, 60), 97)]"

definition is_vic :: "mode \<Rightarrow> bool" where
  "is_vic m \<longleftrightarrow> map_of vics m \<noteq> None"

text \<open>\<open>b[i:i+len(new)] = new\<close>\<close>

definition splice :: "nat \<Rightarrow> 'a list \<Rightarrow> 'a list \<Rightarrow> 'a list" where
  "splice i new b = take i b @ new @ drop (i + length new) b"

text \<open>\<open>-sum(b) & 255\<close>\<close>

definition checksum :: "octet list \<Rightarrow> octet" where
  "checksum b = of_int ((- int (byte_sum b)) AND 255)"

definition blank_descriptor :: "octet list" where
  "blank_descriptor = [0, 0, 0, 0x10, 0] @ replicate 13 0"

definition name_descriptor :: "octet list" where
  "name_descriptor = [0, 0, 0, 0xFC, 0] @ map of_char ''RKMoon Trial'' @ [0x0A]"

definition base_block :: "octet list \<Rightarrow> octet list" where
  "base_block base =
     (let b0 = take 128 base;
          b1 = splice 35 [0, 0, 0] b0;
          b2 = splice 38 (concat (replicate 8 [1, 1])) b1;
          b3 = splice 72 (concat (replicate 3 blank_descriptor)) b2;
          b4 = splice 72 name_descriptor b3;
          b5 = b4[126 := 1]
      in b5[127 := checksum (take 127 b5)])"

definition audio_and_link :: "octet list" where
  "audio_and_link =
     [0x23, 0x09, 0x07, 0x01, 0x83, 0x01, 0x00, 0x00, 0x67, 0x03, 0x0C, 0x00, 0x10, 0x00,
      0x00, 0x78, 0x67, 0xD8, 0x5D, 0xC4, 0x01, 0x78, 0x80, 0x00]"

text \<open>\<open>struct.pack('<BHHB', 1, w-1, h-1, f-1)\<close>\<close>

definition pack_mode :: "mode \<Rightarrow> octet list res" where
  "pack_mode m =
     (case m of (w, h, f) \<Rightarrow>
        if 0 \<le> w - 1 \<and> w - 1 < 65536 \<and> 0 \<le> h - 1 \<and> h - 1 < 65536 \<and> 0 \<le> f - 1 \<and> f - 1 < 256
        then Inr [1, of_int ((w - 1) mod 256), of_int ((w - 1) div 256),
                  of_int ((h - 1) mod 256), of_int ((h - 1) div 256), of_int (f - 1)]
        else Inl StructError)"

fun pack_modes :: "mode list \<Rightarrow> octet list res" where
  "pack_modes [] = Inr []"
| "pack_modes (m # ms) =
     (case pack_mode m of
        Inl e \<Rightarrow> Inl e
      | Inr a \<Rightarrow> (case pack_modes ms of Inl e \<Rightarrow> Inl e | Inr b \<Rightarrow> Inr (a @ b)))"

text \<open>The type X data blocks, at most four modes in each.\<close>

function custom_blocks :: "mode list \<Rightarrow> octet list res" where
  "custom_blocks ms =
     (if ms = [] then Inr []
      else
        (case pack_modes (take 4 ms) of
           Inl e \<Rightarrow> Inl e
         | Inr packed \<Rightarrow>
             (let payload = [0x2A, 0] @ packed in
              case octet_of (0xE0 OR int (length payload)) of
                Inl e \<Rightarrow> Inl e
              | Inr tag \<Rightarrow>
                  (case custom_blocks (drop 4 ms) of
                     Inl e \<Rightarrow> Inl e
                   | Inr rest \<Rightarrow> Inr (tag # payload @ rest)))))"
  by pat_completeness auto
termination
  by (relation "measure length") auto

declare custom_blocks.simps [simp del]

definition cta_data :: "mode list \<Rightarrow> octet list res" where
  "cta_data modes =
     (let standard = map (\<lambda>m. the (map_of vics m)) (filter is_vic modes) in
      case octet_of (0x40 OR int (length standard)) of
        Inl e \<Rightarrow> Inl e
      | Inr tag \<Rightarrow>
          (case custom_blocks (filter (\<lambda>m. \<not> is_vic m) modes) of
             Inl e \<Rightarrow> Inl e
           | Inr blks \<Rightarrow> Inr (tag # standard @ audio_and_link @ blks)))"

definition extension :: "octet list \<Rightarrow> octet list" where
  "extension cta =
     (let ext = [2, 3, of_nat (4 + length cta), 0x40] @ cta;
          padded = ext @ replicate (127 - length ext) 0
      in padded @ [checksum padded])"

text \<open>The walk over the data blocks; \<open>reverse[v]\<close> raises on an unknown code.\<close>

definition unvic :: "octet \<Rightarrow> mode res" where
  "unvic v = (case map_of (map (\<lambda>(m, c). (c, m)) vics) v of None \<Rightarrow> Inl KeyError | Some m \<Rightarrow> Inr m)"

fun unvics :: "octet list \<Rightarrow> mode list res" where
  "unvics [] = Inr []"
| "unvics (v # vs) =
     (case unvic v of
        Inl e \<Rightarrow> Inl e
      | Inr m \<Rightarrow> (case unvics vs of Inl e \<Rightarrow> Inl e | Inr ms \<Rightarrow> Inr (m # ms)))"

fun unpack_modes :: "octet list \<Rightarrow> mode list res" where
  "unpack_modes (flags # w0 # w1 # h0 # h1 # f # rest) =
     (if flags \<noteq> 1 then Inl AssertionError
      else
        (case unpack_modes rest of
           Inl e \<Rightarrow> Inl e
         | Inr ms \<Rightarrow>
             Inr ((uint w0 + 256 * uint w1 + 1, uint h0 + 256 * uint h1 + 1, uint f + 1) # ms)))"
| "unpack_modes [] = Inr []"
| "unpack_modes _ = Inl StructError"

definition decode_block :: "octet \<Rightarrow> octet list \<Rightarrow> mode list res" where
  "decode_block header p =
     (if unat header div 32 = 2 then unvics p
      else if unat header div 32 = 7 then
        (case p of
           [] \<Rightarrow> Inl IndexError
         | t # _ \<Rightarrow> if t = 0x2A then unpack_modes (drop 2 p) else Inr [])
      else Inr [])"

function walk :: "octet list \<Rightarrow> nat \<Rightarrow> mode list res" where
  "walk ext pos =
     (if pos < unat (ext ! 2) \<and> pos < length ext then
        (let header = ext ! pos; n = unat header mod 32 in
         case decode_block header (take n (drop (pos + 1) ext)) of
           Inl e \<Rightarrow> Inl e
         | Inr ms \<Rightarrow>
             (case walk ext (pos + 1 + n) of
                Inl e \<Rightarrow> Inl e
              | Inr rest \<Rightarrow> Inr (ms @ rest)))
      else if pos < unat (ext ! 2) then Inl IndexError
      else Inr [])"
  by pat_completeness auto
termination
  by (relation "measure (\<lambda>(ext, pos). length ext - pos)") auto

declare walk.simps [simp del]

definition generate :: "octet list \<Rightarrow> mode list \<Rightarrow> octet list res" where
  "generate base modes =
     (if \<not> (length (take 128 base) = 128 \<and> take 8 (take 128 base) = edid_header) then Inl AssertionError
      else
        (case cta_data modes of
           Inl e \<Rightarrow> Inl e
         | Inr cta \<Rightarrow>
             if \<not> length cta \<le> 123 then Inl AssertionError
             else
               (let b = base_block base; ext = extension cta; out = b @ ext in
                if \<not> (length out = 256 \<and> byte_sum (take 128 out) mod 256 = 0 \<and>
                      byte_sum (take 128 (drop 128 out)) mod 256 = 0)
                then Inl AssertionError
                else
                  (case walk ext 4 of
                     Inl e \<Rightarrow> Inl e
                   | Inr decoded \<Rightarrow>
                       if sort decoded \<noteq> sort modes then Inl AssertionError else Inr out))))"

end
