(* ===== verification/Edid_Laws.thy ===== *)
theory Edid_Laws
  imports Edid
begin

text \<open>
  The generator always produces a block the installer accepts, and its own walk
  recovers the requested modes whenever they fit.  The installer writes only
  when something differs, keeps the first backup and succeeds only on an exact
  readback.
\<close>

section \<open>Checksums\<close>

lemma byte_sum_append [simp]: "byte_sum (a @ b) = byte_sum a + byte_sum b"
  by (simp add: byte_sum_def)

lemma byte_sum_Nil [simp]: "byte_sum [] = 0"
  by (simp add: byte_sum_def)

lemma byte_sum_single [simp]: "byte_sum [x] = unat x"
  by (simp add: byte_sum_def)

lemma and_255: "x AND 255 = x mod (256 :: int)"
  using take_bit_eq_mask [of 8 x] by (simp add: take_bit_eq_mod mask_eq_exp_minus_1)

lemma unat_checksum: "unat (checksum b) = (256 - byte_sum b mod 256) mod 256"
proof -
  have "int (unat (checksum b)) = (- int (byte_sum b)) mod 256"
    by (simp add: checksum_def and_255 unsigned_of_int take_bit_eq_mod)
  also have "\<dots> = int ((256 - byte_sum b mod 256) mod 256)"
    by (simp add: zmod_zminus1_eq_if of_nat_diff zmod_int)
  finally show ?thesis unfolding of_nat_eq_iff .
qed

lemma checksum_closes: "(byte_sum b + unat (checksum b)) mod 256 = 0"
proof -
  have l: "byte_sum b mod 256 \<le> 256" by simp
  have "(byte_sum b + (256 - byte_sum b mod 256) mod 256) mod 256
      = (byte_sum b mod 256 + (256 - byte_sum b mod 256)) mod 256"
    by (metis mod_add_left_eq mod_add_right_eq)
  also have "byte_sum b mod 256 + (256 - byte_sum b mod 256) = 256"
    by (rule le_add_diff_inverse [OF l])
  finally show ?thesis by (simp add: unat_checksum)
qed

section \<open>The base block and the extension\<close>

lemma length_splice: "i + length new \<le> length b \<Longrightarrow> length (splice i new b) = length b"
  by (simp add: splice_def)

lemma take_splice: "k \<le> i \<Longrightarrow> i \<le> length b \<Longrightarrow> take k (splice i new b) = take k b"
  by (simp add: splice_def)

lemma base_block_shape:
  assumes "128 \<le> length base"
  shows "length (base_block base) = 128" "take 8 (base_block base) = take 8 base"
    and "byte_sum (base_block base) mod 256 = 0"
proof -
  define b3 where "b3 = splice 72 name_descriptor
    (splice 72 (concat (replicate 3 blank_descriptor))
      (splice 38 (concat (replicate 8 [1, 1])) (splice 35 [0, 0, 0] (take 128 base))))"
  define b5 where "b5 = b3[126 := 1]"
  have d: "length (concat (replicate 3 blank_descriptor)) = 54" "length name_descriptor = 18"
    "length (concat (replicate 8 [1, 1 :: octet])) = 16"
    by code_simp+
  have l3: "length b3 = 128" "take 8 b3 = take 8 base"
    using assms d by (simp_all add: b3_def length_splice take_splice)
  have b: "base_block base = b5[127 := checksum (take 127 b5)]"
    by (simp add: base_block_def b3_def b5_def Let_def)
  have l5: "length b5 = 128" "take 8 b5 = take 8 base"
    using l3 by (simp_all add: b5_def)
  then show "length (base_block base) = 128" "take 8 (base_block base) = take 8 base"
    by (simp_all add: b)
  have "base_block base = take 127 b5 @ [checksum (take 127 b5)]"
    using l5(1) by (simp add: b upd_conv_take_nth_drop)
  then show "byte_sum (base_block base) mod 256 = 0" using checksum_closes [of "take 127 b5"] by simp
qed

lemma extension_shape:
  assumes "length cta \<le> 123"
  shows "length (extension cta) = 128" "byte_sum (extension cta) mod 256 = 0"
    and "extension cta ! 2 = of_nat (4 + length cta)"
    and "drop 4 (extension cta) = cta @ replicate (123 - length cta) 0 @
           [checksum ([2, 3, of_nat (4 + length cta), 0x40] @ cta @ replicate (123 - length cta) 0)]"
proof -
  define q where "q = [2, 3, of_nat (4 + length cta), 0x40] @ cta @ replicate (123 - length cta) (0 :: octet)"
  have e: "extension cta = q @ [checksum q]"
    by (simp add: extension_def Let_def q_def)
  show "length (extension cta) = 128" using assms unfolding e by (simp add: q_def)
  show "byte_sum (extension cta) mod 256 = 0"
    unfolding e byte_sum_append byte_sum_single by (rule checksum_closes)
  show "extension cta ! 2 = of_nat (4 + length cta)" unfolding e by (simp add: q_def)
  show "drop 4 (extension cta) = cta @ replicate (123 - length cta) 0 @
           [checksum ([2, 3, of_nat (4 + length cta), 0x40] @ cta @ replicate (123 - length cta) 0)]"
    unfolding e by (simp add: q_def)
qed

lemma blocks_256: "length raw = 256 \<Longrightarrow> blocks raw = [take 128 raw, take 128 (drop 128 raw)]"
  by (simp add: blocks_def upt_rec)

lemma valid_256:
  "length raw = 256 \<Longrightarrow> valid raw \<longleftrightarrow> take 8 raw = edid_header \<and>
     byte_sum (take 128 raw) mod 256 = 0 \<and> byte_sum (take 128 (drop 128 raw)) mod 256 = 0"
  by (simp add: valid_def BLOCKS_def blocks_256)

lemma generate_valid:
  assumes "generate base modes = Inr out"
  shows "valid out \<and> take 8 out = take 8 base \<and>
    (\<exists>ms. walk (drop 128 out) 4 = Inr ms \<and> mset ms = mset modes)"
proof -
  obtain cta ms where base: "128 \<le> length base" "take 8 (take 128 base) = edid_header"
    and cta: "cta_data modes = Inr cta" "length cta \<le> 123"
    and sum: "byte_sum (take 128 out) mod 256 = 0" "byte_sum (take 128 (drop 128 out)) mod 256 = 0"
      "length out = 256"
    and w: "walk (extension cta) 4 = Inr ms" "sort ms = sort modes"
    and out: "out = base_block base @ extension cta"
    using assms by (auto simp: generate_def Let_def split: if_splits sum.splits)
  note bs = base_block_shape [OF base(1)]
  have t8: "take 8 out = take 8 base" using bs by (simp add: out)
  have h: "take 8 base = edid_header" using base(2) by (simp add: min_def)
  have "valid out" using valid_256 [OF sum(3)] sum t8 h by simp
  moreover have "drop 128 out = extension cta" using bs by (simp add: out)
  moreover have "mset ms = mset modes" using w(2) by (metis mset_sort)
  ultimately show ?thesis using w(1) t8 by auto
qed

section \<open>The walk recovers the modes\<close>

definition packable :: "mode \<Rightarrow> bool" where
  "packable m \<longleftrightarrow> (case m of (w, h, f) \<Rightarrow>
     1 \<le> w \<and> w \<le> 65536 \<and> 1 \<le> h \<and> h \<le> 65536 \<and> 1 \<le> f \<and> f \<le> 256)"

lemma uint_octet: "0 \<le> k \<Longrightarrow> k < 256 \<Longrightarrow> uint (of_int k :: octet) = k"
  by (simp add: unsigned_of_int take_bit_eq_mod)

lemma low_high:
  assumes "0 \<le> k" "k < 65536"
  shows "uint (of_int (k mod 256) :: octet) + 256 * uint (of_int (k div 256) :: octet) = k"
proof -
  have "uint (of_int (k mod 256) :: octet) = k mod 256"
    by (simp add: unsigned_of_int take_bit_eq_mod)
  moreover have "k div 256 < 256" "0 \<le> k div 256" using assms by auto
  then have "uint (of_int (k div 256) :: octet) = k div 256"
    by (simp add: unsigned_of_int take_bit_eq_mod)
  ultimately show ?thesis by simp
qed

lemma pack_mode_packable:
  assumes "packable m"
  shows "\<exists>a. pack_mode m = Inr a \<and> length a = 6 \<and>
    (\<forall>rest ms. unpack_modes rest = Inr ms \<longrightarrow> unpack_modes (a @ rest) = Inr (m # ms))"
proof -
  obtain w h f where m: "m = (w, h, f)" by (cases m)
  have b: "0 \<le> w - 1" "w - 1 < 65536" "0 \<le> h - 1" "h - 1 < 65536" "0 \<le> f - 1" "f - 1 < 256"
    using assms by (auto simp: packable_def m)
  have f: "uint (of_int (f - 1) :: octet) = f - 1"
    by (rule uint_octet [OF b(5,6)])
  show ?thesis
    using b f low_high [OF b(1,2)] low_high [OF b(3,4)]
    by (simp add: pack_mode_def m del: of_int_diff)
qed

lemma pack_modes_packable:
  "list_all packable ms \<Longrightarrow>
     \<exists>a. pack_modes ms = Inr a \<and> length a = 6 * length ms \<and> unpack_modes a = Inr ms"
proof (induction ms)
  case (Cons m ms)
  obtain a where a: "pack_mode m = Inr a" "length a = 6"
    "\<forall>rest ms. unpack_modes rest = Inr ms \<longrightarrow> unpack_modes (a @ rest) = Inr (m # ms)"
    using pack_mode_packable Cons.prems by fastforce
  obtain b where "pack_modes ms = Inr b" "length b = 6 * length ms" "unpack_modes b = Inr ms"
    using Cons by auto
  then show ?case using a by simp
qed simp

lemma walk_step:
  assumes "drop pos ext = header # p @ rest" "length p = unat header mod 32"
    and "pos < unat (ext ! 2)"
  shows "walk ext pos = (case decode_block header p of Inl e \<Rightarrow> Inl e
    | Inr ms \<Rightarrow> (case walk ext (pos + 1 + length p) of Inl e \<Rightarrow> Inl e | Inr r \<Rightarrow> Inr (ms @ r)))"
proof -
  have pos: "pos < length ext" using assms(1) by (metis drop_eq_Nil list.distinct(1) not_le)
  then have "ext ! pos = header" "drop (pos + 1) ext = p @ rest"
    using assms(1) by (metis Cons_nth_drop_Suc Suc_eq_plus1 list.inject)+
  then show ?thesis
    using pos assms(3) by (subst walk.simps) (simp add: Let_def cong: sum.case_cong flip: assms(2))
qed

lemma walk_stop: "\<not> pos < unat (ext ! 2) \<Longrightarrow> walk ext pos = Inr []"
  by (subst walk.simps) simp

lemma tag_e0:
  assumes "1 \<le> k" "k \<le> 4"
  shows "\<exists>t. octet_of (0xE0 OR int (2 + 6 * k)) = Inr t \<and> unat t div 32 = 7 \<and> unat t mod 32 = 2 + 6 * k"
proof -
  have "list_all (\<lambda>k. case octet_of (0xE0 OR int (2 + 6 * k)) of Inl e \<Rightarrow> False
      | Inr t \<Rightarrow> unat t div 32 = 7 \<and> unat t mod 32 = 2 + 6 * k) [1, 2, 3, 4]"
    by code_simp
  moreover have "k = 1 \<or> k = 2 \<or> k = 3 \<or> k = 4" using assms by linarith
  ultimately show ?thesis by (auto split: sum.splits)
qed

lemma custom_walk:
  "list_all packable ms \<Longrightarrow>
     \<exists>blks. custom_blocks ms = Inr blks \<and> length blks = 3 * ((length ms + 3) div 4) + 6 * length ms \<and>
       (\<forall>ext pos rest. drop pos ext = blks @ rest \<longrightarrow> unat (ext ! 2) = pos + length blks \<longrightarrow>
          walk ext pos = Inr ms)"
proof (induction ms rule: custom_blocks.induct)
  case (1 ms)
  show ?case
  proof (cases "ms = []")
    case True
    then show ?thesis by (subst custom_blocks.simps) (simp add: walk_stop)
  next
    case False
    have p4: "list_all packable (take 4 ms)" "list_all packable (drop 4 ms)"
      using 1(2) by (auto simp: list_all_iff dest: in_set_takeD in_set_dropD)
    obtain a where a: "pack_modes (take 4 ms) = Inr a" "length a = 6 * length (take 4 ms)"
      "unpack_modes a = Inr (take 4 ms)"
      using pack_modes_packable [OF p4(1)] by blast
    have k: "1 \<le> length (take 4 ms)" "length (take 4 ms) \<le> 4" using False by (cases ms) simp_all
    obtain t where t: "octet_of (0xE0 OR int (2 + 6 * length (take 4 ms))) = Inr t"
      "unat t div 32 = 7" "unat t mod 32 = 2 + 6 * length (take 4 ms)"
      using tag_e0 [OF k] by blast
    have t': "octet_of (0xE0 OR int (length ([0x2A, 0] @ a))) = Inr t" using t(1) a(2) by simp
    obtain blks where b: "custom_blocks (drop 4 ms) = Inr blks"
      "length blks = 3 * ((length (drop 4 ms) + 3) div 4) + 6 * length (drop 4 ms)"
      "\<forall>ext pos rest. drop pos ext = blks @ rest \<longrightarrow> unat (ext ! 2) = pos + length blks \<longrightarrow>
         walk ext pos = Inr (drop 4 ms)"
      using 1(1) [OF False a(1) refl t' p4(2)] by blast
    let ?p = "[0x2A, 0] @ a"
    have c: "custom_blocks ms = Inr (t # ?p @ blks)"
      using False a(1) t' b(1) by (subst custom_blocks.simps) (simp add: Let_def)
    have len: "length (t # ?p @ blks) = 3 * ((length ms + 3) div 4) + 6 * length ms"
      using a(2) b(2) False by (cases "length ms \<le> 4"; cases ms) (simp_all add: min_def)
    have "walk ext pos = Inr ms" if d: "drop pos ext = (t # ?p @ blks) @ rest"
      and e: "unat (ext ! 2) = pos + length (t # ?p @ blks)" for ext pos rest
    proof -
      have d': "drop pos ext = t # ?p @ (blks @ rest)" using d by simp
      have "drop (pos + 1 + length ?p) ext = blks @ rest"
        using d' by (metis (no_types) append_eq_conv_conj drop_Suc_Cons drop_drop add.commute
            add.left_commute plus_1_eq_Suc)
      then have w: "walk ext (pos + 1 + length ?p) = Inr (drop 4 ms)"
        using b(3) e by simp
      have "decode_block t ?p = Inr (take 4 ms)" using t(2) a(3) by (simp add: decode_block_def)
      then show ?thesis
        using walk_step [OF d'] t(3) a(2) e w by simp
    qed
    with c len show ?thesis by blast
  qed
qed

lemma tag_40:
  assumes "k \<le> 31"
  shows "\<exists>t. octet_of (0x40 OR int k) = Inr t \<and> unat t div 32 = 2 \<and> unat t mod 32 = k"
proof -
  have "list_all (\<lambda>k. case octet_of (0x40 OR int k) of Inl e \<Rightarrow> False
      | Inr t \<Rightarrow> unat t div 32 = 2 \<and> unat t mod 32 = k) [0..<32]"
    by code_simp
  then have "case octet_of (0x40 OR int k) of Inl e \<Rightarrow> False
      | Inr t \<Rightarrow> unat t div 32 = 2 \<and> unat t mod 32 = k"
    using assms unfolding list_all_iff set_upt by (elim bspec) simp
  then show ?thesis by (auto split: sum.splits)
qed

lemma vics_inverse: "map_of vics m = Some v \<Longrightarrow> unvic v = Inr m"
  by (auto simp: vics_def unvic_def split: if_splits)

lemma unvics_standard:
  "unvics (map (\<lambda>m. the (map_of vics m)) (filter is_vic ms)) = Inr (filter is_vic ms)"
  by (induction ms) (auto simp: is_vic_def vics_inverse)

lemma walk_skip:
  assumes "drop pos ext = header # p @ rest" "length p = unat header mod 32"
    and "unat header div 32 \<noteq> 2" "unat header div 32 \<noteq> 7" "pos < unat (ext ! 2)"
    and "q = pos + (1 + length p)"
  shows "walk ext pos = walk ext q"
  using walk_step [OF assms(1,2,5)] assms(3,4) unfolding assms(6)
  by (cases "walk ext (pos + (1 + length p))") (simp_all add: decode_block_def)

lemma drop_plus: "drop (p + n) xs = drop n (drop p xs)"
  by (simp add: add.commute)

lemma audio_walk:
  assumes "drop pos ext = audio_and_link @ rest" "pos + 24 \<le> unat (ext ! 2)"
  shows "walk ext pos = walk ext (pos + 24)"
proof -
  have d0: "drop pos ext = 0x23 # [0x09, 0x07, 0x01] @
      ([0x83, 0x01, 0x00, 0x00, 0x67, 0x03, 0x0C, 0x00, 0x10, 0x00,
        0x00, 0x78, 0x67, 0xD8, 0x5D, 0xC4, 0x01, 0x78, 0x80, 0x00] @ rest)"
    using assms(1) by (simp add: audio_and_link_def)
  have d1: "drop (pos + 4) ext = 0x83 # [0x01, 0x00, 0x00] @
      ([0x67, 0x03, 0x0C, 0x00, 0x10, 0x00, 0x00, 0x78, 0x67, 0xD8, 0x5D, 0xC4, 0x01, 0x78, 0x80, 0x00]
       @ rest)"
    unfolding drop_plus d0 by simp
  have d2: "drop (pos + 8) ext = 0x67 # [0x03, 0x0C, 0x00, 0x10, 0x00, 0x00, 0x78] @
      ([0x67, 0xD8, 0x5D, 0xC4, 0x01, 0x78, 0x80, 0x00] @ rest)"
    unfolding drop_plus d0 by simp
  have d3: "drop (pos + 16) ext = 0x67 # [0xD8, 0x5D, 0xC4, 0x01, 0x78, 0x80, 0x00] @ rest"
    unfolding drop_plus d0 by simp
  have "walk ext pos = walk ext (pos + 4)"
    by (rule walk_skip [OF d0]) (use assms(2) in simp_all)
  also have "\<dots> = walk ext (pos + 8)"
    by (rule walk_skip [OF d1]) (use assms(2) in simp_all)
  also have "\<dots> = walk ext (pos + 16)"
    by (rule walk_skip [OF d2]) (use assms(2) in simp_all)
  also have "\<dots> = walk ext (pos + 24)"
    by (rule walk_skip [OF d3]) (use assms(2) in simp_all)
  finally show ?thesis .
qed

text \<open>The bytes the data blocks of a list of modes take.\<close>

definition cta_size :: "mode list \<Rightarrow> nat" where
  "cta_size modes =
     (let s = length (filter is_vic modes); c = length (filter (\<lambda>m. \<not> is_vic m) modes)
      in 25 + s + 3 * ((c + 3) div 4) + 6 * c)"

lemma cta_walk:
  assumes "list_all packable modes" "length (filter is_vic modes) \<le> 31" "cta_size modes \<le> 123"
  shows "\<exists>cta. cta_data modes = Inr cta \<and> length cta = cta_size modes \<and>
    walk (extension cta) 4 = Inr (filter is_vic modes @ filter (\<lambda>m. \<not> is_vic m) modes)"
proof -
  let ?std = "filter is_vic modes" and ?cus = "filter (\<lambda>m. \<not> is_vic m) modes"
  let ?vs = "map (\<lambda>m. the (map_of vics m)) ?std"
  obtain t where t: "octet_of (0x40 OR int (length ?std)) = Inr t" "unat t div 32 = 2"
    "unat t mod 32 = length ?std"
    using tag_40 [OF assms(2)] by blast
  have "list_all packable ?cus" using assms(1) by (simp add: list_all_iff)
  from custom_walk [OF this] obtain blks where b: "custom_blocks ?cus = Inr blks"
    "length blks = 3 * ((length ?cus + 3) div 4) + 6 * length ?cus"
    "\<forall>ext pos rest. drop pos ext = blks @ rest \<longrightarrow> unat (ext ! 2) = pos + length blks \<longrightarrow>
       walk ext pos = Inr ?cus"
    by blast
  define cta where "cta = t # ?vs @ audio_and_link @ blks"
  have a24: "length audio_and_link = 24" by (simp add: audio_and_link_def)
  have c: "cta_data modes = Inr cta" using t(1) b(1) by (simp add: cta_data_def Let_def cta_def)
  have len: "length cta = cta_size modes" using b(2) a24 by (simp add: cta_def cta_size_def Let_def)
  let ?ext = "extension cta"
  have l: "length cta \<le> 123" using len assms(3) by simp
  note es = extension_shape [OF l]
  have e2: "unat (?ext ! 2) = 4 + length cta"
    using l unfolding es(3) by (subst unat_of_nat) simp
  obtain tail where d: "drop 4 ?ext = t # ?vs @ (audio_and_link @ blks @ tail)"
    using es(4) by (simp add: cta_def)
  have n: "drop (5 + length ?vs) ?ext = audio_and_link @ blks @ tail"
  proof -
    have "drop (5 + length ?vs) ?ext = drop (1 + length ?vs) (drop 4 ?ext)" by simp
    then show ?thesis unfolding d by simp
  qed
  have "walk ?ext 4 = (case walk ?ext (4 + 1 + length ?vs) of Inl e \<Rightarrow> Inl e | Inr r \<Rightarrow> Inr (?std @ r))"
    using walk_step [OF d] t unvics_standard [of modes] e2 by (simp add: decode_block_def cta_def)
  moreover have "walk ?ext (5 + length ?vs) = walk ?ext (5 + length ?vs + 24)"
    by (rule audio_walk [OF n]) (use e2 in \<open>simp add: cta_def a24\<close>)
  moreover have "drop (5 + length ?vs + 24) ?ext = blks @ tail"
    unfolding drop_plus [of "5 + length ?vs"] n by (simp add: a24)
  then have "walk ?ext (5 + length ?vs + 24) = Inr ?cus"
    using b(3) e2 by (simp add: cta_def a24)
  ultimately have "walk ?ext 4 = Inr (?std @ ?cus)" by simp
  then show ?thesis using c len by blast
qed

lemma mset_split: "mset (filter P xs @ filter (\<lambda>x. \<not> P x) xs) = mset xs"
  by (induction xs) auto

lemma generate_succeeds:
  assumes "128 \<le> length base" "take 8 base = edid_header"
    and "list_all packable modes" "length (filter is_vic modes) \<le> 31" "cta_size modes \<le> 123"
  shows "\<exists>out. generate base modes = Inr out"
proof -
  obtain cta where c: "cta_data modes = Inr cta" "length cta = cta_size modes"
    "walk (extension cta) 4 = Inr (filter is_vic modes @ filter (\<lambda>m. \<not> is_vic m) modes)"
    using cta_walk [OF assms(3-5)] by blast
  have l: "length cta \<le> 123" using c(2) assms(5) by simp
  note bs = base_block_shape [OF assms(1)] and es = extension_shape [OF l]
  have "sort (filter is_vic modes @ filter (\<lambda>m. \<not> is_vic m) modes) = sort modes"
    using mset_split [of is_vic modes] by (metis properties_for_sort sorted_sort mset_sort)
  then show ?thesis
    using assms(1,2) c(1,3) l bs es by (simp add: generate_def Let_def min_def)
qed

section \<open>Installing\<close>

lemma apply_edid_cases:
  assumes "apply_edid rx keep wanted h = (h', r)"
  shows "r \<noteq> None \<and> h' = h \<and> \<not> valid wanted \<or>
    r = None \<and> h' = h \<and> get_edid rx (device h) = wanted \<and> valid wanted \<or>
    valid wanted \<and> get_edid rx (device h) \<noteq> wanted \<and>
      device h' = set_edid rx wanted (device h) \<and>
      (r = None \<longleftrightarrow> get_edid rx (device h') = wanted) \<and>
      backup h' = (if keep \<and> backup h = None \<and> valid (get_edid rx (device h))
                   then Some (get_edid rx (device h)) else backup h)"
  using assms by (auto simp: apply_edid_def Let_def split: if_splits)



text \<open>
  \<open>apply_edid\<close> succeeds exactly when the EDID is valid and read back unchanged; it never
  overwrites a backup, saves only what the receiver had, and touches nothing otherwise.
\<close>

lemma edid_installed:
  assumes "apply_edid rx keep wanted h = (h', r)"
  shows "(r = None \<longleftrightarrow> valid wanted \<and> get_edid rx (device h') = wanted) \<and>
    (backup h \<noteq> None \<longrightarrow> backup h' = backup h) \<and>
    (\<forall>b. backup h = None \<longrightarrow> backup h' = Some b \<longrightarrow> b = get_edid rx (device h) \<and> valid b) \<and>
    (get_edid rx (device h) = wanted \<or> \<not> valid wanted \<longrightarrow> h' = h)"
  using apply_edid_cases [OF assms] by (auto split: if_splits)

end
