(* ===== verification/Edid_Final.thy ===== *)
theory Edid_Final
  imports Edid_Laws
begin

unbundle bit_operations_syntax

text \<open>
  \<open>tools/edid_final_candidate.py\<close>: the EDID that is shipped
  (\<open>config/rkmoon-edid-eight-modes.bin\<close>).  It takes the base block of
  \<open>edid_fit_trial.py\<close>, replaces the preferred timing and lists the modes without
  a VIC as detailed timings, each of which is decoded again and compared.

  The script computes two quotients in floating point before it rounds or
  compares them; here they are exact.  The first differs from the script only if
  \<open>460 * h * f\<close> is a multiple of \<open>1000000 - 460 * f\<close>, the second only for a
  refresh rate within rounding of 0.2 Hz from the requested one.
\<close>

section \<open>A detailed timing\<close>

fun octets :: "int list \<Rightarrow> octet list res" where
  "octets [] = Inr []"
| "octets (i # is) =
     (case octet_of i of
        Inl e \<Rightarrow> Inl e
      | Inr b \<Rightarrow> (case octets is of Inl e \<Rightarrow> Inl e | Inr bs \<Rightarrow> Inr (b # bs)))"

text \<open>\<open>struct.pack_into('<H', b, 0, clock)\<close>\<close>

definition pack_clock :: "int \<Rightarrow> octet list res" where
  "pack_clock c =
     (if 0 \<le> c \<and> c < 65536 then Inr [of_int (c mod 256), of_int (c div 256)] else Inl StructError)"

definition vsync :: "int \<Rightarrow> int \<Rightarrow> int" where
  "vsync w h = (if w * 9 = h * 16 then 5 else if w * 10 = h * 16 then 6 else 10)"

text \<open>The clock in units of 10 kHz, and the blanking: \<open>hb, vb, hfp, hs, vfp, vs\<close>.\<close>

definition porches :: "int \<Rightarrow> int \<Rightarrow> int \<Rightarrow> bool \<Rightarrow> int \<times> int \<times> int \<times> int \<times> int \<times> int \<times> int" where
  "porches w h f standard =
     (if standard then (14850 * f div 60, 280, 45, 88, 44, 4, 5)
      else
        (let vs = vsync w h;
             vb = max ((460 * h * f) div (1000000 - 460 * f) + 1) (3 + vs + 6)
         in ((f * (w + 160) * (h + vb)) div 250000 * 25, 160, vb, 48, 32, 3, vs)))"

definition dtd :: "int \<Rightarrow> int \<Rightarrow> int \<Rightarrow> bool \<Rightarrow> octet list res" where
  "dtd w h f standard =
     (if f = 0 \<or> h = 0 then Inl ZeroDivisionError
      else if standard \<and> \<not> ((w, h) = (1920, 1080) \<and> f \<in> {60, 120}) then Inl AssertionError
      else
        (case porches w h f standard of
           (clock, hb, vb, hfp, hs, vfp, vs) \<Rightarrow>
             (case pack_clock clock of
                Inl e \<Rightarrow> Inl e
              | Inr c \<Rightarrow>
                  (case octets [w AND 255, hb AND 255, push_bit 4 (drop_bit 8 w) OR drop_bit 8 hb,
                                h AND 255, vb AND 255, push_bit 4 (drop_bit 8 h) OR drop_bit 8 vb] of
                     Inl e \<Rightarrow> Inl e
                   | Inr geo \<Rightarrow>
                       (case octets [hfp AND 255, hs AND 255, push_bit 4 vfp OR vs, 0] of
                          Inl e \<Rightarrow> Inl e
                        | Inr porch \<Rightarrow>
                            Inr (c @ geo @ porch @ replicate 5 0 @ [if standard then 0x1E else 0x1A]))))))"

section \<open>The timings of the modes without a VIC\<close>

text \<open>What a timing says: active width and height, all pixels of a frame, the clock.\<close>

definition octet_at :: "octet list \<Rightarrow> nat \<Rightarrow> int" where
  "octet_at t i = uint (t ! i)"

definition active :: "octet list \<Rightarrow> int \<times> int" where
  "active t = (octet_at t 2 + push_bit 8 (drop_bit 4 (octet_at t 4)),
               octet_at t 5 + push_bit 8 (drop_bit 4 (octet_at t 7)))"

definition frame_pixels :: "octet list \<Rightarrow> int" where
  "frame_pixels t =
     (fst (active t) + octet_at t 3 + push_bit 8 (octet_at t 4 AND 15)) *
     (snd (active t) + octet_at t 6 + push_bit 8 (octet_at t 7 AND 15))"

definition pixel_clock :: "octet list \<Rightarrow> int" where
  "pixel_clock t = (octet_at t 0 + 256 * octet_at t 1) * 10000"

text \<open>\<open>abs(hz - f) < 0.2\<close> for \<open>hz = pixel_clock t / frame_pixels t\<close>\<close>

definition refresh_close :: "octet list \<Rightarrow> int \<Rightarrow> bool" where
  "refresh_close t f \<longleftrightarrow> 5 * \<bar>pixel_clock t - f * frame_pixels t\<bar> < frame_pixels t"

fun timings :: "mode list \<Rightarrow> octet list res" where
  "timings [] = Inr []"
| "timings ((w, h, f) # ms) =
     (case dtd w h f False of
        Inl e \<Rightarrow> Inl e
      | Inr t \<Rightarrow>
          if frame_pixels t = 0 then Inl ZeroDivisionError
          else if \<not> (active t = (w, h) \<and> refresh_close t f) then Inl AssertionError
          else (case timings ms of Inl e \<Rightarrow> Inl e | Inr ts \<Rightarrow> Inr (t @ ts)))"

section \<open>The candidate\<close>

definition candidate_base :: "octet list \<Rightarrow> octet list \<Rightarrow> octet list" where
  "candidate_base out t = (let b = splice 54 t (take 128 out) in b[127 := checksum (take 127 b)])"

definition candidate_data :: "octet list" where
  "candidate_data = of_int (0x40 OR int (length vics)) # map snd vics @ audio_and_link"

definition candidate :: "octet list \<Rightarrow> mode list \<Rightarrow> mode \<Rightarrow> octet list res" where
  "candidate source modes preferred =
     (case generate source modes of
        Inl e \<Rightarrow> Inl e
      | Inr out \<Rightarrow>
          (case preferred of
             (pw, ph, pf) \<Rightarrow>
               (case dtd pw ph pf True of
                  Inl e \<Rightarrow> Inl e
                | Inr t \<Rightarrow>
                    (case timings (filter (\<lambda>m. \<not> is_vic m) modes) of
                       Inl e \<Rightarrow> Inl e
                     | Inr ts \<Rightarrow>
                         (let b = candidate_base out t;
                              ext0 = [2, 3, of_nat (4 + length candidate_data), 0x40] @ candidate_data @ ts
                          in
                            if length ext0 > 127 then Inl AssertionError
                            else
                              (let ext1 = ext0 @ replicate (127 - length ext0) 0;
                                   ext = ext1 @ [checksum ext1]
                               in
                                 if \<not> (length (b @ ext) = 256 \<and> byte_sum b mod 256 = byte_sum ext mod 256 \<and>
                                       byte_sum ext mod 256 = 0)
                                 then Inl AssertionError
                                 else Inr (b @ ext)))))))"

text \<open>\<open>config/edid-requested-modes.json\<close> and \<open>config/rkmoon-edid-eight-modes.bin\<close>\<close>

definition requested_modes :: "mode list" where
  "requested_modes =
     [(1920, 1080, 30), (1920, 1080, 60), (1920, 1080, 120), (1920, 1280, 90), (2560, 1440, 120),
      (2560, 1600, 120), (3840, 2160, 30), (3840, 2160, 60)]"

definition preferred_mode :: mode where
  "preferred_mode = (1920, 1080, 120)"

definition shipped_edid :: "octet list" where
  "shipped_edid =
     [0x00, 0xFF, 0xFF, 0xFF, 0xFF, 0xFF, 0xFF, 0x00, 0x49, 0x70, 0x88, 0x35, 0x01, 0x00, 0x00, 0x00,
      0x2D, 0x1F, 0x01, 0x03, 0x80, 0x78, 0x44, 0x78, 0x0A, 0xCF, 0x74, 0xA3, 0x57, 0x4C, 0xB0, 0x23,
      0x09, 0x48, 0x4C, 0x00, 0x00, 0x00, 0x01, 0x01, 0x01, 0x01, 0x01, 0x01, 0x01, 0x01, 0x01, 0x01,
      0x01, 0x01, 0x01, 0x01, 0x01, 0x01, 0x04, 0x74, 0x80, 0x18, 0x71, 0x38, 0x2D, 0x40, 0x58, 0x2C,
      0x45, 0x00, 0x00, 0x00, 0x00, 0x00, 0x00, 0x1E, 0x00, 0x00, 0x00, 0xFC, 0x00, 0x52, 0x4B, 0x4D,
      0x6F, 0x6F, 0x6E, 0x20, 0x54, 0x72, 0x69, 0x61, 0x6C, 0x0A, 0x00, 0x00, 0x00, 0x10, 0x00, 0x00,
      0x00, 0x00, 0x00, 0x00, 0x00, 0x00, 0x00, 0x00, 0x00, 0x00, 0x00, 0x00, 0x00, 0x00, 0x00, 0x10,
      0x00, 0x00, 0x00, 0x00, 0x00, 0x00, 0x00, 0x00, 0x00, 0x00, 0x00, 0x00, 0x00, 0x00, 0x01, 0xF2,
      0x02, 0x03, 0x22, 0x40, 0x45, 0x22, 0x10, 0x3F, 0x5F, 0x61, 0x23, 0x09, 0x07, 0x01, 0x83, 0x01,
      0x00, 0x00, 0x67, 0x03, 0x0C, 0x00, 0x10, 0x00, 0x00, 0x78, 0x67, 0xD8, 0x5D, 0xC4, 0x01, 0x78,
      0x80, 0x00, 0xA8, 0x61, 0x80, 0xA0, 0x70, 0x00, 0x38, 0x50, 0x30, 0x20, 0x3A, 0x00, 0x00, 0x00,
      0x00, 0x00, 0x00, 0x1A, 0x6F, 0xC2, 0x00, 0xA0, 0xA0, 0xA0, 0x55, 0x50, 0x30, 0x20, 0x35, 0x00,
      0x00, 0x00, 0x00, 0x00, 0x00, 0x1A, 0xEB, 0xD7, 0x00, 0xA0, 0xA0, 0x40, 0x5E, 0x60, 0x30, 0x20,
      0x36, 0x00, 0x00, 0x00, 0x00, 0x00, 0x00, 0x1A, 0x00, 0x00, 0x00, 0x00, 0x00, 0x00, 0x00, 0x00,
      0x00, 0x00, 0x00, 0x00, 0x00, 0x00, 0x00, 0x00, 0x00, 0x00, 0x00, 0x00, 0x00, 0x00, 0x00, 0x00,
      0x00, 0x00, 0x00, 0x00, 0x00, 0x00, 0x00, 0x00, 0x00, 0x00, 0x00, 0x00, 0x00, 0x00, 0x00, 0x5A]"

section \<open>Timings\<close>

lemma octets_length: "octets is = Inr bs \<Longrightarrow> length bs = length is"
  by (induction "is" arbitrary: bs) (auto split: sum.splits)

lemma pack_clock_length: "pack_clock c = Inr bs \<Longrightarrow> length bs = 2"
  by (auto simp: pack_clock_def split: if_splits)

lemma dtd_length: "dtd w h f standard = Inr t \<Longrightarrow> length t = 18"
  by (auto simp: dtd_def simp del: octets.simps dest!: octets_length pack_clock_length
      split: if_splits sum.splits prod.splits)

definition timing_of :: "octet list \<Rightarrow> nat \<Rightarrow> octet list" where
  "timing_of ts i = take 18 (drop (18 * i) ts)"

definition shows_mode :: "octet list \<Rightarrow> mode \<Rightarrow> bool" where
  "shows_mode t m \<longleftrightarrow> (case m of (w, h, f) \<Rightarrow> active t = (w, h) \<and> refresh_close t f)"

lemma timings_show:
  "timings ms = Inr ts \<Longrightarrow>
     length ts = 18 * length ms \<and> (\<forall>i < length ms. shows_mode (timing_of ts i) (ms ! i))"
proof (induction ms arbitrary: ts)
  case (Cons m ms)
  obtain w h f where m: "m = (w, h, f)" by (cases m)
  with Cons.prems obtain t us where t: "dtd w h f False = Inr t" "active t = (w, h)" "refresh_close t f"
      "timings ms = Inr us" "ts = t @ us" by (auto split: sum.splits if_splits)
  note l = dtd_length [OF t(1)] and ih = Cons.IH [OF t(4)]
  have "shows_mode (timing_of ts i) ((m # ms) ! i)" if "i < length (m # ms)" for i
  proof (cases i)
    case 0
    with t l m show ?thesis by (simp add: timing_of_def shows_mode_def)
  next
    case (Suc k)
    then have "timing_of ts i = timing_of us k" using l by (simp add: timing_of_def t(5))
    with ih Suc that show ?thesis by simp
  qed
  with ih l t(5) show ?case by simp
qed simp

lemma preferred_timing:
  assumes "dtd w h f True = Inr t"
  shows "(w, h) = (1920, 1080) \<and> f \<in> {60, 120} \<and> active t = (w, h) \<and> pixel_clock t = f * frame_pixels t"
proof -
  have f: "(w, h) = (1920, 1080)" "f = 60 \<or> f = 120" using assms by (auto simp: dtd_def split: if_splits)
  have "case dtd 1920 1080 60 True of Inl e \<Rightarrow> False | Inr t \<Rightarrow>
      active t = (1920, 1080) \<and> pixel_clock t = 60 * frame_pixels t"
    and "case dtd 1920 1080 120 True of Inl e \<Rightarrow> False | Inr t \<Rightarrow>
      active t = (1920, 1080) \<and> pixel_clock t = 120 * frame_pixels t"
    by code_simp+
  with f assms show ?thesis by auto
qed

section \<open>The two blocks\<close>

definition first_fixed :: "octet list" where
  "first_fixed = [0, 0, 0] @ concat (replicate 8 [1, 1])"

definition last_fixed :: "octet list" where
  "last_fixed = name_descriptor @ blank_descriptor @ blank_descriptor @ [1]"

lemma fixed_lengths: "length first_fixed = 19" "length last_fixed = 55"
    "length (concat (replicate 3 blank_descriptor)) = 54" "length name_descriptor = 18" "length blank_descriptor = 18"
  by code_simp+

lemma base_block_parts:
  assumes "128 \<le> length base"
  shows "take 127 (base_block base) = take 35 base @ first_fixed @ take 18 (drop 54 base) @ last_fixed"
proof -
  define p where "p = take 35 base"
  define q where "q = take 19 (drop 35 base)"
  define d where "d = take 18 (drop 54 base)"
  define e where "e = take 56 (drop 72 base)"
  have l: "length p = 35" "length q = 19" "length d = 18" "length e = 56"
    using assms by (simp_all add: p_def q_def d_def e_def)
  have "take (35 + (19 + (18 + 56))) base = p @ q @ d @ e"
    by (simp only: take_add drop_drop p_def q_def d_def e_def) simp
  then have b: "take 128 base = p @ q @ d @ e" by simp
  have one: "splice 35 [0, 0, 0] (p @ q @ d @ e) = p @ [0, 0, 0] @ drop 3 q @ d @ e"
    using l by (simp add: splice_def)
  have two: "splice 38 (concat (replicate 8 [1, 1])) (p @ [0, 0, 0] @ drop 3 q @ d @ e) = p @ first_fixed @ d @ e"
    using l by (simp add: splice_def first_fixed_def numeral_eq_Suc)
  have three: "splice 72 (concat (replicate 3 blank_descriptor)) (p @ first_fixed @ d @ e) =
      p @ first_fixed @ d @ concat (replicate 3 blank_descriptor) @ drop 54 e"
    using l fixed_lengths by (simp add: splice_def)
  have four: "splice 72 name_descriptor (p @ first_fixed @ d @ concat (replicate 3 blank_descriptor) @ drop 54 e) =
      p @ first_fixed @ d @ name_descriptor @ blank_descriptor @ blank_descriptor @ drop 54 e"
    using l fixed_lengths by (simp add: splice_def numeral_3_eq_3)
  have "drop 54 e = [e ! 54, e ! 55]" using l(4) by (simp add: list_eq_iff_nth_eq nth_Cons numeral_eq_Suc All_less_Suc)
  then have five: "(p @ first_fixed @ d @ name_descriptor @ blank_descriptor @ blank_descriptor @ drop 54 e)[126 := 1] =
      p @ first_fixed @ d @ last_fixed @ [e ! 55]"
    using l fixed_lengths by (simp add: list_update_append last_fixed_def)
  have "take 127 (base_block base) = p @ first_fixed @ d @ last_fixed"
    unfolding base_block_def Let_def b one two three four five
    using l fixed_lengths by (simp add: list_update_append)
  then show ?thesis by (simp add: p_def d_def)
qed

lemma candidate_base_parts:
  assumes "128 \<le> length base" and "length t = 18"
  defines "front \<equiv> take 35 base @ first_fixed @ t @ last_fixed"
  shows "candidate_base (base_block base @ ext) t = front @ [checksum front]"
    and "length front = 127"
proof -
  note bs = base_block_shape [OF assms(1)]
  show len: "length front = 127" using assms fixed_lengths by simp
  define c where "c = base_block base ! 127"
  have "base_block base = take 127 (base_block base) @ [c]"
    using bs(1) by (simp add: c_def take_Suc_conv_app_nth [of 127, simplified, symmetric])
  then have b: "base_block base = take 35 base @ first_fixed @ take 18 (drop 54 base) @ last_fixed @ [c]"
    using base_block_parts [OF assms(1)] by simp
  have "splice 54 t (base_block base) = front @ [c]"
    using assms fixed_lengths by (subst b) (simp add: splice_def front_def)
  then show "candidate_base (base_block base @ ext) t = front @ [checksum front]"
    using bs(1) len by (simp add: candidate_base_def Let_def list_update_append)
qed

section \<open>What the script produces\<close>

definition candidate_front :: "octet list \<Rightarrow> octet list \<Rightarrow> octet list" where
  "candidate_front source t = take 35 source @ first_fixed @ t @ last_fixed"

definition candidate_ext :: "octet list \<Rightarrow> octet list" where
  "candidate_ext ts = [2, 3, of_nat (4 + length candidate_data), 0x40] @ candidate_data @ ts @ replicate (93 - length ts) 0"

definition closed :: "octet list \<Rightarrow> octet list" where
  "closed b = b @ [checksum b]"

lemma closed_sum: "byte_sum (closed b) mod 256 = 0"
  using checksum_closes by (simp add: closed_def)

lemma candidate_data_length: "length candidate_data = 30"
  by code_simp

lemma audio_length: "length audio_and_link = 24"
  by code_simp

lemma candidate_lengths:
  "128 \<le> length source \<Longrightarrow> length t = 18 \<Longrightarrow> length (closed (candidate_front source t)) = 128"
  "length ts \<le> 93 \<Longrightarrow> length (closed (candidate_ext ts)) = 128"
  by (simp_all add: closed_def candidate_front_def candidate_ext_def fixed_lengths candidate_data_length)

lemma generate_start:
  assumes "generate source modes = Inr g"
  obtains cta where "128 \<le> length source" "take 8 source = edid_header" "g = base_block source @ extension cta"
  using assms by (auto simp: generate_def Let_def min_def split: if_splits sum.splits)

lemma candidate_iff:
  "candidate source modes (pw, ph, pf) = Inr out \<longleftrightarrow>
     (\<exists>g t ts. generate source modes = Inr g \<and> dtd pw ph pf True = Inr t \<and>
       timings (filter (\<lambda>m. \<not> is_vic m) modes) = Inr ts \<and> length ts \<le> 93 \<and>
       out = closed (candidate_front source t) @ closed (candidate_ext ts))"
proof -
  have "candidate source modes (pw, ph, pf) =
      (if length ts > 93 then Inl AssertionError
       else Inr (closed (candidate_front source t) @ closed (candidate_ext ts)))"
    if g: "generate source modes = Inr g" and t: "dtd pw ph pf True = Inr t"
      and ts: "timings (filter (\<lambda>m. \<not> is_vic m) modes) = Inr ts" for g t ts
  proof -
    from generate_start [OF g] obtain cta where s: "128 \<le> length source" "g = base_block source @ extension cta" by metis
    have b: "candidate_base g t = closed (candidate_front source t)"
      using candidate_base_parts(1) [OF s(1) dtd_length [OF t]] s(2) by (simp add: closed_def candidate_front_def)
    define ext0 where "ext0 = [2, 3, of_nat (4 + length candidate_data), 0x40] @ candidate_data @ ts"
    have e: "ext0 @ replicate (127 - length ext0) 0 = candidate_ext ts"
      by (simp add: ext0_def candidate_ext_def candidate_data_length)
    have l: "length ext0 > 127 \<longleftrightarrow> length ts > 93"
      by (simp add: ext0_def candidate_data_length)
    have "candidate source modes (pw, ph, pf) =
        (if length ts > 93 then Inl AssertionError
         else if \<not> (length (closed (candidate_front source t) @ closed (candidate_ext ts)) = 256 \<and>
             byte_sum (closed (candidate_front source t)) mod 256 = byte_sum (closed (candidate_ext ts)) mod 256 \<and>
             byte_sum (closed (candidate_ext ts)) mod 256 = 0) then Inl AssertionError
         else Inr (closed (candidate_front source t) @ closed (candidate_ext ts)))"
      unfolding candidate_def g t ts Let_def sum.case prod.case b ext0_def [symmetric] e l
        closed_def [of "candidate_ext ts"] ..
    then show ?thesis
      using candidate_lengths(1) [OF s(1) dtd_length [OF t]] candidate_lengths(2) [of ts] closed_sum by auto
  qed
  note result = this
  show ?thesis
  proof (cases "generate source modes")
    case (Inl e)
    then show ?thesis by (simp add: candidate_def)
  next
    case (Inr g)
    note g = this
    show ?thesis
    proof (cases "dtd pw ph pf True")
      case (Inl e)
      then show ?thesis using g by (simp add: candidate_def)
    next
      case (Inr t)
      note t = this
      show ?thesis
      proof (cases "timings (filter (\<lambda>m. \<not> is_vic m) modes)")
        case (Inl e)
        then show ?thesis using g t by (simp add: candidate_def)
      next
        case (Inr ts)
        show ?thesis using result [OF g t Inr] g t Inr by auto
      qed
    qed
  qed
qed

lemma candidate_walk:
  assumes "length ts \<le> 93"
  shows "walk (closed (candidate_ext ts)) 4 = Inr (map fst vics)"
proof -
  let ?x = "closed (candidate_ext ts)"
  obtain r where r: "?x = [2, 3, 34, 0x40] @ (0x45 # map snd vics @ audio_and_link @ r)"
    by (simp add: closed_def candidate_ext_def candidate_data_length candidate_data_def vics_def audio_length)
  have two: "unat (?x ! 2) = 34" by (simp add: r)
  have d: "drop 4 ?x = 0x45 # map snd vics @ audio_and_link @ r" by (simp add: r)
  have ten: "4 + 1 + 5 = (10 :: nat)" by simp
  have five: "length (map snd vics) = 5" by code_simp
  have "walk ?x 4 = (case decode_block 0x45 (map snd vics) of Inl e \<Rightarrow> Inl e
      | Inr ms \<Rightarrow> (case walk ?x (4 + 1 + length (map snd vics)) of Inl e \<Rightarrow> Inl e | Inr q \<Rightarrow> Inr (ms @ q)))"
    by (rule walk_step [OF d]) (use two five in simp_all)
  then have "walk ?x 4 = (case decode_block 0x45 (map snd vics) of Inl e \<Rightarrow> Inl e
      | Inr ms \<Rightarrow> (case walk ?x 10 of Inl e \<Rightarrow> Inl e | Inr q \<Rightarrow> Inr (ms @ q)))"
    using ten unfolding five by metis
  moreover have "decode_block 0x45 (map snd vics) = Inr (map fst vics)" by code_simp
  moreover have "walk ?x 10 = walk ?x 34"
    using audio_walk [of 10 ?x r] two by (simp add: r vics_def)
  moreover have "walk ?x 34 = Inr []" by (rule walk_stop) (simp add: two)
  ultimately show ?thesis by simp
qed

text \<open>
C39. A candidate passes the installer, keeps the first 35 bytes of its source (header,
vendor identity, chromaticity), prefers exactly the wanted mode at exactly its
refresh rate, lists the five modes with a VIC, and its detailed timings decode
to the remaining requested modes in order, each within 0.2 Hz.
\<close>

theorem candidate_advertises:
  assumes "candidate source modes preferred = Inr out"
  shows "valid out \<and> take 35 out = take 35 source \<and>
    active (take 18 (drop 54 out)) = (fst preferred, fst (snd preferred)) \<and>
    pixel_clock (take 18 (drop 54 out)) = snd (snd preferred) * frame_pixels (take 18 (drop 54 out)) \<and>
    walk (drop 128 out) 4 = Inr (map fst vics) \<and>
    (let custom = filter (\<lambda>m. \<not> is_vic m) modes in
      \<forall>i < length custom. shows_mode (timing_of (drop 162 out) i) (custom ! i))"
proof -
  obtain pw ph pf where p: "preferred = (pw, ph, pf)" by (cases preferred)
  from assms obtain g t ts where c: "generate source modes = Inr g" "dtd pw ph pf True = Inr t"
      "timings (filter (\<lambda>m. \<not> is_vic m) modes) = Inr ts" "length ts \<le> 93"
      "out = closed (candidate_front source t) @ closed (candidate_ext ts)"
    unfolding p candidate_iff by blast
  from generate_start [OF c(1)] have s: "128 \<le> length source" "take 8 source = edid_header" by blast+
  note t = dtd_length [OF c(2)]
  note lens = candidate_lengths(1) [OF s(1) t] candidate_lengths(2) [OF c(4)]
  have lout: "length out = 256" using lens c(5) by simp
  have first: "take 128 out = closed (candidate_front source t)" and second: "drop 128 out = closed (candidate_ext ts)"
    using lens c(5) by simp_all
  have keep: "take 35 out = take 35 source"
    using s(1) c(5) by (simp add: closed_def candidate_front_def)
  moreover have "take 8 out = edid_header"
  proof -
    have "take 8 out = take 8 (take 35 out)" by simp
    with keep s(2) show ?thesis by simp
  qed
  then have "valid out"
    using valid_256 [OF lout] first second closed_sum lens by simp
  moreover have timing: "take 18 (drop 54 out) = t"
    using s(1) t c(5) fixed_lengths by (simp add: closed_def candidate_front_def)
  moreover have "walk (drop 128 out) 4 = Inr (map fst vics)"
    using candidate_walk [OF c(4)] second by simp
  moreover have "shows_mode (timing_of (drop 162 out) i) (filter (\<lambda>m. \<not> is_vic m) modes ! i)"
    if "i < length (filter (\<lambda>m. \<not> is_vic m) modes)" for i
  proof -
    note ts = timings_show [OF c(3)]
    have "drop 162 out = drop 34 (drop 128 out)" by simp
    also have "\<dots> = ts @ replicate (93 - length ts) 0 @ [checksum (candidate_ext ts)]"
      unfolding second using candidate_data_length by (simp add: closed_def candidate_ext_def)
    finally have "timing_of (drop 162 out) i = timing_of ts i"
      using ts that by (simp add: timing_of_def)
    with ts that show ?thesis by simp
  qed
  ultimately show ?thesis using preferred_timing [OF c(2)] by (simp add: p Let_def)
qed

text \<open>
C40. From every source with an EDID header the script produces the shipped file: the
two agree in every byte but the source's own first 35 and the checksum over
them.  The shipped file is reproduced from itself, bit for bit.
\<close>

theorem shipped_from_source:
  assumes "128 \<le> length source" and "take 8 source = edid_header"
  shows "\<exists>out. candidate source requested_modes preferred_mode = Inr out \<and>
    take 35 out = take 35 source \<and> take 92 (drop 35 out) = take 92 (drop 35 shipped_edid) \<and>
    drop 128 out = drop 128 shipped_edid"
proof -
  have "list_all packable requested_modes" "length (filter is_vic requested_modes) \<le> 31" "cta_size requested_modes \<le> 123"
    by (simp_all add: requested_modes_def packable_def cta_size_def is_vic_def vics_def)
  with generate_succeeds [OF assms] obtain g where g: "generate source requested_modes = Inr g" by blast
  have "case dtd 1920 1080 120 True of Inl e \<Rightarrow> False | Inr t \<Rightarrow>
      first_fixed @ t @ last_fixed = take 92 (drop 35 shipped_edid)"
    by code_simp
  then obtain t where t: "dtd 1920 1080 120 True = Inr t" "first_fixed @ t @ last_fixed = take 92 (drop 35 shipped_edid)"
    by (auto split: sum.splits)
  have "case timings (filter (\<lambda>m. \<not> is_vic m) requested_modes) of Inl e \<Rightarrow> False | Inr ts \<Rightarrow>
      length ts \<le> 93 \<and> closed (candidate_ext ts) = drop 128 shipped_edid"
    by code_simp
  then obtain ts where ts: "timings (filter (\<lambda>m. \<not> is_vic m) requested_modes) = Inr ts" "length ts \<le> 93"
      "closed (candidate_ext ts) = drop 128 shipped_edid"
    by (auto split: sum.splits)
  have "candidate source requested_modes preferred_mode =
      Inr (closed (candidate_front source t) @ closed (candidate_ext ts))"
    unfolding preferred_mode_def candidate_iff using g t(1) ts by blast
  moreover have "take 35 (closed (candidate_front source t)) = take 35 source"
    and "take 92 (drop 35 (closed (candidate_front source t))) = first_fixed @ t @ last_fixed"
    using assms dtd_length [OF t(1)] fixed_lengths by (simp_all add: closed_def candidate_front_def)
  ultimately show ?thesis
    using t(2) ts(3) candidate_lengths(1) [OF assms(1) dtd_length [OF t(1)]] by simp
qed

theorem shipped_from_source_witness:
  "candidate shipped_edid requested_modes preferred_mode = Inr shipped_edid \<and> valid shipped_edid"
proof -
  have s: "128 \<le> length shipped_edid" "take 8 shipped_edid = edid_header" "valid shipped_edid" by code_simp+
  from shipped_from_source [OF s(1,2)] obtain out where
      o: "candidate shipped_edid requested_modes preferred_mode = Inr out" "take 35 out = take 35 shipped_edid"
        "take 92 (drop 35 out) = take 92 (drop 35 shipped_edid)" "drop 128 out = drop 128 shipped_edid" by blast
  from o(1) obtain f x where f: "out = closed f @ x" "length (closed f) = 128"
    unfolding preferred_mode_def candidate_iff using candidate_lengths(1) s(1) dtd_length by blast
  have "take (35 + 92) out = take (35 + 92) shipped_edid" using o(2,3) by (simp only: take_add)
  then have t: "take 127 out = take 127 shipped_edid" by simp
  with f have f': "f = take 127 shipped_edid" by (simp add: closed_def)
  have "closed (take 127 shipped_edid) = take 128 shipped_edid" by code_simp
  with f f' o(4) have "out = take 128 shipped_edid @ drop 128 shipped_edid" by simp
  with o(1) s(3) show ?thesis by simp
qed

theorem candidate_advertises_witness:
  "\<exists>out. candidate shipped_edid requested_modes preferred_mode = Inr out \<and> valid out"
proof -
  have "128 \<le> length shipped_edid" "take 8 shipped_edid = edid_header" by code_simp+
  moreover have "list_all packable requested_modes" "length (filter is_vic requested_modes) \<le> 31" "cta_size requested_modes \<le> 123"
    by (simp_all add: requested_modes_def packable_def cta_size_def is_vic_def vics_def)
  ultimately obtain g where "generate shipped_edid requested_modes = Inr g" using generate_succeeds by blast
  moreover have "case dtd 1920 1080 120 True of Inl e \<Rightarrow> False | Inr t \<Rightarrow> True"
    and "case timings (filter (\<lambda>m. \<not> is_vic m) requested_modes) of Inl e \<Rightarrow> False | Inr ts \<Rightarrow> length ts \<le> 93"
    by code_simp+
  ultimately have "\<exists>out. candidate shipped_edid requested_modes preferred_mode = Inr out"
    unfolding preferred_mode_def candidate_iff by (auto split: sum.splits)
  then show ?thesis using candidate_advertises by blast
qed

end
