(* ===== verification/Run_Supervisor.thy ===== *)
theory Run_Supervisor
  imports Run_Config Hid_Http
begin

unbundle bit_operations_syntax

text \<open>
  The foreground supervisor \<open>tools/run.py\<close>: its checks of files and sockets, the
  defaults it creates, and \<open>start\<close> with its clean-up.  What the operating system
  answers is an argument; the result of \<open>start\<close> is the list of its actions on
  children and files, in order, together with the exit code or the exception.
\<close>

section \<open>Files and directories\<close>

record file_stat =
  symlink :: bool
  regular :: bool
  sock :: bool
  st_uid :: int
  st_mode :: nat

definition private_state :: "int \<Rightarrow> file_stat \<Rightarrow> exn option" where
  "private_state uid st =
     (if symlink st then Some Refused
      else if st_uid st \<noteq> uid \<or> st_mode st AND 0x3F \<noteq> 0 then Some Refused
      else None)"

text \<open>
  \<open>executable\<close>: \<open>x_ok\<close> is \<open>os.access(p, X_OK)\<close>, \<open>marked\<close> whether the required
  marker occurs in the file, \<open>xattr\<close> the extended attribute (\<open>Inl True\<close> for the
  two error numbers that mean there is none).
\<close>

definition executable :: "file_stat \<Rightarrow> bool \<Rightarrow> bool \<Rightarrow> bool + string \<Rightarrow> exn option" where
  "executable st x_ok marked xattr =
     (if \<not> regular st \<or> \<not> x_ok \<or> st_mode st AND (0x800 OR 0x400 OR 0x12) \<noteq> 0 then Some Refused
      else if \<not> marked then Some Refused
      else
        (case xattr of
           Inl none \<Rightarrow> if none then None else Some OSError
         | Inr v \<Rightarrow> if v \<noteq> [] then Some Refused else None))"

datatype connect_result = Connected | Conn_Refused | Conn_Error

text \<open>\<open>stale_socket\<close>: whether the path is unlinked, and the exception.\<close>

definition stale_socket :: "int \<Rightarrow> file_stat option \<Rightarrow> connect_result \<Rightarrow> bool \<times> exn option" where
  "stale_socket uid st conn =
     (case st of
        None \<Rightarrow> (False, None)
      | Some st \<Rightarrow>
          if \<not> sock st \<or> st_uid st \<noteq> uid then (False, Some Refused)
          else
            (case conn of
               Conn_Refused \<Rightarrow> (True, None)
             | Conn_Error \<Rightarrow> (False, Some Refused)
             | Connected \<Rightarrow> (False, Some Refused)))"

definition ports :: "(bool \<times> nat) list" where
  "ports = [(True, 47989), (True, 48010), (False, 47998), (False, 47999), (False, 48000)]"

definition check_ports :: "(bool \<times> nat \<Rightarrow> bool) \<Rightarrow> exn option" where
  "check_ports occupied = (if list_ex occupied ports then Some Refused else None)"

section \<open>Defaults\<close>

datatype node = Link | File string

definition unlines :: "string list \<Rightarrow> string" where
  "unlines ls = concat (map (\<lambda>l. l @ [CHR 0x0A]) ls)"

definition apps_json :: string where
  "apps_json = unlines
     [''{'', ''  \"env\": {},'', ''  \"apps\": ['', ''    {'', ''      \"name\": \"HDMI\",'',
      ''      \"cmd\": \"\",'', ''      \"image-path\": \"\"'', ''    }'', ''  ]'', ''}'']"

definition sunshine_conf :: "string \<Rightarrow> string" where
  "sunshine_conf state = unlines
     [''sunshine_name = NanoPC-T6 HDMI KVM'', ''upnp = disabled'', ''min_log_level = 2'',
      ''file_apps = '' @ state @ ''/apps.json'']"

fun create_defaults :: "(string \<times> string) list \<Rightarrow> (string \<rightharpoonup> node) \<Rightarrow> (string \<rightharpoonup> node) \<times> exn option" where
  "create_defaults [] fs = (fs, None)"
| "create_defaults ((name, text) # rest) fs =
     (case fs name of
        Some Link \<Rightarrow> (fs, Some Refused)
      | Some (File _) \<Rightarrow> create_defaults rest fs
      | None \<Rightarrow> create_defaults rest (fs(name \<mapsto> File text)))"

definition prepare :: "string \<Rightarrow> (string \<rightharpoonup> node) \<Rightarrow> (string \<rightharpoonup> node) \<times> exn option" where
  "prepare state fs =
     create_defaults [(''apps.json'', apps_json), (''sunshine.conf'', sunshine_conf state)] fs"

section \<open>\<open>stop\<close>\<close>

text \<open>
  \<open>record\<close> is the parsed control file, \<open>pidfd\<close> whether the platform has pidfds,
  \<open>proc_uid\<close> and \<open>stat_of\<close> what \<open>/proc\<close> says of a process.  The result is the
  process that is sent SIGTERM.
\<close>

text \<open>The start time in \<open>/proc/PID/stat\<close>, and what \<open>start\<close> records of itself.\<close>

definition proc_start :: "string option \<Rightarrow> string option" where
  "proc_start stat =
     (case Option.bind stat (after_last (CHR '')'')) of
        None \<Rightarrow> None
      | Some rest \<Rightarrow> if 19 < length (words rest) then Some (words rest ! 19) else None)"

definition start_json :: "string option \<Rightarrow> json" where
  "start_json t = (case t of None \<Rightarrow> JNull | Some s \<Rightarrow> JStr s)"

definition control_record :: "int \<Rightarrow> string option \<Rightarrow> json" where
  "control_record pid stat = JObj [(''pid'', JInt pid), (''start'', start_json (proc_start stat))]"

definition stop_target ::
  "int \<Rightarrow> json \<Rightarrow> bool \<Rightarrow> (int \<Rightarrow> int option) \<Rightarrow> (int \<Rightarrow> string option) \<Rightarrow> int res" where
  "stop_target uid record pidfd proc_uid stat_of =
     (case record of
        JObj r \<Rightarrow>
          (case map_of r ''pid'' of
             None \<Rightarrow> Inl KeyError
           | Some v \<Rightarrow>
               (case v of
                  JInt pid \<Rightarrow>
                    if pid < 2 then Inl Refused
                    else if \<not> pidfd then Inl Refused
                    else
                      (case proc_uid pid of
                         None \<Rightarrow> Inl OSError
                       | Some u \<Rightarrow>
                           if u \<noteq> uid then Inl Refused
                           else
                             (case map_of r ''start'' of
                                None \<Rightarrow> Inl KeyError
                              | Some s \<Rightarrow>
                                  if start_json (proc_start (stat_of pid)) \<noteq> s
                                  then Inl Refused else Inr pid))
                | _ \<Rightarrow> Inl Refused))
      | _ \<Rightarrow> Inl TypeError)"

text \<open>
  A supervisor is stopped through its own record exactly while it runs for the same
  user with the same start time: a process that has its number later is not signalled.
\<close>

lemma start_json_inj [simp]: "start_json a = start_json b \<longleftrightarrow> a = b"
  by (auto simp: start_json_def split: option.splits)

lemma stop_own_record:
  "stop_target uid (control_record pid stat) True proc_uid stat_of = Inr q \<longleftrightarrow>
     q = pid \<and> 2 \<le> pid \<and> proc_uid pid = Some uid \<and> proc_start (stat_of pid) = proc_start stat"
  by (auto simp: stop_target_def control_record_def split: option.split)

section \<open>\<open>start\<close>\<close>

datatype proc = Hid | Sunshine

datatype action =
    Write_Control | Unlink_Socket | Spawn proc | Mark_Recovery
  | Terminate proc | Kill proc | Reaped proc | Run_Release | Clear_Recovery | Remove_Control

text \<open>
  What happens to a run: the checks of the two executables, a free port list, the
  socket left behind, failing spawns, whether the bridge becomes ready, whether
  the main loop ended because a child died, which children still run at the end
  and leave in time, and the exit code of the release (\<open>None\<close> on timeout).
\<close>

record run_env =
  euid :: int
  binaries :: "exn option"
  prepared :: "exn option"
  ports_free :: "exn option"
  stale :: "bool \<times> exn option"
  spawn_fails :: "proc \<Rightarrow> exn option"
  hid_ready :: bool
  child_died :: bool
  still_runs :: "proc \<Rightarrow> bool"
  leaves_in_time :: "proc \<Rightarrow> bool"
  release_code :: "int option"

text \<open>The \<open>try\<close> block: actions, children in the order spawned, \<open>failed\<close> or the exception.\<close>

definition supervise :: "run_env \<Rightarrow> bool \<Rightarrow> action list \<times> proc list \<times> bool res" where
  "supervise e input =
     (let serve = (\<lambda>acts cs.
            case spawn_fails e Sunshine of
              Some x \<Rightarrow> (acts, cs, Inl x)
            | None \<Rightarrow> (acts @ [Spawn Sunshine], cs @ [Sunshine], Inr (child_died e)))
      in
        if \<not> input then serve [] []
        else
          (case stale e of
             (_, Some x) \<Rightarrow> ([], [], Inl x)
           | (u, None) \<Rightarrow>
               let a0 = (if u then [Unlink_Socket] else []) in
               (case spawn_fails e Hid of
                  Some x \<Rightarrow> (a0, [], Inl x)
                | None \<Rightarrow>
                    let a1 = a0 @ [Spawn Hid, Mark_Recovery] in
                    if \<not> hid_ready e then (a1, [Hid], Inl Refused) else serve a1 [Hid])))"

definition end_child :: "run_env \<Rightarrow> proc \<Rightarrow> action list" where
  "end_child e p =
     (if still_runs e p then Terminate p # (if leaves_in_time e p then [] else [Kill p]) else [])
     @ [Reaped p]"

text \<open>The \<open>finally\<close> block; the flag says whether it marks the run as failed.\<close>

definition clean_up :: "run_env \<Rightarrow> proc list \<Rightarrow> action list \<times> bool" where
  "clean_up e children =
     (let ended = concat (map (end_child e) (rev children)) in
      if Hid \<in> set children then
        (case release_code e of
           None \<Rightarrow> (ended @ [Run_Release, Remove_Control], True)
         | Some code \<Rightarrow>
             if code \<noteq> 0 then (ended @ [Run_Release, Remove_Control], True)
             else (ended @ [Run_Release, Clear_Recovery, Remove_Control], False))
      else (ended @ [Remove_Control], False))"

definition start_host :: "run_env \<Rightarrow> (string \<times> json) list \<Rightarrow> action list \<times> int res" where
  "start_host e c =
     (let input = truthy (sub (item c ''input'' JNull) ''enabled'') in
      if euid e = 0 then ([], Inl Refused)
      else if \<not> truthy (item c ''capture_ownership_authorized'' JNull) then ([], Inl Refused)
      else
        (case binaries e of
           Some x \<Rightarrow> ([], Inl x)
         | None \<Rightarrow>
             if input \<and> \<not> truthy (sub (item c ''input'' JNull) ''exclusive_hid_authorized'')
             then ([], Inl Refused)
             else
               (case (prepared e, ports_free e) of
                  (Some x, _) \<Rightarrow> ([], Inl x)
                | (None, Some x) \<Rightarrow> ([], Inl x)
                | (None, None) \<Rightarrow>
                    (let (acts, children, r) = supervise e input;
                         (ended, failed) = clean_up e children
                     in (Write_Control # acts @ ended,
                         case r of
                           Inl x \<Rightarrow> Inl x
                         | Inr died \<Rightarrow> Inr (if died \<or> failed then 1 else 0))))))"

section \<open>\<open>main\<close>\<close>

datatype command = Cmd_Prepare | Cmd_Start | Cmd_Stop | Cmd_Release

text \<open>
  \<open>locked\<close> says whether another instance holds the lock; \<open>release\<close> is the exit
  code of the release command of \<open>release-all\<close>.
\<close>

definition run_main ::
  "json \<Rightarrow> exn option \<Rightarrow> bool \<Rightarrow> int \<Rightarrow> int res \<Rightarrow> run_env \<Rightarrow> command \<Rightarrow> action list \<times> int res" where
  "run_main j dir locked release target e cmd =
     (case load j of
        Inl x \<Rightarrow> ([], Inl x)
      | Inr c \<Rightarrow>
          (case dir of
             Some x \<Rightarrow> ([], Inl x)
           | None \<Rightarrow>
               if cmd = Cmd_Stop then ([], map_sum id (\<lambda>_. 0) target)
               else if locked then ([], Inl Refused)
               else
                 (case cmd of
                    Cmd_Prepare \<Rightarrow> ([], case prepared e of Some x \<Rightarrow> Inl x | None \<Rightarrow> Inr 0)
                  | Cmd_Release \<Rightarrow>
                      (case hid_command [] c [] True of
                         Inl x \<Rightarrow> ([], Inl x)
                       | Inr _ \<Rightarrow>
                           (Run_Release # (if release = 0 then [Clear_Recovery] else []), Inr release))
                  | _ \<Rightarrow> start_host e c)))"

section \<open>What a run guarantees\<close>

lemma supervise_children:
  assumes "supervise e input = (acts, cs, r)"
  shows "cs \<in> {[], [Sunshine], [Hid], [Hid, Sunshine]}" "set cs = {p. Spawn p \<in> set acts}"
    and "Hid \<in> set cs \<longleftrightarrow> Mark_Recovery \<in> set acts"
    and "\<And>p. Terminate p \<notin> set acts" "Run_Release \<notin> set acts" "Clear_Recovery \<notin> set acts"
    and "Hid \<in> set cs \<Longrightarrow> input" "input \<and> r = Inr x \<Longrightarrow> Hid \<in> set cs"
  using assms by (auto simp: supervise_def Let_def split: if_splits prod.splits option.splits)

lemma end_child_acts:
  "set (end_child e p) \<subseteq> {Terminate p, Kill p, Reaped p}" "last (end_child e p) = Reaped p"
  by (auto simp: end_child_def)

lemma clean_up_shape:
  assumes "clean_up e cs = (ended, failed)"
  shows "\<exists>tail. ended = concat (map (end_child e) (rev cs)) @ tail \<and>
    set tail \<subseteq> {Run_Release, Clear_Recovery, Remove_Control} \<and>
    (Run_Release \<in> set tail \<longleftrightarrow> Hid \<in> set cs) \<and>
    (Clear_Recovery \<in> set tail \<longleftrightarrow> Hid \<in> set cs \<and> release_code e = Some 0) \<and>
    (failed \<longleftrightarrow> Hid \<in> set cs \<and> release_code e \<noteq> Some 0) \<and> Remove_Control \<in> set tail"
  using assms by (auto simp: clean_up_def Let_def split: if_splits option.splits)

lemma start_host_cases:
  assumes "start_host e c = (acts, r)"
  shows "acts = [] \<and> (\<exists>x. r = Inl x) \<or>
    euid e \<noteq> 0 \<and> truthy (item c ''capture_ownership_authorized'' JNull) \<and>
    (\<exists>a cs q ended failed.
       supervise e (truthy (sub (item c ''input'' JNull) ''enabled'')) = (a, cs, q) \<and>
       clean_up e cs = (ended, failed) \<and> acts = Write_Control # a @ ended \<and>
       r = (case q of Inl x \<Rightarrow> Inl x | Inr died \<Rightarrow> Inr (if died \<or> failed then 1 else 0)))"
proof -
  obtain a cs q where s: "supervise e (truthy (sub (item c ''input'' JNull) ''enabled'')) = (a, cs, q)"
    by (metis prod_cases3)
  obtain ended failed where u: "clean_up e cs = (ended, failed)" by fastforce
  show ?thesis
    using assms by (auto simp: start_host_def Let_def s u split: if_splits option.splits)
qed

lemma start_host_release:
  assumes "start_host e c = (acts, r)"
  shows "(Run_Release \<in> set acts \<longleftrightarrow> Spawn Hid \<in> set acts) \<and>
    (Clear_Recovery \<in> set acts \<longleftrightarrow> Spawn Hid \<in> set acts \<and> release_code e = Some 0) \<and>
    (\<forall>p. Spawn p \<in> set acts \<longrightarrow> Reaped p \<in> set acts) \<and>
    (Write_Control \<in> set acts \<longrightarrow> Remove_Control \<in> set acts)"
  using start_host_cases [OF assms]
proof (elim disjE conjE exE)
  fix a cs q ended failed
  assume s: "supervise e (truthy (sub (item c ''input'' JNull) ''enabled'')) = (a, cs, q)"
    and u: "clean_up e cs = (ended, failed)" and acts: "acts = Write_Control # a @ ended"
  note sc = supervise_children [OF s]
  obtain tail where t: "ended = concat (map (end_child e) (rev cs)) @ tail"
    "set tail \<subseteq> {Run_Release, Clear_Recovery, Remove_Control}"
    "Run_Release \<in> set tail \<longleftrightarrow> Hid \<in> set cs"
    "Clear_Recovery \<in> set tail \<longleftrightarrow> Hid \<in> set cs \<and> release_code e = Some 0"
    "Remove_Control \<in> set tail"
    using clean_up_shape [OF u] by blast
  have mid: "x \<in> set (concat (map (end_child e) (rev cs))) \<Longrightarrow> \<exists>p. x \<in> {Terminate p, Kill p, Reaped p}" for x
    using end_child_acts(1) by fastforce
  have reaped: "p \<in> set cs \<Longrightarrow> Reaped p \<in> set (concat (map (end_child e) (rev cs)))" for p
    by (auto simp: end_child_def)
  have "Spawn p \<in> set acts \<longleftrightarrow> p \<in> set cs" for p
    using sc(2) mid [of "Spawn p"] t(2) unfolding acts t(1) by auto
  moreover have "Run_Release \<in> set acts \<longleftrightarrow> Hid \<in> set cs"
    using sc(5) mid [of Run_Release] t(3) unfolding acts t(1) by auto
  moreover have "Clear_Recovery \<in> set acts \<longleftrightarrow> Hid \<in> set cs \<and> release_code e = Some 0"
    using sc(6) mid [of Clear_Recovery] t(4) unfolding acts t(1) by auto
  moreover have "Remove_Control \<in> set acts" using t(5) unfolding acts t(1) by simp
  moreover have "p \<in> set cs \<Longrightarrow> Reaped p \<in> set acts" for p
    using reaped unfolding acts t(1) by simp
  ultimately show ?thesis by blast
qed simp

lemma start_host_order:
  assumes "start_host e c = (acts, r)" "Spawn Hid \<in> set acts" "Spawn Sunshine \<in> set acts"
  shows "\<exists>pre post. acts = pre @ Reaped Sunshine # post \<and> Terminate Hid \<notin> set pre \<and>
    Kill Hid \<notin> set pre \<and> Run_Release \<notin> set pre"
  using start_host_cases [OF assms(1)]
proof (elim disjE conjE exE)
  assume "acts = []" then show ?thesis using assms(2) by simp
next
  fix a cs q ended failed
  assume s: "supervise e (truthy (sub (item c ''input'' JNull) ''enabled'')) = (a, cs, q)"
    and u: "clean_up e cs = (ended, failed)" and acts: "acts = Write_Control # a @ ended"
  note sc = supervise_children [OF s]
  obtain tail where t: "ended = concat (map (end_child e) (rev cs)) @ tail"
    "set tail \<subseteq> {Run_Release, Clear_Recovery, Remove_Control}"
    using clean_up_shape [OF u] by blast
  have "x \<in> set (concat (map (end_child e) (rev cs))) \<Longrightarrow> \<exists>p. x \<in> {Terminate p, Kill p, Reaped p}" for x
    using end_child_acts(1) by fastforce
  then have "Spawn p \<in> set acts \<Longrightarrow> p \<in> set cs" for p
    using sc(2) t(2) unfolding acts t(1) by fastforce
  then have cs: "cs = [Hid, Sunshine]" using sc(1) assms(2,3) by fastforce
  define k where "k = (if still_runs e Sunshine
    then Terminate Sunshine # (if leaves_in_time e Sunshine then [] else [Kill Sunshine]) else [])"
  have "acts = (Write_Control # a @ k) @ Reaped Sunshine # (end_child e Hid @ tail)"
    unfolding acts t(1) cs by (simp add: end_child_def k_def)
  moreover have "Terminate Hid \<notin> set (Write_Control # a @ k)" "Run_Release \<notin> set (Write_Control # a @ k)"
    using sc(4,5) by (auto simp: k_def)
  moreover have "Kill Hid \<notin> set (Write_Control # a @ k)"
    using s by (auto simp: supervise_def Let_def k_def split: if_splits prod.splits option.splits)
  ultimately show ?thesis by blast
qed

lemma start_host_success:
  assumes "start_host e c = (acts, Inr 0)"
  shows "\<not> child_died e \<and>
    (truthy (sub (item c ''input'' JNull) ''enabled'') \<longrightarrow> release_code e = Some 0) \<and>
    Spawn Sunshine \<in> set acts"
  using start_host_cases [OF assms]
proof (elim disjE conjE exE)
  fix a cs q ended failed
  assume s: "supervise e (truthy (sub (item c ''input'' JNull) ''enabled'')) = (a, cs, q)"
    and u: "clean_up e cs = (ended, failed)" and acts: "acts = Write_Control # a @ ended"
    and r: "Inr 0 = (case q of Inl x \<Rightarrow> Inl x | Inr died \<Rightarrow> Inr (if died \<or> failed then 1 else (0 :: int)))"
  from r obtain died where q: "q = Inr died" "\<not> died" "\<not> failed"
    by (auto split: sum.splits if_splits)
  have "died = child_died e" "Spawn Sunshine \<in> set a"
    using s q(1) by (auto simp: supervise_def Let_def split: if_splits prod.splits option.splits)
  moreover have "Hid \<in> set cs" if "truthy (sub (item c ''input'' JNull) ''enabled'')"
    using supervise_children(8) [OF s] that q(1) by blast
  moreover have "Hid \<in> set cs \<Longrightarrow> release_code e = Some 0"
    using clean_up_shape [OF u] q(3) by blast
  ultimately show ?thesis using q(2) acts by auto
qed simp

text \<open>Creating the defaults never touches what is there.\<close>

lemma create_defaults_keeps:
  "create_defaults ds fs = (fs', r) \<Longrightarrow> fs n = Some v \<Longrightarrow> fs' n = Some v"
proof (induction ds fs rule: create_defaults.induct)
  case (2 name body rest fs)
  then show ?case
    by (cases "name = n") (auto simp: fun_upd_def split: option.splits node.splits)
qed simp

lemma create_defaults_fresh:
  "create_defaults ds fs = (fs', r) \<Longrightarrow> fs n = None \<Longrightarrow> fs' n = Some x \<Longrightarrow>
     \<exists>t. x = File t \<and> (n, t) \<in> set ds"
proof (induction ds fs rule: create_defaults.induct)
  case (2 name body rest fs)
  show ?case
  proof (cases "fs name = None \<and> name = n")
    case True
    then have "fs' n = Some (File body)"
      using 2(3) create_defaults_keeps [of rest "fs(name \<mapsto> File body)" fs' r n] by auto
    with 2(5) True show ?thesis by auto
  next
    case False
    then show ?thesis using 2 by (auto simp: fun_upd_def split: option.splits node.splits)
  qed
qed simp

lemma create_defaults_present:
  "create_defaults ds fs = (fs', None) \<Longrightarrow> n \<in> fst ` set ds \<Longrightarrow> \<exists>t. fs' n = Some (File t)"
proof (induction ds fs rule: create_defaults.induct)
  case (2 name body rest fs)
  show ?case
  proof (cases "fs name")
    case None
    then have c: "create_defaults rest (fs(name \<mapsto> File body)) = (fs', None)" using 2(3) by simp
    show ?thesis
    proof (cases "n = name")
      case True
      then show ?thesis using create_defaults_keeps [OF c, of n] by simp
    next
      case False
      then show ?thesis using 2(1) [OF None c] 2(4) by simp
    qed
  next
    case (Some v)
    then obtain t where v: "v = File t" using 2(3) by (cases v) simp_all
    then have c: "create_defaults rest fs = (fs', None)" using 2(3) Some by simp
    show ?thesis
    proof (cases "n = name")
      case True
      then show ?thesis using create_defaults_keeps [OF c, of n] Some v by simp
    next
      case False
      then show ?thesis using 2(2) [OF Some v c] 2(4) by simp
    qed
  qed
qed simp

lemma start_host_input:
  assumes "start_host e c = (acts, r)" and "Spawn Hid \<in> set acts"
  shows "truthy (sub (item c ''input'' JNull) ''enabled'')"
  using start_host_cases [OF assms(1)]
proof
  assume "euid e \<noteq> 0 \<and> truthy (item c ''capture_ownership_authorized'' JNull) \<and>
    (\<exists>a cs q ended failed. supervise e (truthy (sub (item c ''input'' JNull) ''enabled'')) = (a, cs, q) \<and>
       clean_up e cs = (ended, failed) \<and> acts = Write_Control # a @ ended \<and>
       r = (case q of Inl x \<Rightarrow> Inl x | Inr died \<Rightarrow> Inr (if died \<or> failed then 1 else 0)))"
  then obtain a cs q ended failed where s: "supervise e (truthy (sub (item c ''input'' JNull) ''enabled'')) = (a, cs, q)"
    and u: "clean_up e cs = (ended, failed)" and acts: "acts = Write_Control # a @ ended" by blast
  have "Spawn Hid \<notin> set ended"
  proof -
    obtain tail where "ended = concat (map (end_child e) (rev cs)) @ tail"
      "set tail \<subseteq> {Run_Release, Clear_Recovery, Remove_Control}" using clean_up_shape [OF u] by blast
    with end_child_acts(1) [of e] show ?thesis by fastforce
  qed
  with acts assms(2) supervise_children(2, 7) [OF s] show ?thesis by auto
qed (use assms(2) in simp)

text \<open>A run in which the bridge must be killed and nothing else goes wrong.\<close>

definition run_sample :: run_env where
  "run_sample = \<lparr>euid = 1000, binaries = None, prepared = None, ports_free = None, stale = (False, None),
     spawn_fails = (\<lambda>p. None), hid_ready = True, child_died = False, still_runs = (\<lambda>p. True),
     leaves_in_time = (\<lambda>p. p = Sunshine), release_code = Some 0\<rparr>"

text \<open>
  C27. A release is attempted exactly when the bridge was started; the recovery mark goes only
  when it succeeded, every child is reaped, the control file is removed, exit code 0 means
  the release succeeded, and Sunshine has ended before the bridge is terminated and before
  the release runs.
\<close>

theorem release_follows_bridge:
  assumes "start_host e c = (acts, r)"
  shows "(Run_Release \<in> set acts \<longleftrightarrow> Spawn Hid \<in> set acts) \<and>
    (Clear_Recovery \<in> set acts \<longleftrightarrow> Spawn Hid \<in> set acts \<and> release_code e = Some 0) \<and>
    (\<forall>p. Spawn p \<in> set acts \<longrightarrow> Reaped p \<in> set acts) \<and>
    (Write_Control \<in> set acts \<longrightarrow> Remove_Control \<in> set acts) \<and>
    (r = Inr 0 \<and> Spawn Hid \<in> set acts \<longrightarrow> Clear_Recovery \<in> set acts) \<and>
    (Spawn Hid \<in> set acts \<and> Spawn Sunshine \<in> set acts \<longrightarrow>
      (\<exists>pre post. acts = pre @ Reaped Sunshine # post \<and> Terminate Hid \<notin> set pre \<and>
         Kill Hid \<notin> set pre \<and> Run_Release \<notin> set pre))"
proof -
  have "release_code e = Some 0" if "r = Inr 0" "Spawn Hid \<in> set acts"
    using start_host_success [OF assms [unfolded that(1)]] start_host_input [OF assms that(2)] by blast
  with start_host_release [OF assms] start_host_order [OF assms] show ?thesis by blast
qed

theorem release_follows_bridge_witness:
  "Run_Release \<in> set (fst (start_host run_sample [(''capture_ownership_authorized'', JBool True),
     (''input'', JObj [(''enabled'', JBool True), (''exclusive_hid_authorized'', JBool True)])]))"
proof -
  let ?c = "[(''capture_ownership_authorized'', JBool True),
     (''input'', JObj [(''enabled'', JBool True), (''exclusive_hid_authorized'', JBool True)])]"
  have "start_host run_sample ?c = ([Write_Control, Spawn Hid, Mark_Recovery, Spawn Sunshine, Terminate Sunshine,
      Reaped Sunshine, Terminate Hid, Kill Hid, Reaped Hid, Run_Release, Clear_Recovery, Remove_Control], Inr 0)"
    by (simp add: start_host_def run_sample_def supervise_def clean_up_def end_child_def item_def)
  from release_follows_bridge [OF this] show ?thesis
    by (simp add: \<open>start_host run_sample ?c = _\<close>)
qed

text \<open>
  Sunshine has ended before the bridge is terminated and before the release runs.
\<close>

lemma sunshine_ends_first:
  assumes "start_host e c = (acts, r)" and "Spawn Hid \<in> set acts" and "Spawn Sunshine \<in> set acts"
  shows "\<exists>pre post. acts = pre @ Reaped Sunshine # post \<and> Terminate Hid \<notin> set pre \<and>
    Kill Hid \<notin> set pre \<and> Run_Release \<notin> set pre"
  using assms by (rule start_host_order)

text \<open>
  \<open>prepare\<close> changes nothing that exists, creates nothing but the two defaults, and both
  are there when it succeeds.
\<close>

lemma defaults_kept:
  assumes "prepare state fs = (fs', r)"
  shows "(\<forall>n v. fs n = Some v \<longrightarrow> fs' n = Some v) \<and>
    (\<forall>n. fs n = None \<and> n \<notin> {''apps.json'', ''sunshine.conf''} \<longrightarrow> fs' n = None) \<and>
    (r = None \<longrightarrow> (\<forall>n \<in> {''apps.json'', ''sunshine.conf''}. \<exists>t. fs' n = Some (File t)))"
proof -
  note p = assms [unfolded prepare_def]
  have "fs' n = None" if "fs n = None" "n \<notin> {''apps.json'', ''sunshine.conf''}" for n
  proof (cases "fs' n")
    case (Some x)
    from create_defaults_fresh [OF p that(1) this] that(2) show ?thesis by auto
  qed
  moreover have "\<exists>t. fs' n = Some (File t)" if "r = None" "n \<in> {''apps.json'', ''sunshine.conf''}" for n
    using create_defaults_present [OF p [unfolded that(1)], of n] that(2) by auto
  ultimately show ?thesis using create_defaults_keeps [OF p] by blast
qed

lemma defaults_kept_witness:
  "\<exists>fs'. prepare ''/s'' [''apps.json'' \<mapsto> File ''mine''] = (fs', None) \<and> fs' ''apps.json'' = Some (File ''mine'')"
proof -
  have p: "prepare ''/s'' [''apps.json'' \<mapsto> File ''mine''] =
    ([''apps.json'' \<mapsto> File ''mine'', ''sunshine.conf'' \<mapsto> File (sunshine_conf ''/s'')], None)"
    by (simp add: prepare_def)
  from defaults_kept [OF p] p show ?thesis by simp
qed

lemma sunshine_ends_first_witness:
  "\<exists>pre post. fst (start_host run_sample [(''capture_ownership_authorized'', JBool True),
     (''input'', JObj [(''enabled'', JBool True), (''exclusive_hid_authorized'', JBool True)])])
     = pre @ Reaped Sunshine # post \<and> Kill Hid \<notin> set pre"
proof -
  let ?c = "[(''capture_ownership_authorized'', JBool True),
     (''input'', JObj [(''enabled'', JBool True), (''exclusive_hid_authorized'', JBool True)])]"
  have r: "start_host run_sample ?c = ([Write_Control, Spawn Hid, Mark_Recovery, Spawn Sunshine, Terminate Sunshine,
      Reaped Sunshine, Terminate Hid, Kill Hid, Reaped Hid, Run_Release, Clear_Recovery, Remove_Control], Inr 0)"
    by (simp add: start_host_def run_sample_def supervise_def clean_up_def end_child_def item_def)
  from sunshine_ends_first [OF r] show ?thesis unfolding r by auto
qed

section \<open>\<open>systemd_release.py\<close>\<close>

text \<open>
  What systemd runs after the supervisor has stopped, however it stopped.
  \<open>locked\<close>: another instance holds the lock; \<open>marked\<close>: the recovery mark exists;
  \<open>code\<close>: the exit code of the release, \<open>None\<close> when it times out.
\<close>

definition post_stop ::
  "json \<Rightarrow> exn option \<Rightarrow> bool \<Rightarrow> bool \<Rightarrow> int option \<Rightarrow> action list \<times> int res" where
  "post_stop j dir locked marked code =
     (case load j of
        Inl x \<Rightarrow> ([], Inl x)
      | Inr c \<Rightarrow>
          if \<not> truthy (sub (item c ''input'' JNull) ''enabled'') then ([], Inr 0)
          else
            (case dir of
               Some x \<Rightarrow> ([], Inl x)
             | None \<Rightarrow>
                 if locked then ([], Inr 0)
                 else if \<not> marked then ([], Inr 0)
                 else
                   (case hid_command [] c [] True of
                      Inl x \<Rightarrow> ([], Inl x)
                    | Inr _ \<Rightarrow>
                        (case code of
                           None \<Rightarrow> ([Run_Release], Inl TimeoutExpired)
                         | Some n \<Rightarrow> (Run_Release # (if n = 0 then [Clear_Recovery] else []), Inr n)))))"

text \<open>Whether the recovery mark exists after some actions.\<close>

fun mark_after :: "bool \<Rightarrow> action \<Rightarrow> bool" where
  "mark_after m Mark_Recovery = True"
| "mark_after m Clear_Recovery = False"
| "mark_after m a = m"

definition marked_after :: "bool \<Rightarrow> action list \<Rightarrow> bool" where
  "marked_after m acts = foldl mark_after m acts"

lemma marked_after_append [simp]:
  "marked_after m (xs @ ys) = marked_after (marked_after m xs) ys"
  by (simp add: marked_after_def)

lemma marked_after_other:
  "Mark_Recovery \<notin> set acts \<Longrightarrow> Clear_Recovery \<notin> set acts \<Longrightarrow> marked_after m acts = m"
  by (induction acts arbitrary: m) (auto simp: marked_after_def elim: mark_after.elims split: action.splits)


lemma marked_after_supervise:
  "supervise e input = (acts, cs, r) \<Longrightarrow> Hid \<in> set cs \<Longrightarrow> marked_after m acts"
  by (auto simp: supervise_def marked_after_def Let_def split: if_splits prod.splits option.splits)

lemma marked_after_clean_up:
  assumes "clean_up e cs = (ended, failed)" and "Hid \<in> set cs"
  shows "marked_after m ended = (if release_code e = Some 0 then False else m)"
proof -
  have "Mark_Recovery \<notin> set (end_child e p)" "Clear_Recovery \<notin> set (end_child e p)" for p
    using end_child_acts(1) [of e p] by auto
  then have "marked_after m (concat (map (end_child e) (rev cs))) = m"
    by (intro marked_after_other) auto
  then have E: "marked_after m (concat (map (end_child e) (rev cs)) @ tail) = marked_after m tail" for tail
    by simp
  have tails: "marked_after m [Run_Release, Remove_Control] = m"
    "marked_after m [Run_Release, Clear_Recovery, Remove_Control] = False"
    by (simp_all add: marked_after_def)
  show ?thesis
  proof (cases "release_code e = Some 0")
    case True
    with assms have "ended = concat (map (end_child e) (rev cs)) @ [Run_Release, Clear_Recovery, Remove_Control]"
      by (simp add: clean_up_def Let_def)
    with True show ?thesis by (simp only: E tails simp_thms if_True)
  next
    case False
    with assms have "ended = concat (map (end_child e) (rev cs)) @ [Run_Release, Remove_Control]"
      by (auto simp: clean_up_def Let_def split: option.splits)
    with False show ?thesis by (simp only: E tails if_False)
  qed
qed

lemma start_host_authorized:
  assumes "start_host e c = (acts, r)" and "acts \<noteq> []"
    and "truthy (sub (item c ''input'' JNull) ''enabled'')"
  shows "truthy (sub (item c ''input'' JNull) ''exclusive_hid_authorized'')"
proof -
  obtain a cs q where s: "supervise e True = (a, cs, q)" by (metis prod_cases3)
  obtain ended failed where u: "clean_up e cs = (ended, failed)" by fastforce
  show ?thesis
    using assms by (auto simp: start_host_def Let_def s u split: if_splits option.splits)
qed

lemma start_host_marks:
  assumes "start_host e c = (acts, r)" and "Spawn Hid \<in> set acts"
  shows "marked_after m acts \<longleftrightarrow> release_code e \<noteq> Some 0"
proof -
  obtain a cs q ended failed where s: "supervise e (truthy (sub (item c ''input'' JNull) ''enabled'')) = (a, cs, q)"
    and u: "clean_up e cs = (ended, failed)" and acts: "acts = Write_Control # a @ ended"
    using start_host_cases [OF assms(1)] assms(2) by force
  have "Spawn Hid \<notin> set ended"
  proof -
    obtain tail where "ended = concat (map (end_child e) (rev cs)) @ tail"
      "set tail \<subseteq> {Run_Release, Clear_Recovery, Remove_Control}" using clean_up_shape [OF u] by blast
    with end_child_acts(1) [of e] show ?thesis by fastforce
  qed
  with acts assms(2) supervise_children(2) [OF s] have h: "Hid \<in> set cs" by auto
  have "marked_after m (Write_Control # a) = True"
    using marked_after_supervise [OF s h, of "mark_after m Write_Control"] by (simp add: marked_after_def)
  with acts marked_after_clean_up [OF u h, of True] show ?thesis
    using marked_after_append [of m "Write_Control # a" ended] by (simp split: if_splits)
qed

text \<open>
  C34. After a run that started the bridge the recovery mark is there exactly when the
  release was not confirmed, and then the command systemd runs afterwards releases again and
  removes the mark only when that succeeds.
\<close>

theorem unreleased_is_retried:
  assumes "load j = Inr c" and "start_host e c = (acts, r)" and "Spawn Hid \<in> set acts"
  shows "post_stop j None False (marked_after False acts) (Some code) =
    (if release_code e = Some 0 then ([], Inr 0)
     else (Run_Release # (if code = 0 then [Clear_Recovery] else []), Inr code))"
proof -
  have "truthy (sub (item c ''input'' JNull) ''enabled'')"
    using start_host_input [OF assms(2, 3)] .
  moreover have "truthy (sub (item c ''input'' JNull) ''exclusive_hid_authorized'')"
    using start_host_authorized [OF assms(2)] assms(3) calculation by fastforce
  ultimately show ?thesis
    using start_host_marks [OF assms(2, 3), of False] assms(1)
    by (simp add: post_stop_def hid_command_def Let_def)
qed

theorem unreleased_is_retried_witness:
  "\<exists>c acts r. load (runtime_config ''kvm'') = Inr c \<and>
     start_host (run_sample\<lparr>release_code := Some 1\<rparr>) c = (acts, r) \<and>
     post_stop (runtime_config ''kvm'') None False (marked_after False acts) (Some 0) =
       ([Run_Release, Clear_Recovery], Inr 0)"
proof -
  let ?e = "run_sample\<lparr>release_code := Some 1\<rparr>"
  have "case load (runtime_config ''kvm'') of Inl x \<Rightarrow> False
      | Inr c \<Rightarrow> Spawn Hid \<in> set (fst (start_host ?e c))" by code_simp
  then obtain c where l: "load (runtime_config ''kvm'') = Inr c" and h: "Spawn Hid \<in> set (fst (start_host ?e c))"
    by (auto split: sum.splits)
  have "release_code ?e \<noteq> Some 0" by (simp add: run_sample_def)
  moreover obtain acts r where s: "start_host ?e c = (acts, r)" by fastforce
  moreover from h s have "Spawn Hid \<in> set acts" by simp
  ultimately show ?thesis using unreleased_is_retried [OF l s, of 0] l by auto
qed


end
