(* ===== verification/Overlay.thy ===== *)
theory Overlay
  imports Hid_Prelude
begin

text \<open>
  The source overlays: \<open>once\<close> (\<open>tools/apply_sunshine.py\<close>,
  \<open>client/tools/apply_moonlight.py\<close>), the all-or-nothing write of
  \<open>apply_moonlight.py\<close>, and \<open>tools/prepare_input.py\<close>, which edits two files of
  the pinned kvmd once.

  A checkout is a map from paths to texts.  Any write may fail; a failed write
  leaves some text behind (\<open>attempt n = Some junk\<close> for the \<open>n\<close>-th write).
\<close>

section \<open>Counting and replacing\<close>

text \<open>\<open>s.count(p)\<close> and \<open>s.replace(p, n)\<close> go on after each occurrence.\<close>

function count_sub :: "string \<Rightarrow> string \<Rightarrow> nat" where
  "count_sub p s =
     (if p = [] then length s + 1
      else
        (case find_sub p s of
           None \<Rightarrow> 0
         | Some i \<Rightarrow> 1 + count_sub p (drop (i + length p) s)))"
  by pat_completeness auto
termination
proof (relation "measure (\<lambda>(p, s). length s)")
  fix p s i
  assume "p \<noteq> []" "find_sub p s = Some i"
  then have "i + length p \<le> length s" "1 \<le> length p"
    by (auto dest: find_sub_bound simp: Suc_le_eq)
  then have "length s - (i + length p) < length s" by linarith
  then show "((p, drop (i + length p) s), p, s) \<in> measure (\<lambda>(p, s). length s)" by simp
qed simp

declare count_sub.simps [simp del]

definition replace_first :: "string \<Rightarrow> string \<Rightarrow> string \<Rightarrow> string" where
  "replace_first p n s =
     (case find_sub p s of None \<Rightarrow> s | Some i \<Rightarrow> take i s @ n @ drop (i + length p) s)"

definition once :: "string \<Rightarrow> string \<Rightarrow> string \<Rightarrow> string res" where
  "once text old new =
     (if count_sub old text \<noteq> 1 then Inl PatchError else Inr (replace_first old new text))"

lemma is_prefix_iff: "is_prefix p s \<longleftrightarrow> take (length p) s = p"
  by (induction p s rule: is_prefix.induct) auto

lemma find_sub_split:
  "find_sub p s = Some i \<Longrightarrow> s = take i s @ p @ drop (i + length p) s"
proof (induction p s arbitrary: i rule: find_sub.induct)
  case (2 p c cs)
  show ?case
  proof (cases "is_prefix p (c # cs)")
    case True
    then have "i = 0" using 2(2) by simp
    then show ?thesis using True by (simp add: is_prefix_iff) (metis append_take_drop_id)
  next
    case False
    then obtain j where "find_sub p cs = Some j" "i = Suc j" using 2(2) by auto
    then show ?thesis using 2(1) [OF False] by simp
  qed
qed (simp split: if_splits)

lemma find_sub_Some: "find_sub p (a @ p @ b) \<noteq> None"
proof (induction a)
  case Nil
  have "is_prefix p (p @ b)" by (simp add: is_prefix_iff)
  then show ?case by (cases "p @ b") simp_all
qed simp

lemma find_sub_None: "find_sub p s = None \<Longrightarrow> s \<noteq> a @ p @ b"
  using find_sub_Some [of p a b] by metis

lemma count_sub_zero: "p \<noteq> [] \<Longrightarrow> count_sub p s = 0 \<longleftrightarrow> find_sub p s = None"
  by (subst count_sub.simps) (simp split: option.splits)

lemma find_sub_first:
  "find_sub p s = Some i \<Longrightarrow> s = a @ p @ b \<Longrightarrow> i \<le> length a"
proof (induction a arbitrary: s i)
  case Nil
  have "is_prefix p s" using Nil(2) by (simp add: is_prefix_iff)
  then have "i = 0" using Nil(1) by (cases s) (simp_all split: if_splits)
  then show ?case by simp
next
  case (Cons c a)
  then show ?case by (auto split: if_splits)
qed

lemma once_Inr:
  assumes "once text old new = Inr r" "old \<noteq> []"
  shows "\<exists>a b. text = a @ old @ b \<and> r = a @ new @ b \<and> find_sub old b = None \<and>
    (\<forall>a' b'. text = a' @ old @ b' \<longrightarrow> length a \<le> length a')"
proof -
  from assms have c: "count_sub old text = 1" and r: "r = replace_first old new text"
    by (auto simp: once_def split: if_splits)
  from c assms(2) obtain i where i: "find_sub old text = Some i"
    and rest: "count_sub old (drop (i + length old) text) = 0"
    by (subst (asm) count_sub.simps) (auto split: option.splits)
  let ?a = "take i text" and ?b = "drop (i + length old) text"
  have "text = ?a @ old @ ?b" by (rule find_sub_split [OF i])
  moreover have "r = ?a @ new @ ?b" using r i by (simp add: replace_first_def)
  moreover have "find_sub old ?b = None" using rest count_sub_zero [OF assms(2)] by simp
  moreover have "length ?a \<le> length a'" if "text = a' @ old @ b'" for a' b'
    using find_sub_first [OF i that] by simp
  ultimately show ?thesis by blast
qed

lemma once_Inl: "once text old new = Inl e \<longleftrightarrow> e = PatchError \<and> count_sub old text \<noteq> 1"
  by (auto simp: once_def)

section \<open>Writing the overlay\<close>

type_synonym files = "string \<rightharpoonup> string"

type_synonym attempts = "nat \<Rightarrow> string option"

definition write_text :: "attempts \<Rightarrow> nat \<Rightarrow> string \<Rightarrow> string \<Rightarrow> files \<Rightarrow> files \<times> bool" where
  "write_text att n path text fs =
     (case att n of
        None \<Rightarrow> (fs(path \<mapsto> text), True)
      | Some junk \<Rightarrow> (fs(path \<mapsto> junk), False))"

definition tmp_name :: "string \<Rightarrow> string" where
  "tmp_name p = p @ ''.rkmoon-new''"

text \<open>
  The loop over \<open>changes\<close>: write a temporary file, then \<open>os.replace\<close> it over the
  original (which fails without an effect).  The result also counts the writes.
\<close>

fun write_changes ::
  "attempts \<Rightarrow> nat \<Rightarrow> (string \<times> string) list \<Rightarrow> files \<Rightarrow> files \<times> nat \<times> bool" where
  "write_changes att n [] fs = (fs, n, True)"
| "write_changes att n ((p, s) # cs) fs =
     (case write_text att n (tmp_name p) s fs of
        (fs1, False) \<Rightarrow> (fs1, n + 1, False)
      | (fs1, True) \<Rightarrow>
          if att (n + 1) \<noteq> None then (fs1, n + 2, False)
          else write_changes att (n + 2) cs (fs1(p \<mapsto> s, tmp_name p := None)))"

fun restore :: "attempts \<Rightarrow> nat \<Rightarrow> (string \<times> string) list \<Rightarrow> files \<Rightarrow> files \<times> bool" where
  "restore att n [] fs = (fs, True)"
| "restore att n ((p, s) # cs) fs =
     (case write_text att n p s fs of
        (fs1, False) \<Rightarrow> (fs1, False)
      | (fs1, True) \<Rightarrow> restore att (n + 1) cs fs1)"

text \<open>The second flag says that every original was written back.\<close>

definition apply_changes ::
  "attempts \<Rightarrow> (string \<times> string) list \<Rightarrow> (string \<times> string) list \<Rightarrow> files \<Rightarrow> files \<times> bool \<times> bool" where
  "apply_changes att original changes fs =
     (case write_changes att 0 changes fs of
        (fs1, _, True) \<Rightarrow> (fs1, True, False)
      | (fs1, n, False) \<Rightarrow> (case restore att n original fs1 of (fs2, ok) \<Rightarrow> (fs2, False, ok)))"

section \<open>All or nothing\<close>

definition no_clash :: "(string \<times> string) list \<Rightarrow> bool" where
  "no_clash cs \<longleftrightarrow> distinct (map fst cs) \<and> (\<forall>p\<in>fst ` set cs. tmp_name p \<notin> fst ` set cs)"

definition touched :: "(string \<times> string) list \<Rightarrow> string set" where
  "touched cs = fst ` set cs \<union> tmp_name ` fst ` set cs"

lemma tmp_name_inj [simp]: "tmp_name p = tmp_name q \<longleftrightarrow> p = q"
  by (simp add: tmp_name_def)

lemma tmp_name_neq [simp]: "tmp_name p \<noteq> p" "p \<noteq> tmp_name p"
  by (simp_all add: tmp_name_def)

lemma write_changes_outside:
  "write_changes att n cs fs = (fs', m, ok) \<Longrightarrow> q \<notin> touched cs \<Longrightarrow> fs' q = fs q"
proof (induction att n cs fs rule: write_changes.induct)
  case (2 att n p s cs fs)
  have q: "q \<noteq> p" "q \<noteq> tmp_name p" "q \<notin> touched cs" using 2(3) by (auto simp: touched_def)
  show ?case
  proof (cases "att n = None \<and> att (n + 1) = None")
    case True
    then have w: "write_text att n (tmp_name p) s fs = (fs(tmp_name p \<mapsto> s), True)"
      by (simp add: write_text_def)
    have "write_changes att (n + 2) cs (fs(tmp_name p \<mapsto> s, p \<mapsto> s, tmp_name p := None)) = (fs', m, ok)"
      using 2(2) w True by simp
    from 2(1) [OF w [symmetric] refl _ this q(3)] True q show ?thesis by simp
  next
    case False
    then show ?thesis using 2(2) q by (auto simp: write_text_def split: option.splits if_splits)
  qed
qed simp

lemma write_changes_done:
  "write_changes att n cs fs = (fs', m, True) \<Longrightarrow> no_clash cs \<Longrightarrow>
     (\<forall>(p, s) \<in> set cs. fs' p = Some s \<and> fs' (tmp_name p) = None)"
proof (induction att n cs fs rule: write_changes.induct)
  case (2 att n p s cs fs)
  have w: "write_text att n (tmp_name p) s fs = (fs(tmp_name p \<mapsto> s), True)" and a: "att (n + 1) = None"
    using 2(2) by (auto simp: write_text_def split: option.splits if_splits)
  let ?fs = "fs(tmp_name p \<mapsto> s, p \<mapsto> s, tmp_name p := None)"
  have r: "write_changes att (n + 2) cs ?fs = (fs', m, True)" using 2(2) w a by simp
  have nc: "no_clash cs" "p \<notin> touched cs" "tmp_name p \<notin> touched cs"
    using 2(3) by (auto simp: no_clash_def touched_def) (metis fst_conv image_eqI)+
  have "fs' p = Some s" "fs' (tmp_name p) = None"
    using write_changes_outside [OF r nc(2)] write_changes_outside [OF r nc(3)] by simp_all
  with 2(1) [OF w [symmetric] refl _ r nc(1)] a show ?case by simp
qed simp

lemma restore_outside: "restore att n cs fs = (fs', ok) \<Longrightarrow> q \<notin> fst ` set cs \<Longrightarrow> fs' q = fs q"
proof (induction att n cs fs rule: restore.induct)
  case (2 att n p s cs fs)
  then show ?case by (auto simp: write_text_def fun_upd_def split: option.splits)
qed simp

lemma restore_done:
  "restore att n cs fs = (fs', True) \<Longrightarrow> distinct (map fst cs) \<Longrightarrow>
     (\<forall>(p, s) \<in> set cs. fs' p = Some s)"
proof (induction att n cs fs rule: restore.induct)
  case (2 att n p s cs fs)
  have w: "write_text att n p s fs = (fs(p \<mapsto> s), True)"
    and r: "restore att (n + 1) cs (fs(p \<mapsto> s)) = (fs', True)"
    using 2(2) by (auto simp: write_text_def split: option.splits)
  have "p \<notin> fst ` set cs" using 2(3) by auto
  then have "fs' p = Some s" using restore_outside [OF r] by simp
  with 2(1) [OF w [symmetric] refl r] 2(3) show ?case by simp
qed simp

lemma apply_changes_all_or_nothing:
  assumes "apply_changes att original changes fs = (fs', ok, restored)"
    and "no_clash changes" "no_clash original" "map fst changes = map fst original"
  shows "ok \<Longrightarrow> (\<forall>(p, s) \<in> set changes. fs' p = Some s \<and> fs' (tmp_name p) = None)"
    and "\<not> ok \<and> restored \<Longrightarrow> (\<forall>(p, s) \<in> set original. fs' p = Some s)"
    and "q \<notin> touched changes \<Longrightarrow> fs' q = fs q"
proof -
  obtain fs1 n fin where w: "write_changes att 0 changes fs = (fs1, n, fin)" by (metis prod_cases3)
  have same: "fst ` set original = fst ` set changes" using assms(4) by (metis set_map)
  show "ok \<Longrightarrow> (\<forall>(p, s) \<in> set changes. fs' p = Some s \<and> fs' (tmp_name p) = None)"
    using assms(1) w write_changes_done [OF _ assms(2)]
    by (cases fin) (auto simp: apply_changes_def split: prod.splits)
  show "\<not> ok \<and> restored \<Longrightarrow> (\<forall>(p, s) \<in> set original. fs' p = Some s)"
    using assms(1,3) w restore_done
    by (cases fin) (fastforce simp: apply_changes_def no_clash_def split: prod.splits)+
  assume q: "q \<notin> touched changes"
  then have "q \<notin> fst ` set original" unfolding same by (simp add: touched_def)
  then show "fs' q = fs q"
    using assms(1) w write_changes_outside [OF w q] restore_outside
    by (cases fin) (fastforce simp: apply_changes_def split: prod.splits)+
qed

text \<open>A failed attempt ends the loop; writing back works when nothing else fails.\<close>

lemma write_changes_failed:
  "write_changes att n cs fs = (fs', m, False) \<Longrightarrow> \<exists>k. n \<le> k \<and> k < m \<and> att k \<noteq> None"
proof (induction att n cs fs rule: write_changes.induct)
  case (2 att n p s cs fs)
  show ?case
  proof (cases "att n = None \<and> att (n + 1) = None")
    case True
    then have w: "write_text att n (tmp_name p) s fs = (fs(tmp_name p \<mapsto> s), True)" by (simp add: write_text_def)
    have "write_changes att (n + 2) cs (fs(tmp_name p \<mapsto> s, p \<mapsto> s, tmp_name p := None)) = (fs', m, False)"
      using 2(2) w True by simp
    from 2(1) [OF w [symmetric] refl _ this] True obtain k where "n + 2 \<le> k" "k < m" "att k \<noteq> None" by auto
    then show ?thesis by (intro exI [of _ k]) simp
  next
    case False
    then consider "att n \<noteq> None" | "att n = None" "att (n + 1) \<noteq> None" by metis
    then show ?thesis
    proof cases
      case 1
      with 2(2) have "m = n + 1" by (auto simp: write_text_def)
      with 1 show ?thesis by auto
    next
      case 2
      with \<open>write_changes att n ((p, s) # cs) fs = (fs', m, False)\<close> have "m = n + 2"
        by (auto simp: write_text_def)
      with 2 show ?thesis by (intro exI [of _ "n + 1"]) simp
    qed
  qed
qed simp

lemma restore_works: "(\<And>k. n \<le> k \<Longrightarrow> att k = None) \<Longrightarrow> \<exists>fs'. restore att n cs fs = (fs', True)"
proof (induction att n cs fs rule: restore.induct)
  case (2 att n p s cs fs)
  have w: "write_text att n p s fs = (fs(p \<mapsto> s), True)" using 2(2) [of n] by (simp add: write_text_def)
  from 2(1) [OF w [symmetric] refl] 2(2) show ?case by (simp add: w del: fun_upd_apply)
qed simp

definition one_failure :: "attempts \<Rightarrow> bool" where
  "one_failure att \<longleftrightarrow> (\<forall>m n. att m \<noteq> None \<longrightarrow> att n \<noteq> None \<longrightarrow> m = n)"

lemma one_failure_once: "one_failure att \<Longrightarrow> att k \<noteq> None \<Longrightarrow> k < n \<Longrightarrow> n \<le> j \<Longrightarrow> att j = None"
  unfolding one_failure_def by (metis leD)

lemma apply_changes_restored:
  assumes "apply_changes att original changes fs = (fs', False, restored)" and "one_failure att"
  shows "restored"
proof -
  obtain fs1 n fin where w: "write_changes att 0 changes fs = (fs1, n, fin)" by (metis prod_cases3)
  with assms(1) have f: "\<not> fin" by (cases fin) (auto simp: apply_changes_def)
  with w write_changes_failed [of att 0 changes fs fs1 n] obtain k where "k < n" "att k \<noteq> None" by auto
  with assms(2) have "\<And>j. n \<le> j \<Longrightarrow> att j = None" using one_failure_once by blast
  from restore_works [of n att original fs1, OF this] assms(1) w f show ?thesis
    by (auto simp: apply_changes_def)
qed

definition tidy_paths :: "string list \<Rightarrow> bool" where
  "tidy_paths paths \<longleftrightarrow> distinct paths \<and> list_all (\<lambda>p. tmp_name p \<notin> set paths) paths"

lemma tidy_no_clash: "tidy_paths (map fst cs) \<Longrightarrow> no_clash cs"
  by (auto simp: tidy_paths_def no_clash_def list_all_iff)

lemma touched_paths: "touched cs = set (map fst cs) \<union> tmp_name ` set (map fst cs)"
  by (simp add: touched_def image_image)

text \<open>
  \<open>once\<close> replaces the only occurrence of the old text and nothing else.
\<close>

lemma replaced_once:
  assumes "once text old new = Inr r" and "old \<noteq> []"
  shows "\<exists>a b. text = a @ old @ b \<and> r = a @ new @ b \<and> find_sub old b = None \<and>
    (\<forall>a' b'. text = a' @ old @ b' \<longrightarrow> length a \<le> length a')"
  using assms by (rule once_Inr)

lemma replaced_once_witness:
  "\<exists>a b. ''abc'' = a @ ''b'' @ b \<and> ''axc'' = a @ ''x'' @ b"
proof -
  have "once ''abc'' ''b'' ''x'' = Inr ''axc''"
    by (simp add: once_def count_sub.simps replace_first_def)
  from replaced_once [OF this] show ?thesis by blast
qed

text \<open>
  The overlay is written in full or, when a write failed and the originals could be
  written back, not at all; no file outside it changes.
\<close>

lemma overlay_all_or_nothing:
  assumes "apply_changes att original changes fs = (fs', ok, restored)"
    and "no_clash changes" and "no_clash original" and "map fst changes = map fst original"
  shows "(ok \<longrightarrow> (\<forall>(p, s)\<in>set changes. fs' p = Some s \<and> fs' (tmp_name p) = None)) \<and>
    (\<not> ok \<and> restored \<longrightarrow> (\<forall>(p, s)\<in>set original. fs' p = Some s)) \<and>
    (q \<notin> touched changes \<longrightarrow> fs' q = fs q)"
  using apply_changes_all_or_nothing [OF assms] by blast

lemma overlay_all_or_nothing_witness:
  "\<exists>fs' ok restored. apply_changes (\<lambda>n. if n = 2 then Some ''junk'' else None) [(''a'', ''1''), (''b'', ''2'')]
      [(''a'', ''3''), (''b'', ''4'')] [''a'' \<mapsto> ''1'', ''b'' \<mapsto> ''2''] = (fs', ok, restored) \<and>
     \<not> ok \<and> restored \<and> fs' ''a'' = Some ''1''"
proof -
  let ?a = "apply_changes (\<lambda>n. if n = 2 then Some ''junk'' else None) [(''a'', ''1''), (''b'', ''2'')]
      [(''a'', ''3''), (''b'', ''4'')] [''a'' \<mapsto> ''1'', ''b'' \<mapsto> ''2'']"
  obtain fs' ok restored where a: "?a = (fs', ok, restored)" by (metis surj_pair)
  have "snd ?a = (False, True)"
    by (simp add: apply_changes_def write_text_def tmp_name_def)
  then have o: "\<not> ok" "restored" using a by simp_all
  have "no_clash [(''a'', ''3''), (''b'', ''4'')]" "no_clash [(''a'', ''1''), (''b'', ''2'')]"
    by (simp_all add: no_clash_def tmp_name_def)
  from overlay_all_or_nothing [OF a this, of "''z''"] o have "fs' ''a'' = Some ''1''" by simp
  with a o show ?thesis by blast
qed

end
