(* ===== verification/Prepare.thy ===== *)
theory Prepare
  imports Overlay
begin

text \<open>
  Two generators of patched sources: \<open>tools/prepare_input.py\<close> edits two files of
  the pinned kvmd so that it runs without its video parts, and
  \<open>tools/prepare_hdmirx_codec.py\<close> turns the pinned kernel codec into one that
  never binds a transmitter.  SHA-256 is an argument.
\<close>

definition nl :: string where
  "nl = [CHR 0x0A]"

definition tab :: string where
  "tab = [CHR 0x09]"

text \<open>\<open>s.replace(p, n)\<close>\<close>

function replace_all :: "string \<Rightarrow> string \<Rightarrow> string \<Rightarrow> string" where
  "replace_all p n s =
     (if p = [] then s
      else
        (case find_sub p s of
           None \<Rightarrow> s
         | Some i \<Rightarrow> take i s @ n @ replace_all p n (drop (i + length p) s)))"
  by pat_completeness auto
termination
proof (relation "measure (\<lambda>(p, n, s). length s)")
  fix p n s :: string and i
  assume "p \<noteq> []" "find_sub p s = Some i"
  then have "i + length p \<le> length s" "1 \<le> length p"
    by (auto dest: find_sub_bound simp: Suc_le_eq)
  then have "length s - (i + length p) < length s" by linarith
  then show "((p, n, drop (i + length p) s), p, n, s) \<in> measure (\<lambda>(p, n, s). length s)" by simp
qed simp

declare replace_all.simps [simp del]

lemma replace_all_once:
  "p \<noteq> [] \<Longrightarrow> count_sub p s = 1 \<Longrightarrow> replace_all p n s = replace_first p n s"
proof -
  assume p: "p \<noteq> []" and c: "count_sub p s = 1"
  then obtain i where i: "find_sub p s = Some i" "count_sub p (drop (i + length p) s) = 0"
    by (subst (asm) count_sub.simps) (auto split: option.splits)
  then have "replace_all p n (drop (i + length p) s) = drop (i + length p) s"
    using p by (subst replace_all.simps) (simp add: count_sub_zero)
  then show ?thesis using p i(1) by (subst replace_all.simps) (simp add: replace_first_def)
qed

section \<open>\<open>prepare_input.py\<close>\<close>

definition KVMD_PIN :: string where
  "KVMD_PIN = ''78ff181e95b14327831441d58f2f7f4cb2181cde''"

definition streamer_marker :: string where
  "streamer_marker = ''# RKMOON_INPUT_ONLY optional memsink''"

definition health_marker :: string where
  "health_marker = ''# RKMOON non-Raspberry-Pi health''"

definition health_anchor :: string where
  "health_anchor = ''        cmd = [*self.__vcgencmd_cmd, arg]''"

definition health_patch :: string where
  "health_patch = ''        # RKMOON non-Raspberry-Pi health'' @ nl
     @ ''        if self.__vcgencmd_cmd == [\"/bin/false\"]:'' @ nl
     @ ''            return None'' @ nl @ health_anchor"

definition import_anchor :: string where
  "import_anchor = ''import ustreamer'' @ nl"

definition sink_anchor :: string where
  "sink_anchor = ''            with ustreamer.Memsink(**self.__kwargs) as sink:''"

definition import_patch :: string where
  "import_patch = streamer_marker @ nl @ ''try:'' @ nl @ ''    import ustreamer'' @ nl
     @ ''except ModuleNotFoundError as exc:'' @ nl
     @ ''    if exc.name != \"ustreamer\":'' @ nl @ ''        raise'' @ nl @ ''    ustreamer = None'' @ nl"

definition sink_patch :: string where
  "sink_patch = ''            if ustreamer is None:'' @ nl
     @ ''                raise StreamerPermError(\"Memsink unavailable in input-only installation\")''
     @ nl @ sink_anchor"

text \<open>The texts of \<open>health.py\<close> and \<open>streamer.py\<close> before and after.\<close>

definition prepare_input :: "string \<Rightarrow> string \<times> string \<Rightarrow> (string \<times> string) \<times> exn option" where
  "prepare_input head files =
     (case files of (h, text) \<Rightarrow>
        if head \<noteq> KVMD_PIN then (files, Some RuntimeError)
        else
          let health =
                (if find_sub health_marker h \<noteq> None then Some h
                 else if count_sub health_anchor h \<noteq> 1 then None
                 else Some (replace_all health_anchor health_patch h))
          in case health of
               None \<Rightarrow> (files, Some RuntimeError)
             | Some h' \<Rightarrow>
                 if find_sub streamer_marker text \<noteq> None then ((h', text), None)
                 else if count_sub import_anchor text \<noteq> 1 \<or> count_sub sink_anchor text \<noteq> 1
                 then ((h', text), Some RuntimeError)
                 else ((h', replace_all sink_anchor sink_patch
                              (replace_all import_anchor import_patch text)), None))"

section \<open>\<open>prepare_hdmirx_codec.py\<close>\<close>

definition codec_once :: "string \<Rightarrow> string \<Rightarrow> string \<Rightarrow> string res" where
  "codec_once text old new =
     (if count_sub old text \<noteq> 1 then Inl ValueError else Inr (replace_first old new text))"

definition CODEC_SHA :: string where
  "CODEC_SHA = ''7035b4cc5159312134c3b172a55921f8f16e4cb6a1136626f4d1e381759be761''"

definition DRIVER :: string where
  "DRIVER = ''rkmoon-hdmirx-codec''"

definition probe_anchor :: string where
  "probe_anchor = ''static int hdmi_codec_probe(struct platform_device *pdev)''"

definition helper :: string where
  "helper =
     ''/* HDMI RX shares this codec with TX. Never infer direction from I2S alone. */'' @ nl
     @ ''static bool hdmi_codec_is_hdmirx(struct device *dev)'' @ nl @ ''{'' @ nl
     @ tab @ ''return dev->parent &&'' @ nl
     @ tab @ tab @ ''(of_device_is_compatible(dev->parent->of_node,'' @ nl
     @ tab @ tab @ tab @ tab @ tab @ '' \"rockchip,rk3588-hdmirx-ctrler\") ||'' @ nl
     @ tab @ tab @ '' of_device_is_compatible(dev->parent->of_node,'' @ nl
     @ tab @ tab @ tab @ tab @ tab @ '' \"rockchip,hdmirx-ctrler\"));'' @ nl
     @ ''}'' @ nl @ nl"

definition locals_anchor :: string where
  "locals_anchor = tab @ ''int dai_count, i = 0;'' @ nl @ tab @ ''int ret;'' @ nl"

definition never_tx :: string where
  "never_tx =
     nl @ tab @ ''/* Standalone workaround must never bind a TX codec, even by override. */'' @ nl
     @ tab @ ''if (!is_hdmirx)'' @ nl @ tab @ tab @ ''return -ENODEV;'' @ nl"

definition locals_patch :: "bool \<Rightarrow> string" where
  "locals_patch external =
     locals_anchor @ tab @ ''bool is_hdmirx = hdmi_codec_is_hdmirx(dev);'' @ nl
     @ (if external then never_tx else [])"

definition pair_anchor :: string where
  "pair_anchor = tab @ tab @ ''daidrv[i].capture.channels_min = 0;'' @ nl
     @ tab @ tab @ ''daidrv[i].capture.channels_max = 0;''"

definition pair_patch :: string where
  "pair_patch = tab @ tab @ ''if (!is_hdmirx) {'' @ nl
     @ tab @ tab @ tab @ ''daidrv[i].capture.channels_min = 0;'' @ nl
     @ tab @ tab @ tab @ ''daidrv[i].capture.channels_max = 0;'' @ nl @ tab @ tab @ ''}''"

definition names :: "(string \<times> string) list" where
  "names =
     [(''.name = HDMI_CODEC_DRV_NAME,'', ''.name = \"'' @ DRIVER @ ''\",''),
      (''MODULE_ALIAS(\"platform:\" HDMI_CODEC_DRV_NAME);'',
       ''MODULE_ALIAS(\"platform:'' @ DRIVER @ ''\");''),
      (''MODULE_DESCRIPTION(\"HDMI Audio Codec Driver\");'',
       ''MODULE_DESCRIPTION(\"RKMoon RX-only HDMI codec capture repair for 6.1.115-vendor-rk35xx\");'')]"

fun all_once :: "string \<Rightarrow> (string \<times> string) list \<Rightarrow> string res" where
  "all_once text [] = Inr text"
| "all_once text ((old, new) # rest) =
     (case codec_once text old new of Inl e \<Rightarrow> Inl e | Inr t \<Rightarrow> all_once t rest)"

definition transform :: "(string \<Rightarrow> string) \<Rightarrow> string \<Rightarrow> bool \<Rightarrow> string res" where
  "transform sha source external =
     (if sha source \<noteq> CODEC_SHA then Inl ValueError
      else if find_sub ''EXPORT_SYMBOL'' source \<noteq> None then Inl ValueError
      else
        (case all_once source
                [(''#include <linux/module.h>'',
                  ''#include <linux/module.h>'' @ nl @ ''#include <linux/of.h>''),
                 (probe_anchor, helper @ probe_anchor),
                 (locals_anchor, locals_patch external)] of
           Inl e \<Rightarrow> Inl e
         | Inr text \<Rightarrow>
             if count_sub pair_anchor text \<noteq> 2 then Inl ValueError
             else
               (let text2 = replace_all pair_anchor pair_patch text in
                if external then all_once text2 names else Inr text2)))"

text \<open>
  \<open>main\<close>: \<open>out\<close> are the files of the output directory, \<open>diff\<close> and \<open>describe\<close> make the
  patch for the kernel and the manifest.  Nothing is left behind by a refused source.
\<close>

definition codec_main ::
  "(string \<Rightarrow> string) \<Rightarrow> (string \<Rightarrow> string \<Rightarrow> string) \<Rightarrow> (string \<Rightarrow> string) \<Rightarrow> string \<Rightarrow> (string \<times> string) list \<Rightarrow>
   (string \<times> string) list \<times> exn option" where
  "codec_main sha diff describe source out =
     (if out \<noteq> [] then (out, Some SystemExit)
      else
        (case transform sha source True of
           Inl e \<Rightarrow> (out, Some e)
         | Inr result \<Rightarrow>
             let written = [(''rkmoon_hdmirx_codec.c'', result), (''Makefile'', ''obj-m += rkmoon_hdmirx_codec.o'' @ nl)] in
               (case transform sha source False of
                  Inl e \<Rightarrow> (written, Some e)
                | Inr generic \<Rightarrow>
                    (written @ [(''upstream-rx-capture.patch'', diff source generic),
                       (''source-manifest.json'', describe (sha result))], None))))"

section \<open>Preparing twice\<close>

definition occurs :: "string \<Rightarrow> string \<Rightarrow> bool" where
  "occurs p s \<longleftrightarrow> (\<exists>a b. s = a @ p @ b)"

lemma occurs_find: "occurs p s \<longleftrightarrow> find_sub p s \<noteq> None"
  using find_sub_split find_sub_Some unfolding occurs_def by fastforce

lemma occurs_append: "occurs p s \<Longrightarrow> occurs p (a @ s @ b)"
  unfolding occurs_def by (metis append.assoc)

lemma occurs_first:
  assumes "count_sub p s = 1" "p \<noteq> []" "occurs q n"
  shows "occurs q (replace_all p n s)"
proof -
  from assms(1,2) obtain i where "find_sub p s = Some i"
    by (subst (asm) count_sub.simps) (auto split: option.splits)
  then show ?thesis
    unfolding replace_all_once [OF assms(2,1)] replace_first_def
    by (simp add: occurs_append [OF assms(3)])
qed

lemma anchors_nonempty [simp]:
  "health_anchor \<noteq> []" "import_anchor \<noteq> []" "sink_anchor \<noteq> []"
  by (simp_all add: health_anchor_def import_anchor_def sink_anchor_def)

lemma health_patch_marked: "occurs health_marker health_patch"
  unfolding occurs_find by code_simp

lemma import_patch_marked: "occurs streamer_marker import_patch"
  unfolding occurs_find by code_simp

text \<open>
  A marker survives a replacement whose anchor cannot overlap it.
\<close>

definition apart :: "string \<Rightarrow> string \<Rightarrow> bool" where
  "apart m p \<longleftrightarrow>
     find_sub m p = None \<and> find_sub p m = None \<and>
     list_all (\<lambda>k. drop (length m - k) m \<noteq> take k p \<and> drop (length p - k) p \<noteq> take k m)
       [1..<Suc (min (length m) (length p))]"

lemma overlap_left:
  assumes "s = u @ m @ v" "s = x @ p @ y" "length u \<le> length x" "length x < length u + length m"
    and "p \<noteq> []"
  shows "\<not> apart m p"
proof -
  let ?d = "length x - length u"
  have m: "m = take (length m) (drop (length u) s)" using assms(1) by simp
  have p: "p = take (length p) (drop (length x) s)" using assms(2) by simp
  have dm: "drop ?d m = take (length m - ?d) (drop (length x) s)"
    by (subst m) (simp add: drop_take assms(3))
  show ?thesis
  proof (cases "length m - ?d \<le> length p")
    case True
    let ?k = "length m - ?d"
    have "take ?k p = drop ?d m"
      unfolding dm by (subst p) (use True in \<open>simp add: min_def\<close>)
    moreover have "length m - ?k = ?d" "1 \<le> ?k" "?k \<le> length m" using assms(3,4) by linarith+
    ultimately have "drop (length m - ?k) m = take ?k p" "?k \<in> set [1..<Suc (min (length m) (length p))]"
      using True by auto
    then show ?thesis unfolding apart_def list_all_iff by blast
  next
    case False
    have "drop ?d m = p @ take (length m - ?d - length p) (drop (length x + length p) s)"
    proof -
      have "drop (length x) s = p @ y" "drop (length x + length p) s = y" using assms(2) by simp_all
      then show ?thesis unfolding dm using False by simp
    qed
    then have "m = take ?d m @ p @ take (length m - ?d - length p) (drop (length x + length p) s)"
      by (metis append_take_drop_id)
    then have "occurs p m" unfolding occurs_def by blast
    then show ?thesis by (auto simp: apart_def occurs_find)
  qed
qed

lemma apart_sym: "apart m p \<longleftrightarrow> apart p m"
  by (auto simp: apart_def list_all_iff min.commute)

lemma occurs_apart:
  assumes "apart m p" "m \<noteq> []" "p \<noteq> []" "s = x @ p @ y" "occurs m s"
  shows "occurs m x \<or> occurs m y"
proof -
  obtain u v where s: "s = u @ m @ v" using assms(5) by (auto simp: occurs_def)
  consider (left) "length u + length m \<le> length x" | (right) "length x + length p \<le> length u"
    using overlap_left [OF s assms(4) _ _ assms(3)] overlap_left [OF assms(4) s _ _ assms(2)]
      assms(1) apart_sym [of m p] by (cases "length u \<le> length x"; fastforce)
  then show ?thesis
  proof cases
    case left
    have "take (length x) s = u @ m @ take (length x - length u - length m) v"
      unfolding s using left by simp
    then have "x = u @ m @ take (length x - length u - length m) v" using assms(4) by simp
    then show ?thesis by (auto simp: occurs_def)
  next
    case right
    have "drop (length x + length p) s = drop (length x + length p) u @ m @ v"
      unfolding s using right by simp
    then have "y = drop (length x + length p) u @ m @ v" using assms(4) by simp
    then show ?thesis by (auto simp: occurs_def)
  qed
qed

lemma occurs_replace_all:
  "apart m p \<Longrightarrow> m \<noteq> [] \<Longrightarrow> p \<noteq> [] \<Longrightarrow> occurs m s \<Longrightarrow> occurs m (replace_all p n s)"
proof (induction p n s rule: replace_all.induct)
  case (1 p n s)
  show ?case
  proof (cases "find_sub p s")
    case None
    then show ?thesis using 1(4,5) by (subst replace_all.simps) simp
  next
    case (Some i)
    have s: "s = take i s @ p @ drop (i + length p) s" by (rule find_sub_split [OF Some])
    have r: "replace_all p n s = take i s @ n @ replace_all p n (drop (i + length p) s)"
      using Some 1(4) by (subst replace_all.simps) simp
    from occurs_apart [OF 1(2,3,4) s 1(5)] show ?thesis
    proof
      assume "occurs m (take i s)"
      from occurs_append [OF this, of "[]"] show ?thesis unfolding r by simp
    next
      assume "occurs m (drop (i + length p) s)"
      from 1(1) [OF 1(4) Some 1(2,3,4) this] show ?thesis
        unfolding r using occurs_append [of m _ "take i s @ n" "[]"] by simp
    qed
  qed
qed

lemma marker_apart: "apart streamer_marker sink_anchor"
  by code_simp

lemma prepare_input_marked:
  assumes "prepare_input head files = (files', None)"
  shows "head = KVMD_PIN \<and> occurs health_marker (fst files') \<and> occurs streamer_marker (snd files')"
proof -
  obtain h body where f: "files = (h, body)" by (cases files)
  have head: "head = KVMD_PIN" using assms f by (simp add: prepare_input_def split: if_splits)
  obtain h' where h: "occurs health_marker h \<and> h' = h \<or>
      count_sub health_anchor h = 1 \<and> h' = replace_all health_anchor health_patch h"
    and t: "occurs streamer_marker body \<and> files' = (h', body) \<or>
      count_sub import_anchor body = 1 \<and>
      files' = (h', replace_all sink_anchor sink_patch (replace_all import_anchor import_patch body))"
    using assms f head unfolding prepare_input_def occurs_find
    by (auto simp: Let_def split: if_splits option.splits)
  have "occurs health_marker h'"
    using h occurs_first [OF _ anchors_nonempty(1) health_patch_marked] by auto
  moreover have "occurs streamer_marker (snd files')"
    using t
  proof (elim disjE conjE)
    assume c: "count_sub import_anchor body = 1"
      and "files' = (h', replace_all sink_anchor sink_patch (replace_all import_anchor import_patch body))"
    moreover have "occurs streamer_marker (replace_all import_anchor import_patch body)"
      by (rule occurs_first [OF c anchors_nonempty(2) import_patch_marked])
    ultimately show ?thesis
      using occurs_replace_all [OF marker_apart _ anchors_nonempty(3)]
      by (simp add: streamer_marker_def)
  qed simp
  ultimately show ?thesis using t head by auto
qed

lemma prepare_input_twice:
  assumes "prepare_input head files = (files', None)"
  shows "prepare_input head files' = (files', None)"
  using prepare_input_marked [OF assms]
  by (cases files') (auto simp: prepare_input_def occurs_find Let_def)

lemma transform_pinned:
  "transform sha source external = Inr t \<Longrightarrow> sha source = CODEC_SHA \<and> \<not> occurs ''EXPORT_SYMBOL'' source"
  by (auto simp: transform_def occurs_find split: if_splits)

lemma codec_main_done:
  assumes "codec_main sha diff describe source out = (out', None)"
  shows "out = [] \<and> sha source = CODEC_SHA \<and>
    (\<exists>result. transform sha source True = Inr result \<and> map_of out' ''rkmoon_hdmirx_codec.c'' = Some result)"
  using assms transform_pinned [of sha source True]
  by (auto simp: codec_main_def Let_def split: if_splits sum.splits)

lemma codec_main_refused: "transform sha source True = Inl e \<Longrightarrow> fst (codec_main sha diff describe source out) = out"
  by (simp add: codec_main_def)

end
