(* ===== verification/Overlay_Edits.thy ===== *)
theory Overlay_Edits
  imports Prepare
begin

text \<open>
  The edits the overlay scripts make to the pinned sources: \<open>once\<close>, \<open>at_entry\<close>
  and the other text operations of \<open>make_changes\<close> as data, and what a list of
  them does to a text.
\<close>

section \<open>\<open>at_entry\<close>\<close>

text \<open>\<open>\s\<close> of a pattern on text, for the first 256 code points, and \<open>\w\<close> of a signature.\<close>

definition pat_space :: "char \<Rightarrow> bool" where
  "pat_space c \<longleftrightarrow> of_char c \<in> {9, 10, 11, 12, 13, 28, 29, 30, 31, 32, 133, 160 :: nat}"

definition is_word :: "char \<Rightarrow> bool" where
  "is_word c \<longleftrightarrow> (let n = of_char c :: nat in
     48 \<le> n \<and> n \<le> 57 \<or> 65 \<le> n \<and> n \<le> 90 \<or> 97 \<le> n \<and> n \<le> 122 \<or> n = 95)"

definition skip_space :: "string \<Rightarrow> string" where
  "skip_space s = dropWhile pat_space s"

lemma skip_space_length: "length (skip_space s) \<le> length s"
  by (simp add: skip_space_def length_dropWhile_le)

text \<open>\<open>re.findall(r"\w+|::|&&|[^\w\s]", signature)\<close>\<close>

function sig_tokens :: "string \<Rightarrow> string list" where
  "sig_tokens [] = []"
| "sig_tokens (c # cs) =
     (if is_word c then (c # takeWhile is_word cs) # sig_tokens (dropWhile is_word cs)
      else if pat_space c then sig_tokens cs
      else if is_prefix ''::'' (c # cs) \<or> is_prefix ''&&'' (c # cs) then take 2 (c # cs) # sig_tokens (drop 1 cs)
      else [c] # sig_tokens cs)"
  by pat_completeness auto
termination
  by (relation "measure length") (auto simp: le_imp_less_Suc length_dropWhile_le)

text \<open>
  The pattern: the tokens with optional white space between them, an opening
  brace, blanks and the end of the line.  No token begins with white space, so
  there is nothing to backtrack to.  The result is what follows the match.
\<close>

definition match_brace :: "string \<Rightarrow> string option" where
  "match_brace s =
     (case skip_space s of
        [] \<Rightarrow> None
      | c # r \<Rightarrow>
          if c \<noteq> CHR ''{'' then None
          else
            (case dropWhile (\<lambda>c. c = CHR '' '' \<or> c = CHR 0x09) r of
               [] \<Rightarrow> None
             | d # rest \<Rightarrow> if d = CHR 0x0A then Some rest else None))"

fun match_rest :: "string list \<Rightarrow> string \<Rightarrow> string option" where
  "match_rest [] s = match_brace s"
| "match_rest (t # ts) s =
     (let u = skip_space s in if is_prefix t u then match_rest ts (drop (length t) u) else None)"

definition match_entry :: "string list \<Rightarrow> string \<Rightarrow> string option" where
  "match_entry ts s =
     (case ts of
        [] \<Rightarrow> match_brace s
      | t # ts' \<Rightarrow> if is_prefix t s then match_rest ts' (drop (length t) s) else None)"

text \<open>What is matched is a prefix that ends in a line with an opening brace.\<close>

definition entered :: "string \<Rightarrow> string \<Rightarrow> bool" where
  "entered s r \<longleftrightarrow> (\<exists>h k. s = h @ [CHR ''{''] @ k @ [CHR 0x0A] @ r \<and> set k \<subseteq> {CHR '' '', CHR 0x09})"

lemma skip_space_suffix: "\<exists>w. s = w @ skip_space s"
  unfolding skip_space_def by (metis takeWhile_dropWhile_id)

lemma entered_longer: "entered s r \<Longrightarrow> entered (a @ s) r"
  unfolding entered_def by (metis append.assoc)

lemma match_brace_entered:
  assumes "match_brace s = Some r"
  shows "entered s r"
proof -
  let ?b = "\<lambda>c. c = CHR '' '' \<or> c = CHR 0x09"
  from assms obtain q where q: "skip_space s = CHR ''{'' # q" "dropWhile ?b q = CHR 0x0A # r"
    by (auto simp: match_brace_def split: list.splits if_splits)
  obtain w where "s = w @ skip_space s" using skip_space_suffix by blast
  moreover have "q = takeWhile ?b q @ CHR 0x0A # r" using q(2) by (metis takeWhile_dropWhile_id)
  moreover have "set (takeWhile ?b q) \<subseteq> {CHR '' '', CHR 0x09}" by (auto dest: set_takeWhileD)
  ultimately show ?thesis unfolding entered_def q(1) by (metis append_Cons append_Nil)
qed

lemma is_prefix_split: "is_prefix p s \<Longrightarrow> s = p @ drop (length p) s"
  unfolding is_prefix_iff by (metis append_take_drop_id)

lemma match_rest_entered: "match_rest ts s = Some r \<Longrightarrow> entered s r"
proof (induction ts s rule: match_rest.induct)
  case (1 s)
  then show ?case by (simp add: match_brace_entered)
next
  case (2 t ts s)
  then have p: "is_prefix t (skip_space s)" and e: "entered (drop (length t) (skip_space s)) r"
    by (auto simp: Let_def split: if_splits)
  obtain w where w: "s = w @ skip_space s" using skip_space_suffix by blast
  have "s = (w @ t) @ drop (length t) (skip_space s)" using w is_prefix_split [OF p] by simp
  with entered_longer [OF e] show ?case by metis
qed

lemma match_entry_entered: "match_entry ts s = Some r \<Longrightarrow> entered s r"
proof (cases ts)
  case Nil
  then show "match_entry ts s = Some r \<Longrightarrow> ?thesis" by (simp add: match_entry_def match_brace_entered)
next
  case (Cons t ts')
  assume "match_entry ts s = Some r"
  with Cons have p: "is_prefix t s" and m: "match_rest ts' (drop (length t) s) = Some r"
    by (auto simp: match_entry_def split: if_splits)
  from entered_longer [OF match_rest_entered [OF m]] is_prefix_split [OF p] show ?thesis by metis
qed

lemma entered_shorter: "entered s r \<Longrightarrow> length r < length s"
  by (auto simp: entered_def)

lemma match_entry_shorter: "match_entry ts s = Some r \<Longrightarrow> length r < length s"
  using match_entry_entered entered_shorter by blast

text \<open>\<open>re.finditer\<close>: what follows each match, the search going on there.\<close>

function entries :: "string list \<Rightarrow> string \<Rightarrow> string list" where
  "entries ts s =
     (case match_entry ts s of
        Some r \<Rightarrow> r # entries ts r
      | None \<Rightarrow> (case s of [] \<Rightarrow> [] | c # cs \<Rightarrow> entries ts cs))"
  by pat_completeness auto
termination
  by (relation "measure (length \<circ> snd)") (auto dest: match_entry_shorter)

declare entries.simps [simp del]

definition at_entry :: "string \<Rightarrow> string \<Rightarrow> string \<Rightarrow> string res" where
  "at_entry text signature body =
     (case entries (sig_tokens signature) text of
        [r] \<Rightarrow> (let stop = length text - length r in Inr (take stop text @ body @ drop stop text))
      | _ \<Rightarrow> Inl PatchError)"

lemma entries_entered: "r \<in> set (entries ts s) \<Longrightarrow> entered s r"
proof (induction ts s rule: entries.induct)
  case (1 ts s)
  show ?case
  proof (cases "match_entry ts s")
    case (Some q)
    note e = match_entry_entered [OF Some]
    from Some 1(3) have "r = q \<or> r \<in> set (entries ts q)" by (subst (asm) entries.simps) simp
    moreover have "entered s r" if "entered q r"
    proof -
      obtain a where "s = a @ q" using e unfolding entered_def by (metis append.assoc)
      with entered_longer [OF that] show ?thesis by simp
    qed
    ultimately show ?thesis using 1(2) [OF Some] e by blast
  next
    case None
    with 1(3) obtain c cs where s: "s = c # cs" "r \<in> set (entries ts cs)"
      by (subst (asm) entries.simps) (auto split: list.splits)
    from 1(1) [OF None s(1) s(2)] entered_longer [of cs r "[c]"] s(1) show ?thesis by simp
  qed
qed

lemma at_entry_Inr:
  assumes "at_entry text signature body = Inr r"
  shows "\<exists>a k b. text = a @ [CHR ''{''] @ k @ [CHR 0x0A] @ b \<and> set k \<subseteq> {CHR '' '', CHR 0x09} \<and>
    r = a @ [CHR ''{''] @ k @ [CHR 0x0A] @ body @ b \<and> entries (sig_tokens signature) text = [b]"
proof -
  from assms obtain b where b: "entries (sig_tokens signature) text = [b]"
    and r: "r = take (length text - length b) text @ body @ drop (length text - length b) text"
    by (auto simp: at_entry_def Let_def split: list.splits)
  from entries_entered [of b "sig_tokens signature" "text"] b obtain a k where
    t: "text = a @ [CHR ''{''] @ k @ [CHR 0x0A] @ b" "set k \<subseteq> {CHR '' '', CHR 0x09}"
    unfolding entered_def by auto
  have "text = (a @ [CHR ''{''] @ k @ [CHR 0x0A]) @ b" using t(1) by simp
  then have "take (length text - length b) text = a @ [CHR ''{''] @ k @ [CHR 0x0A]"
    and "drop (length text - length b) text = b" by simp_all
  with r t b show ?thesis by auto
qed

lemma at_entry_split:
  assumes "at_entry text signature body = Inr r"
  shows "\<exists>a b. text = a @ b \<and> r = a @ body @ b \<and> a \<noteq> [] \<and> last a = CHR 0x0A"
proof -
  from at_entry_Inr [OF assms] obtain a k b where
    t: "text = a @ [CHR ''{''] @ k @ [CHR 0x0A] @ b" "r = a @ [CHR ''{''] @ k @ [CHR 0x0A] @ body @ b" by blast
  let ?a = "a @ [CHR ''{''] @ k @ [CHR 0x0A]"
  from t have "text = ?a @ b \<and> r = ?a @ body @ b \<and> ?a \<noteq> [] \<and> last ?a = CHR 0x0A" by simp
  then show ?thesis by blast
qed

section \<open>Edits as data\<close>

text \<open>
  \<open>Want\<close> is the check of a count before \<open>text.replace\<close>, \<open>Cut\<close> takes out the text
  from one marker up to another, \<open>Cut_Known\<close> only if its SHA-256 is the known one.
\<close>

datatype edit =
    Once string string
  | Entry string string
  | Want string nat
  | All string string
  | Cut string string string
  | Cut_Known string string string string
  | Add string

definition find_from :: "string \<Rightarrow> string \<Rightarrow> nat \<Rightarrow> nat option" where
  "find_from p s k = map_option ((+) k) (find_sub p (drop k s))"

fun edit_text :: "(string \<Rightarrow> string) \<Rightarrow> edit \<Rightarrow> string \<Rightarrow> string res" where
  "edit_text sha (Once old new) t = once t old new"
| "edit_text sha (Entry signature body) t = at_entry t signature body"
| "edit_text sha (Want p n) t = (if count_sub p t \<noteq> n then Inl PatchError else Inr t)"
| "edit_text sha (All p n) t = Inr (replace_all p n t)"
| "edit_text sha (Cut a b new) t =
     (case find_sub a t of
        None \<Rightarrow> Inl ValueError
      | Some i \<Rightarrow> (case find_from b t i of None \<Rightarrow> Inl ValueError | Some j \<Rightarrow> Inr (take i t @ new @ drop j t)))"
| "edit_text sha (Cut_Known a b digest new) t =
     (case find_sub a t of
        None \<Rightarrow> Inl ValueError
      | Some i \<Rightarrow>
          (case find_from b t i of
             None \<Rightarrow> Inl ValueError
           | Some j \<Rightarrow>
               let block = drop i (take j t) in
                 if sha block \<noteq> digest then Inl PatchError else once t block new))"
| "edit_text sha (Add s) t = Inr (t @ s)"

fun edit_all :: "(string \<Rightarrow> string) \<Rightarrow> edit list \<Rightarrow> string \<Rightarrow> string res" where
  "edit_all sha [] t = Inr t"
| "edit_all sha (e # es) t = (case edit_text sha e t of Inl x \<Rightarrow> Inl x | Inr u \<Rightarrow> edit_all sha es u)"

text \<open>\<open>make_changes\<close> with the table of the script; \<open>None\<close> is an unexpected file.\<close>

fun make_changes ::
  "(string \<Rightarrow> string) \<Rightarrow> (string \<Rightarrow> edit list option) \<Rightarrow> (string \<times> string) list \<Rightarrow> (string \<times> string) list res" where
  "make_changes sha table [] = Inr []"
| "make_changes sha table ((p, t) # rest) =
     (case table p of
        None \<Rightarrow> Inl PatchError
      | Some es \<Rightarrow>
          (case edit_all sha es t of
             Inl x \<Rightarrow> Inl x
           | Inr u \<Rightarrow>
               (case make_changes sha table rest of
                  Inl x \<Rightarrow> Inl x
                | Inr cs \<Rightarrow> Inr ((p, u) # cs))))"

text \<open>A text given by its lines.\<close>

definition lines_of :: "string list \<Rightarrow> string" where
  "lines_of ls = concat (map (\<lambda>l. l @ nl) ls)"

text \<open>A quote and a backslash, as the tables write them.\<close>

definition sq :: string where
  "sq = [CHR 0x27]"

definition bs :: string where
  "bs = [CHR 0x5C]"

section \<open>Texts that cannot overlap\<close>

text \<open>\<open>p\<close> begins somewhere in \<open>m\<close>, and there they agree as far as both go.\<close>

fun clash :: "string \<Rightarrow> string \<Rightarrow> bool" where
  "clash [] p \<longleftrightarrow> False"
| "clash (c # cs) p \<longleftrightarrow> is_prefix (c # cs) p \<or> is_prefix p (c # cs) \<or> clash cs p"

text \<open>For evaluation: nothing is looked at that need not be.\<close>

lemma is_prefix_code [code]:
  "is_prefix [] s = True"
  "is_prefix (c # cs) [] = False"
  "is_prefix (c # cs) (d # ds) = (if c = d then is_prefix cs ds else False)"
  by simp_all

lemma clash_code [code]:
  "clash [] p = False"
  "clash (c # cs) p =
     (if is_prefix (c # cs) p then True else if is_prefix p (c # cs) then True else clash cs p)"
  by simp_all

lemma clash_iff: "clash m p \<longleftrightarrow> (\<exists>d < length m. is_prefix (drop d m) p \<or> is_prefix p (drop d m))"
proof (induction m)
  case (Cons c cs)
  have "(\<exists>d < length (c # cs). is_prefix (drop d (c # cs)) p \<or> is_prefix p (drop d (c # cs))) \<longleftrightarrow>
      is_prefix (c # cs) p \<or> is_prefix p (c # cs) \<or>
      (\<exists>d < length cs. is_prefix (drop d cs) p \<or> is_prefix p (drop d cs))"
    by (auto simp: less_Suc_eq_0_disj)
  with Cons.IH show ?case by simp
qed simp

lemma not_clash_find: "\<not> clash m p \<Longrightarrow> p \<noteq> [] \<Longrightarrow> find_sub p m = None"
  by (induction m) auto

lemma not_clash_overlap:
  assumes "\<not> clash m p" and "1 \<le> k" "k \<le> length m" "k \<le> length p"
  shows "drop (length m - k) m \<noteq> take k p"
proof
  assume e: "drop (length m - k) m = take k p"
  have "length (drop (length m - k) m) = k" using assms(3) by simp
  then have "is_prefix (drop (length m - k) m) p" unfolding is_prefix_iff using e by simp
  moreover have "length m - k < length m" using assms(2,3) by simp
  ultimately show False using assms(1) clash_iff by blast
qed

lemma find_sub_drop: "find_sub p s \<noteq> None \<Longrightarrow> p \<noteq> [] \<Longrightarrow> \<exists>d < length s. is_prefix p (drop d s)"
proof -
  assume "find_sub p s \<noteq> None" "p \<noteq> []"
  then obtain a b where s: "s = a @ p @ b" unfolding occurs_find [symmetric] occurs_def by blast
  then have "is_prefix p (drop (length a) s)" by (simp add: is_prefix_iff)
  moreover have "length a < length s" using s \<open>p \<noteq> []\<close> by simp
  ultimately show ?thesis by blast
qed

lemma clash_find: "is_prefix p (drop d m) \<Longrightarrow> find_sub p m \<noteq> None"
  using find_sub_Some [of p "take d m" "drop (length p) (drop d m)"]
  by (metis append_take_drop_id is_prefix_iff)

lemma apart_code [code]:
  "apart m p = (if m = [] then False else if p = [] then False else if clash m p then False else \<not> clash p m)"
proof (cases "m = [] \<or> p = []")
  case True
  have "find_sub [] s \<noteq> None" for s :: string by (cases s) simp_all
  with True show ?thesis by (auto simp: apart_def)
next
  case False
  have "\<not> clash m p" if a: "apart m p" "p \<noteq> []" for m p
  proof
    assume "clash m p"
    then obtain d where d: "d < length m" "is_prefix (drop d m) p \<or> is_prefix p (drop d m)"
      unfolding clash_iff by blast
    have "\<not> is_prefix p (drop d m)" using clash_find [of p d m] a(1) by (auto simp: apart_def)
    with d have t: "take (length m - d) p = drop d m" by (simp add: is_prefix_iff)
    then have "length m - d \<le> length p" by (metis length_drop length_take min.absorb_iff2)
    then have "length m - d \<in> set [1..<Suc (min (length m) (length p))]" using d(1) by auto
    with a(1) have "drop (length m - (length m - d)) m \<noteq> take (length m - d) p"
      unfolding apart_def list_all_iff by blast
    with t d(1) show False by simp
  qed
  note one = this
  have "apart m p" if c: "\<not> clash m p" "\<not> clash p m" "m \<noteq> []" "p \<noteq> []"
  proof -
    have "list_all (\<lambda>k. drop (length m - k) m \<noteq> take k p \<and> drop (length p - k) p \<noteq> take k m)
        [1..<Suc (min (length m) (length p))]"
      unfolding list_all_iff using not_clash_overlap [OF c(1)] not_clash_overlap [OF c(2)] by auto
    with not_clash_find [OF c(1,4)] not_clash_find [OF c(2,3)] show ?thesis by (simp add: apart_def)
  qed
  with False one [of m p] one [of p m] apart_sym [of m p] show ?thesis by auto
qed

lemma apart_nonempty: "apart m p \<Longrightarrow> m \<noteq> [] \<and> p \<noteq> []"
  unfolding apart_code by (auto split: if_splits)

text \<open>For a text of many lines and an \<open>m\<close> within a line it is enough to look at each line.\<close>

fun runs_into :: "string \<Rightarrow> string \<Rightarrow> bool" where
  "runs_into [] p = False"
| "runs_into (c # cs) p = (if is_prefix (c # cs) p then True else runs_into cs p)"

lemma runs_into_iff: "runs_into m p \<longleftrightarrow> (\<exists>d < length m. is_prefix (drop d m) p)"
proof (induction m)
  case (Cons c cs)
  have "(\<exists>d < length (c # cs). is_prefix (drop d (c # cs)) p) \<longleftrightarrow>
      is_prefix (c # cs) p \<or> (\<exists>d < length cs. is_prefix (drop d cs) p)"
    by (auto simp: less_Suc_eq_0_disj)
  with Cons.IH show ?case by simp
qed simp

lemma occurs_across:
  assumes "occurs m (a @ x # b)" and "x \<notin> set m"
  shows "occurs m a \<or> occurs m b"
proof -
  obtain u v where "a @ x # b = u @ m @ v" using assms(1) by (auto simp: occurs_def)
  then obtain us where "a = u @ us \<and> us @ x # b = m @ v \<or> a @ us = u \<and> x # b = us @ m @ v"
    unfolding append_eq_append_conv2 by blast
  then show ?thesis
  proof
    assume w: "a = u @ us \<and> us @ x # b = m @ v"
    then obtain vs where "us = m @ vs \<or> us @ vs = m \<and> x # b = vs @ v"
      unfolding append_eq_append_conv2 by blast
    then show ?thesis
    proof
      assume "us = m @ vs"
      with w show ?thesis by (auto simp: occurs_def)
    next
      assume y: "us @ vs = m \<and> x # b = vs @ v"
      with assms(2) have "vs = []" by (cases vs) auto
      with y w have "a = u @ m @ []" by simp
      then show ?thesis unfolding occurs_def by blast
    qed
  next
    assume w: "a @ us = u \<and> x # b = us @ m @ v"
    show ?thesis
    proof (cases us)
      case Nil
      with w assms(2) have "m = []" by (cases m) auto
      then have "a = [] @ m @ a" by simp
      then show ?thesis unfolding occurs_def by blast
    next
      case (Cons y ys)
      with w have "b = ys @ m @ v" by simp
      then show ?thesis unfolding occurs_def by blast
    qed
  qed
qed

lemma lines_of_Cons: "lines_of (l # ls) = l @ CHR 0x0A # lines_of ls"
  by (simp add: lines_of_def nl_def)

lemma occurs_lines:
  "occurs m (lines_of ls @ t) \<Longrightarrow> CHR 0x0A \<notin> set m \<Longrightarrow> \<exists>l \<in> set (t # ls). occurs m l"
proof (induction ls)
  case (Cons l ls)
  then have "occurs m l \<or> occurs m (lines_of ls @ t)"
    using occurs_across [of m l "CHR 0x0A" "lines_of ls @ t"] by (simp add: lines_of_Cons)
  with Cons show ?case by auto
qed (simp add: lines_of_def)

lemma prefix_of_line:
  assumes "is_prefix q (l @ x # b)" and "x \<notin> set q"
  shows "is_prefix q l"
proof (cases "length q \<le> length l")
  case True
  with assms(1) show ?thesis by (simp add: is_prefix_iff)
next
  case False
  then have "x \<in> set (take (length q) (l @ x # b))" by (simp add: take_Cons')
  with assms show ?thesis by (simp add: is_prefix_iff)
qed

lemma lines_of_split: "ls \<noteq> [] \<Longrightarrow> \<exists>a. lines_of ls = a @ [CHR 0x0A]"
proof (induction ls rule: rev_induct)
  case (snoc l ls)
  have "lines_of (ls @ [l]) = (lines_of ls @ l) @ [CHR 0x0A]" by (simp add: lines_of_def nl_def)
  then show ?case by blast
qed simp

lemma apart_lines:
  assumes m: "m \<noteq> []" "CHR 0x0A \<notin> set m" and "ls \<noteq> []"
    and "list_all (\<lambda>l. find_sub m l = None) (t # ls)" and "\<not> runs_into m (hd ls)" and "\<not> runs_into t m"
  shows "apart m (lines_of ls @ t)"
proof -
  let ?p = "lines_of ls @ t"
  obtain l r where ls: "ls = l # r" using assms(3) by (cases ls) auto
  obtain a where a: "lines_of ls = a @ [CHR 0x0A]" using lines_of_split [OF assms(3)] by blast
  have p: "?p = l @ CHR 0x0A # (lines_of r @ t)" by (simp add: ls lines_of_Cons)
  have out: "\<not> occurs m ?p"
    using occurs_lines [OF _ m(2), of ls t] assms(4) by (fastforce simp: list_all_iff occurs_find)
  have "\<not> clash m ?p"
  proof
    assume "clash m ?p"
    then obtain d where d: "d < length m" "is_prefix (drop d m) ?p \<or> is_prefix ?p (drop d m)"
      unfolding clash_iff by blast
    have "CHR 0x0A \<notin> set (drop d m)" using m(2) by (meson in_set_dropD)
    moreover have "\<not> is_prefix ?p (drop d m)"
    proof
      assume "is_prefix ?p (drop d m)"
      then have "set ?p \<subseteq> set (drop d m)" by (metis is_prefix_split set_append Un_upper1)
      with p calculation show False by auto
    qed
    ultimately have "is_prefix (drop d m) l" using d(2) prefix_of_line [of "drop d m" l] p by auto
    with d(1) assms(5) ls show False by (auto simp: runs_into_iff)
  qed
  moreover have "\<not> clash ?p m"
  proof
    assume "clash ?p m"
    then obtain d where d: "d < length ?p" "is_prefix (drop d ?p) m \<or> is_prefix m (drop d ?p)"
      unfolding clash_iff by blast
    have "\<not> is_prefix m (drop d ?p)" using clash_find [of m d ?p] out by (auto simp: occurs_find)
    with d have i: "is_prefix (drop d ?p) m" by blast
    then have n: "CHR 0x0A \<notin> set (drop d ?p)" using m(2) by (metis is_prefix_split set_append UnI1)
    have "length (lines_of ls) \<le> d"
    proof (rule ccontr)
      assume "\<not> length (lines_of ls) \<le> d"
      then have "CHR 0x0A \<in> set (drop d ?p)" using a by simp
      with n show False by blast
    qed
    then have e: "drop d ?p = drop (d - length (lines_of ls)) t" "d - length (lines_of ls) < length t"
      using d(1) by auto
    with i assms(6) show False by (auto simp: runs_into_iff)
  qed
  ultimately show ?thesis using m(1) p unfolding apart_code by simp
qed

lemmas apart_only_lines = apart_lines [where t = "[]", simplified append_Nil2]

section \<open>What a list of edits keeps out and keeps in\<close>

text \<open>
  An edit keeps \<open>m\<close> out when the text it inserts cannot form \<open>m\<close>, not even
  together with what stands around it; it keeps \<open>m\<close> in when it takes away nothing
  that overlaps \<open>m\<close> and inserts nothing inside it.
\<close>

fun one_line :: "string \<Rightarrow> bool" where
  "one_line [] = True"
| "one_line [c] = True"
| "one_line (c # d # cs) = (if c = CHR 0x0A then False else one_line (d # cs))"

lemma one_line_butlast: "one_line m \<longleftrightarrow> CHR 0x0A \<notin> set (butlast m)"
  by (induction m rule: one_line.induct) auto

fun keeps_out :: "string \<Rightarrow> edit \<Rightarrow> bool" where
  "keeps_out m (Once old new) \<longleftrightarrow> old \<noteq> [] \<and> apart m new"
| "keeps_out m (Entry signature body) \<longleftrightarrow> apart m body"
| "keeps_out m (Want p n) \<longleftrightarrow> True"
| "keeps_out m (Add s) \<longleftrightarrow> apart m s"
| "keeps_out m (All p n) \<longleftrightarrow> apart m n"
| "keeps_out m _ \<longleftrightarrow> False"

fun keeps_in :: "string \<Rightarrow> edit \<Rightarrow> bool" where
  "keeps_in m (Once old new) \<longleftrightarrow> apart m old"
| "keeps_in m (Entry signature body) \<longleftrightarrow> one_line m"
| "keeps_in m (Want p n) \<longleftrightarrow> True"
| "keeps_in m (All p n) \<longleftrightarrow> apart m p"
| "keeps_in m (Add s) \<longleftrightarrow> True"
| "keeps_in m _ \<longleftrightarrow> False"

lemma occurs_left: "occurs m a \<Longrightarrow> occurs m (a @ b)"
  and occurs_right: "occurs m b \<Longrightarrow> occurs m (a @ b)"
  using occurs_append [of m a "[]" b] occurs_append [of m b a "[]"] by simp_all

lemma replace_all_keeps_out:
  "apart m n \<Longrightarrow> occurs m (replace_all p n s) \<Longrightarrow> occurs m s"
proof (induction p n s rule: replace_all.induct)
  case (1 p n s)
  note ne = apart_nonempty [OF 1(2)]
  show ?case
  proof (cases "p = [] \<or> find_sub p s = None")
    case True
    then have "replace_all p n s = s" by (subst replace_all.simps) auto
    with 1(3) show ?thesis by simp
  next
    case False
    then obtain i where i: "p \<noteq> []" "find_sub p s = Some i" by auto
    have s: "s = take i s @ p @ drop (i + length p) s" by (rule find_sub_split [OF i(2)])
    have r: "replace_all p n s = take i s @ n @ replace_all p n (drop (i + length p) s)"
      using i by (subst replace_all.simps) simp
    from ne have m: "m \<noteq> []" "n \<noteq> []" by simp_all
    from occurs_apart [OF 1(2) m r 1(3)] show ?thesis
    proof
      assume "occurs m (take i s)"
      with s show ?thesis using occurs_left by metis
    next
      assume "occurs m (replace_all p n (drop (i + length p) s))"
      from 1(1) [OF i 1(2) this] s show ?thesis using occurs_right by metis
    qed
  qed
qed

lemma replace_all_gone: "apart p n \<Longrightarrow> \<not> occurs p (replace_all p n s)"
proof (induction p n s rule: replace_all.induct)
  case (1 p n s)
  from apart_nonempty [OF 1(2)] have ne: "p \<noteq> []" "n \<noteq> []" by simp_all
  show ?case
  proof (cases "find_sub p s")
    case None
    with ne(1) show ?thesis by (subst replace_all.simps) (simp add: occurs_find)
  next
    case (Some i)
    have r: "replace_all p n s = take i s @ n @ replace_all p n (drop (i + length p) s)"
      using Some ne(1) by (subst replace_all.simps) simp
    have "\<not> occurs p (take i s)"
    proof
      assume "occurs p (take i s)"
      then obtain a b where ab: "take i s = a @ p @ b" by (auto simp: occurs_def)
      then have "s = a @ p @ (b @ drop i s)" by (metis append.assoc append_take_drop_id)
      from find_sub_first [OF Some this] have "i \<le> length a" .
      moreover have "length (take i s) \<le> i" "0 < length p" using ne(1) by simp_all
      moreover have "length (take i s) = length a + (length p + length b)" using arg_cong [OF ab, of length] by simp
      ultimately show False by linarith
    qed
    with 1(1) [OF ne(1) Some 1(2)] occurs_apart [OF 1(2) ne r] show ?thesis by blast
  qed
qed

lemma keeps_out_text:
  assumes "edit_text sha e t = Inr u" and "keeps_out m e" and "m \<noteq> []" and "occurs m u"
  shows "occurs m t"
proof (cases e)
  case (Once old new)
  with assms(1,2) have "once t old new = Inr u" "old \<noteq> []" using apart_nonempty by auto
  from once_Inr [OF this] obtain a b where ab: "t = a @ old @ b" "u = a @ new @ b" by blast
  have c: "new \<noteq> []" "apart m new" using assms(2) Once apart_nonempty by auto
  from occurs_apart [OF c(2) assms(3) c(1) ab(2) assms(4)] ab(1) show ?thesis
    using occurs_left occurs_right by metis
next
  case (Entry s body)
  with assms(1) have "at_entry t s body = Inr u" by simp
  from at_entry_split [OF this] obtain a b where
      ab: "t = a @ b" "u = a @ body @ b" "a \<noteq> []" "last a = CHR 0x0A" by metis
  have c: "body \<noteq> []" "apart m body" using assms(2) Entry apart_nonempty by auto
  from occurs_apart [OF c(2) assms(3) c(1) ab(2) assms(4)] ab(1) show ?thesis
    using occurs_left occurs_right by metis
next
  case (All p n)
  with assms replace_all_keeps_out [of m n p t] show ?thesis by simp
next
  case (Want p n)
  with assms show ?thesis by (simp split: if_splits)
next
  case (Add s)
  with assms(1) have u: "u = t @ s @ []" by simp
  have s: "apart m s" "s \<noteq> []" using assms(2) Add apart_nonempty by auto
  have "\<not> occurs m []" using assms(3) by (simp add: occurs_def)
  with occurs_apart [OF s(1) assms(3) s(2) u assms(4)] show ?thesis by blast
qed (use assms(2) in simp_all)

lemma keeps_out_all:
  "edit_all sha es t = Inr u \<Longrightarrow> list_all (keeps_out m) es \<Longrightarrow> m \<noteq> [] \<Longrightarrow> occurs m u \<Longrightarrow> occurs m t"
proof (induction es arbitrary: t)
  case (Cons e es)
  then obtain v where v: "edit_text sha e t = Inr v" "edit_all sha es v = Inr u" by (auto split: sum.splits)
  from Cons.IH [OF v(2)] Cons.prems keeps_out_text [OF v(1)] show ?case by simp
qed simp

text \<open>The only occurrence of what \<open>once\<close> replaces is gone.\<close>

lemma once_gone:
  assumes "once t old new = Inr u" and "apart old new"
  shows "\<not> occurs old u"
proof
  assume o: "occurs old u"
  note n = apart_nonempty [OF assms(2)]
  from n have ne: "old \<noteq> []" "new \<noteq> []" by simp_all
  from once_Inr [OF assms(1) ne(1)] obtain a b where ab: "t = a @ old @ b" "u = a @ new @ b" "find_sub old b = None"
    and first: "\<And>a' b'. t = a' @ old @ b' \<Longrightarrow> length a \<le> length a'" by blast
  from occurs_apart [OF assms(2) ne ab(2) o] ab(3) have "occurs old a" by (auto simp: occurs_find)
  then obtain x y where "a = x @ old @ y" by (auto simp: occurs_def)
  with first [of x "y @ old @ b"] ab(1) ne(1) show False by simp
qed

text \<open>What is inserted stays.\<close>

lemma inserted_between:
  assumes "occurs m (a @ b)" and "m \<noteq> []" and "a \<noteq> []" "last a = CHR 0x0A" and "CHR 0x0A \<notin> set (butlast m)"
  shows "occurs m a \<or> occurs m b"
proof -
  obtain x y where xy: "a @ b = x @ m @ y" using assms(1) by (auto simp: occurs_def)
  then obtain us where "a = x @ us \<and> us @ b = m @ y \<or> a @ us = x \<and> b = us @ m @ y"
    unfolding append_eq_append_conv2 by blast
  then show ?thesis
  proof
    assume "a @ us = x \<and> b = us @ m @ y"
    then show ?thesis by (auto simp: occurs_def)
  next
    assume u: "a = x @ us \<and> us @ b = m @ y"
    then obtain vs where v: "us = m @ vs \<and> vs @ b = y \<or> us @ vs = m \<and> b = vs @ y"
      unfolding append_eq_append_conv2 by blast
    then show ?thesis
    proof
      assume "us = m @ vs \<and> vs @ b = y"
      with u show ?thesis by (auto simp: occurs_def)
    next
      assume w: "us @ vs = m \<and> b = vs @ y"
      show ?thesis
      proof (cases "us = [] \<or> vs = []")
        case True
        with u w have "b = [] @ m @ y \<or> a = x @ m @ []" by auto
        then show ?thesis unfolding occurs_def by blast
      next
        case False
        with u assms(4) have "last us = CHR 0x0A" by simp
        moreover have "last us \<in> set us" using False by simp
        moreover have "set us \<subseteq> set (butlast m)" using w False by (auto simp: butlast_append)
        ultimately show ?thesis using assms(5) by auto
      qed
    qed
  qed
qed

lemma keeps_in_text:
  assumes "edit_text sha e t = Inr u" and "keeps_in m e" and "m \<noteq> []" and "occurs m t"
  shows "occurs m u"
proof (cases e)
  case (Once old new)
  with assms(1,2) have "once t old new = Inr u" "old \<noteq> []" using apart_nonempty by auto
  from once_Inr [OF this] obtain a b where ab: "t = a @ old @ b" "u = a @ new @ b" by blast
  have c: "old \<noteq> []" "apart m old" using assms(2) Once apart_nonempty [of m old] by auto
  from occurs_apart [OF c(2) assms(3) c(1) ab(1) assms(4)] ab(2) show ?thesis
    using occurs_left occurs_right by metis
next
  case (Entry s body)
  with assms(1) have "at_entry t s body = Inr u" by simp
  from at_entry_split [OF this] obtain a b where
      ab: "t = a @ b" "u = a @ body @ b" "a \<noteq> []" "last a = CHR 0x0A" by metis
  have "occurs m a \<or> occurs m b"
    by (rule inserted_between [OF _ assms(3) ab(3,4)]) (use assms(2,4) Entry ab(1) in \<open>auto simp: one_line_butlast\<close>)
  then show ?thesis unfolding ab(2) using occurs_left occurs_right by metis
next
  case (All p n)
  with assms occurs_replace_all [of m p t n] apart_nonempty [of m p] show ?thesis by auto
next
  case (Want p n)
  with assms show ?thesis by (simp split: if_splits)
next
  case (Add s)
  with assms occurs_left show ?thesis by auto
qed (use assms(2) in simp_all)

lemma keeps_in_all:
  "edit_all sha es t = Inr u \<Longrightarrow> list_all (keeps_in m) es \<Longrightarrow> m \<noteq> [] \<Longrightarrow> occurs m t \<Longrightarrow> occurs m u"
proof (induction es arbitrary: t)
  case (Cons e es)
  then obtain v where v: "edit_text sha e t = Inr v" "edit_all sha es v = Inr u" by (auto split: sum.splits)
  from Cons.IH [OF v(2)] Cons.prems keeps_in_text [OF v(1)] show ?case by simp
qed simp

fun inserts :: "edit \<Rightarrow> string" where
  "inserts (Once old new) = new"
| "inserts (Entry signature body) = body"
| "inserts (Add s) = s"
| "inserts _ = []"

fun plain :: "edit \<Rightarrow> bool" where
  "plain (Once old new) \<longleftrightarrow> old \<noteq> []"
| "plain (Entry signature body) \<longleftrightarrow> True"
| "plain (Add s) \<longleftrightarrow> True"
| "plain _ \<longleftrightarrow> False"

lemma inserted_occurs:
  assumes "edit_text sha e t = Inr u" and "plain e"
  shows "occurs (inserts e) u"
proof (cases e)
  case (Once old new)
  with assms have "once t old new = Inr u" "old \<noteq> []" by simp_all
  from once_Inr [OF this] obtain a b where "u = a @ new @ b" by blast
  then show ?thesis using Once by (auto simp: occurs_def)
next
  case (Entry s body)
  with assms(1) have "at_entry t s body = Inr u" by simp
  from at_entry_split [OF this] obtain a b where "u = a @ body @ b" by metis
  then show ?thesis using Entry by (auto simp: occurs_def)
next
  case (Add s)
  with assms have "u = t @ s @ []" by simp
  then have "occurs s u" unfolding occurs_def by blast
  then show ?thesis using Add by simp
qed (use assms in simp_all)

section \<open>Checks on a list of edits\<close>

text \<open>
  \<open>removed m es\<close>: some edit takes every \<open>m\<close> out and the later ones keep it out;
  \<open>inserted m es\<close>: some edit puts \<open>m\<close> in and the later ones keep it in.
\<close>

fun takes_out :: "string \<Rightarrow> edit \<Rightarrow> bool" where
  "takes_out m (Once old new) = (if old = m then apart m new else False)"
| "takes_out m (All p n) = (if p = m then apart m n else False)"
| "takes_out m _ = False"

fun removed :: "string \<Rightarrow> edit list \<Rightarrow> bool" where
  "removed m [] = False"
| "removed m (e # es) = (if takes_out m e then list_all (keeps_out m) es else removed m es)"

fun inserted :: "string \<Rightarrow> edit list \<Rightarrow> bool" where
  "inserted m [] = False"
| "inserted m (e # es) =
     (if plain e \<and> m \<noteq> [] \<and> find_sub m (inserts e) \<noteq> None then list_all (keeps_in m) es else inserted m es)"

lemma takes_out_text: "edit_text sha e t = Inr u \<Longrightarrow> takes_out m e \<Longrightarrow> \<not> occurs m u"
  by (cases e) (auto split: if_splits dest: once_gone replace_all_gone)

lemma takes_out_nonempty: "takes_out m e \<Longrightarrow> m \<noteq> []"
  using apart_nonempty by (cases e) (auto split: if_splits)

lemma removed_gone: "removed m es \<Longrightarrow> edit_all sha es t = Inr u \<Longrightarrow> \<not> occurs m u"
proof (induction es arbitrary: t)
  case (Cons e es)
  from Cons.prems(2) obtain v where v: "edit_text sha e t = Inr v" "edit_all sha es v = Inr u"
    by (auto split: sum.splits)
  show ?case
  proof (cases "takes_out m e")
    case True
    with Cons.prems(1) have "list_all (keeps_out m) es" by simp
    from keeps_out_all [OF v(2) this takes_out_nonempty [OF True]] takes_out_text [OF v(1) True]
    show ?thesis by blast
  next
    case False
    with Cons.prems(1) Cons.IH [OF _ v(2)] show ?thesis by simp
  qed
qed simp

lemma inserted_present: "inserted m es \<Longrightarrow> edit_all sha es t = Inr u \<Longrightarrow> occurs m u"
proof (induction es arbitrary: t)
  case (Cons e es)
  from Cons.prems(2) obtain v where v: "edit_text sha e t = Inr v" "edit_all sha es v = Inr u"
    by (auto split: sum.splits)
  show ?case
  proof (cases "plain e \<and> m \<noteq> [] \<and> find_sub m (inserts e) \<noteq> None")
    case True
    with Cons.prems(1) have k: "list_all (keeps_in m) es" by simp
    have m: "plain e" "m \<noteq> []" "occurs m (inserts e)" using True by (simp_all add: occurs_find)
    from inserted_occurs [OF v(1) m(1)] m(3) have "occurs m v"
      unfolding occurs_def by (metis append.assoc)
    from keeps_in_all [OF v(2) k m(2) this] show ?thesis .
  next
    case False
    with Cons.prems(1) Cons.IH [OF _ v(2)] show ?thesis by auto
  qed
qed simp

section \<open>Every file is edited, in order, or none\<close>

lemma make_changes_paths: "make_changes sha table original = Inr cs \<Longrightarrow> map fst cs = map fst original"
  by (induction original arbitrary: cs) (auto split: option.splits sum.splits)

lemma make_changes_edited:
  "make_changes sha table original = Inr cs \<Longrightarrow> (p, u) \<in> set cs \<Longrightarrow>
     \<exists>t es. (p, t) \<in> set original \<and> table p = Some es \<and> edit_all sha es t = Inr u"
proof (induction original arbitrary: cs)
  case (Cons pt original)
  obtain q t where q: "pt = (q, t)" by (cases pt)
  with Cons.prems obtain es v ds where d: "table q = Some es" "edit_all sha es t = Inr v"
      "make_changes sha table original = Inr ds" "cs = (q, v) # ds"
    by (auto split: option.splits sum.splits)
  from Cons.prems(2) d(4) consider "p = q" "u = v" | "(p, u) \<in> set ds" by auto
  then show ?case
  proof cases
    case 1
    with d q show ?thesis by auto
  next
    case 2
    with Cons.IH [OF d(3)] show ?thesis by auto
  qed
qed simp

end
