(* ===== verification/Overlay_Sunshine.thy ===== *)
theory Overlay_Sunshine
  imports Overlay_Edits
begin

text \<open>
  \<open>tools/apply_sunshine.py\<close>: the table of edits for each of the sixteen files of
  the pinned Sunshine, \<open>main\<close> with its checks, write and roll-back, and what the
  edited sources contain whatever the pinned texts are: a guard in front of every
  entry that would touch the desktop, the password gate, and none of the
  statements that log decrypted or private content.

  The patch that \<open>main\<close> prints or stores is not modelled.
\<close>

definition PIN :: string where
  "PIN = ''63d35f702ee9e362e43263742981836ec0710384''"

definition FILES :: "string list" where
  "FILES =
     [''src/video.h'',
      ''src/rtsp.h'',
      ''src/video.cpp'',
      ''src/input.cpp'',
      ''src/platform/virtualhid_input.cpp'',
      ''src/platform/linux/misc.cpp'',
      ''src/audio.cpp'',
      ''src/httpcommon.cpp'',
      ''src/nvhttp.cpp'',
      ''src/nvhttp.h'',
      ''src/rtsp.cpp'',
      ''src/stream.cpp'',
      ''src/thread_safe.h'',
      ''cmake/compile_definitions/linux.cmake'',
      ''cmake/targets/common.cmake'',
      ''CMakeLists.txt'']"

definition local_include :: edit where
  "local_include = Once (''// local includes'' @ nl)
        (lines_of
           [''// local includes'',
            ''#include \"src/rkmoon/rkmoon_bridge.hpp\"''])"

definition own_includes :: "string list" where
  "own_includes =
     [''src/thread_safe.h'',
      ''CMakeLists.txt'',
      ''cmake/targets/common.cmake'',
      ''src/nvhttp.h'',
      ''src/video.h'',
      ''src/rtsp.h'',
      ''cmake/compile_definitions/linux.cmake'']"

definition video_h_anchor :: "string" where
  "video_h_anchor =
     ''    int enableIntraRefresh;  ///< Intra refresh setting: 0 = disabled, 1 = enabled.'' @ nl"

definition video_h_edits :: "edit list" where
  "video_h_edits =
     [Once video_h_anchor
         (video_h_anchor
           @ ''    bool rkmoon_absolute_mouse = false;'' @ nl)]"

definition rtsp_h_anchor :: "string" where
  "rtsp_h_anchor =
     ''    std::string client_cert;  ///< PEM certificate for the paired Moonlight client.'' @ nl"

definition rtsp_h_edits :: "edit list" where
  "rtsp_h_edits =
     [Once rtsp_h_anchor
         (rtsp_h_anchor
           @ ''    bool rkmoon_absolute_mouse = false;'' @ nl)]"

definition video_cpp_edits :: "edit list" where
  "video_cpp_edits =
     [Entry ''  void capture(safe::mail_t mail, config_t config, void *channel_data)''
         (''    if (rkmoon_sunshine::enabled()) { rkmoon_sunshine::capture(std::move(mail), config, channel_data); return; }'' @ nl),
      Entry ''  int probe_encoders()''
         (''    if (rkmoon_sunshine::enabled()) { return rkmoon_sunshine::probe(); }'' @ nl)]"

definition input_cpp_edits :: "edit list" where
  "input_cpp_edits =
     [Once (''    task_pool.pushDelayed([]() {'' @ nl
           @ ''      platf::move_mouse(platf_input, 1, 1);'')
         (lines_of
            [''    task_pool.pushDelayed([]() {'',
             ''      if (rkmoon_sunshine::enabled()) return; // HDMI needs no desktop cursor wake; preserve selected USB mode.'']
           @ ''      platf::move_mouse(platf_input, 1, 1);''),
      Entry ''  void print(void *payload)''
         (''    if (rkmoon_sunshine::enabled()) { return; } // Never log decoded input, even at verbose.'' @ nl),
      Entry ''  inline int apply_shortcut(short keyCode)''
         (''    if (rkmoon_sunshine::enabled()) { return 0; } // Send shortcuts to the USB host, not T6.'' @ nl)]"

definition virtualhid_input_cpp_calls :: "(string \<times> string) list" where
  "virtualhid_input_cpp_calls =
     [(''  void move_mouse(input_t &input, int deltaX, int deltaY)'', ''rkmoon_sunshine::relative(deltaX, deltaY);''),
      (''  void abs_mouse(input_t &input, const touch_port_t &touch_port, float x, float y)'', ''rkmoon_sunshine::absolute(touch_port, x, y);''),
      (''  void button_mouse(input_t &input, int button, bool release)'', ''rkmoon_sunshine::button(button, release);''),
      (''  void scroll(input_t &input, int high_res_distance)'', ''rkmoon_sunshine::scroll(0, high_res_distance);''),
      (''  void hscroll(input_t &input, int high_res_distance)'', ''rkmoon_sunshine::scroll(high_res_distance, 0);''),
      (''  void keyboard_update(input_t &input, uint16_t modcode, bool release, uint8_t flags)'', ''rkmoon_sunshine::key(modcode, release, flags);''),
      (''  void unicode(input_t &input, const char *utf8, int size)'', ''/* No clipboard/text injection. */''),
      (''  void touch_update(client_input_t *input, const touch_port_t &touch_port, const touch_input_t &touch)'', ''/* No touch injection. */''),
      (''  void pen_update(client_input_t *input, const touch_port_t &touch_port, const pen_input_t &pen)'', ''/* No pen injection. */'')]"

definition virtualhid_input_cpp_edits1 :: "edit list" where
  "virtualhid_input_cpp_edits1 =
     [Entry ''  std::unique_ptr<lvh::Runtime> create_runtime(lvh::BackendKind backend)''
         (''    if (rkmoon_sunshine::enabled()) { return {}; } // No T6 uinput/libvirtualhid devices.'' @ nl)]"

definition virtualhid_input_cpp_edits :: "edit list" where
  "virtualhid_input_cpp_edits =
     virtualhid_input_cpp_edits1 @ map (\<lambda>(signature, call). Entry signature (''    if (rkmoon_sunshine::enabled()) { '' @ call @ '' return; }'' @ nl)) virtualhid_input_cpp_calls"

definition linux_misc_cpp_edits :: "edit list" where
  "linux_misc_cpp_edits =
     [Entry ''  fs::path appdata()''
         (''    if (rkmoon_sunshine::enabled()) { auto base = fs::path(lizardbyte::common::get_env(\"XDG_CONFIG_HOME\")); return base.is_absolute() ? base / \"sunshine\" : fs::path(\"/nonexistent/rkmoon-private-state-required\"); } // Never migrate an installed Sunshine state.'' @ nl),
      Entry ''  std::unique_ptr<deinit_t> init()''
         (''    if (rkmoon_sunshine::enabled()) { return std::make_unique<deinit_t>(); } // No EGL/desktop capture initialization.'' @ nl)]"

definition audio_cpp_edits :: "edit list" where
  "audio_cpp_edits =
     [Entry ''  void capture(safe::mail_t mail, config_t config, void *channel_data)''
         (''    if (rkmoon_sunshine::enabled()) { rkmoon_sunshine::audio_capture(std::move(mail), config, channel_data); return; }'' @ nl)]"

definition httpcommon_cpp_edits :: "edit list" where
  "httpcommon_cpp_edits =
     [Entry ''  int init()''
         (''    if (rkmoon_sunshine::enabled()) { unique_id = uuid_util::uuid_t::generate().string(); return 0; } // HTTP-only: no TLS credentials needed.'' @ nl),
      Once ''      BOOST_LOG(info) << \"Open the Web UI to set your new username and password and getting started\";''
         ''      BOOST_LOG(info) << \"RKMoon IP/password authentication over HTTPS; no Web UI\";'']"

definition nvhttp_h_edits :: "edit list" where
  "nvhttp_h_edits =
     [Once (''#include <string_view>'' @ nl)
         (lines_of
            [''#include <string_view>'',
             ''#include <stop_token>'']),
      Once ''  bool pin(std::string_view pairing_id, std::string pin, std::string name);''
         ''  bool pin(std::string_view pairing_id, std::string pin, std::string name, std::stop_token stop = {});'']"

definition nvhttp_cpp_prefix_edit :: "string \<Rightarrow> edit" where
  "nvhttp_cpp_prefix_edit prefix =
     (let anchor = ''    ''
         @ prefix
         @ '' launch_session = make_launch_session(host_audio, args);''
      in Once anchor
             (lines_of
                [''    const auto rkmoon_mode = rkmoon_sunshine::mouse_mode(args);'',
                 ''    if (!rkmoon_mode.has_value()) {'',
                 ''      tree.put(\"root.resume\", 0);'',
                 ''      tree.put(\"root.<xmlattr>.status_code\", 400);'',
                 ''      tree.put(\"root.<xmlattr>.status_message\", \"Unsupported RKMoon mouse mode\");'',
                 ''      return;'',
                 ''    }'']
               @ anchor
               @ nl
               @ ''    launch_session->rkmoon_absolute_mouse = *rkmoon_mode;''))"

definition nvhttp_cpp_edits1 :: "edit list" where
  "nvhttp_cpp_edits1 =
     [Once (''// local includes'' @ nl)
         (lines_of
            [''// local includes'',
             ''#include \"src/rkmoon/rkmoon_display.hpp\"'']),
      Once ''    tree.put(\"root.PairStatus\", pair_status);''
         (''    rkmoon_sunshine::put_display_info(tree);'' @ nl
           @ ''    tree.put(\"root.PairStatus\", pair_status);''),
      Entry ''  void print_req(std::shared_ptr<typename SimpleWeb::ServerBase<T>::Request> request)''
         (''    if (rkmoon_sunshine::enabled()) { BOOST_LOG(debug) << \"RKMoon GameStream request (content redacted)\"; return; }'' @ nl),
      Once ''    BOOST_LOG(debug) << sess.client.cert;''
         ''    BOOST_LOG(debug) << \"RKMoon pairing certificate received (redacted)\";'',
      Once ''        BOOST_LOG(debug) << subject_name << \" -- \"sv << (verified ? \"verified\"sv : \"denied\"sv);''
         ''        BOOST_LOG(debug) << \"Client certificate \" << (verified ? \"verified\"sv : \"denied\"sv);'',
      Once ''  bool pin(const std::string_view pairing_id, std::string pin, std::string name) {''
         ''  bool pin(const std::string_view pairing_id, std::string pin, std::string name, std::stop_token stop) {'',
      Once ''completion_deadline = std::min(sess.async_insert_pin.expires_at, now + config::stream.ping_timeout);''
         ''completion_deadline = std::min({sess.async_insert_pin.expires_at, now + config::stream.ping_timeout, now + std::chrono::seconds(30)});'',
      Once (lines_of
            [''      if (completion->condition.wait_until(lock, completion_deadline, [&completion]() {'',
             ''            return completion->result.has_value();'',
             ''          })) {'',
             ''        return *completion->result;'',
             ''      }''])
         (lines_of
            [''      // Bounded wait so SIGTERM cannot stall the admin socket worker for'',
             ''      // an operator-configured multi-minute ping_timeout.'',
             ''      while (!stop.stop_requested() && std::chrono::steady_clock::now() < completion_deadline) {'',
             ''        if (completion->condition.wait_until(lock, std::min(completion_deadline,'',
             ''              std::chrono::steady_clock::now() + std::chrono::milliseconds(100)), [&completion]() {'',
             ''              return completion->result.has_value();'',
             ''            })) return *completion->result;'',
             ''      }'']),
      Once (''    // Verify certificates after establishing connection'' @ nl)
         (''    // Password authentication replaces client certificate enrollment.'' @ nl),
      Once (lines_of
            [''    if (!clean_slate) {'',
             ''      load_state();'']
           @ ''    }'')
         (lines_of
            [''    if (!clean_slate) {'',
             ''      load_state();'',
             ''      if (!fs::exists(config::nvhttp.file_state)) save_state();'']
           @ ''    }''),
      Once (''// local includes'' @ nl)
         (lines_of
            [''// local includes'',
             ''#include \"src/rkmoon/rkmoon_password.hpp\"''])]"

definition nvhttp_cpp_edits2 :: "edit list" where
  "nvhttp_cpp_edits2 =
     [Once (lines_of
            [''    https_server.verify = [](SSL *ssl) {'',
             ''      crypto::x509_t x509 {'',
             ''#if OPENSSL_VERSION_MAJOR >= 3'',
             ''        SSL_get1_peer_certificate(ssl)'',
             ''#else'',
             ''        SSL_get_peer_certificate(ssl)'',
             ''#endif'',
             ''      };'',
             ''      if (!x509) {'',
             ''        BOOST_LOG(info) << \"unknown -- denied\"sv;'',
             ''        return 0;'',
             ''      }'',
             '''',
             ''      int verified = 0;'',
             '''',
             ''      auto fg = util::fail_guard([&]() {'',
             ''        char subject_name[256];'',
             '''',
             ''        X509_NAME_oneline(X509_get_subject_name(x509.get()), subject_name, sizeof(subject_name));'',
             '''',
             ''        BOOST_LOG(debug) << \"Client certificate \" << (verified ? \"verified\"sv : \"denied\"sv);'',
             ''      });'',
             '''',
             ''      std::lock_guard lock {client_auth_mutex()};'',
             ''      auto err_str = verify_client_certificate(x509.get());'',
             ''      if (err_str) {'',
             ''        BOOST_LOG(warning) << \"SSL Verification error :: \"sv << err_str;'',
             '''',
             ''        return verified;'',
             ''      }'',
             '''',
             ''      // Check if this client is enabled'',
             ''      auto pem = crypto::pem(x509);'',
             ''      auto [enabled, client_name] = get_client_status(pem);'',
             ''      if (!enabled) {'',
             ''        BOOST_LOG(info) << \"Client is disabled -- denied\"sv;'',
             ''        return verified;'',
             ''      }'',
             '''',
             ''      last_verified_client_cert = pem;'',
             ''      last_verified_client_name = client_name;'',
             ''      verified = 1;'',
             '''',
             ''      return verified;'',
             ''    };'',
             ''''])
         [],
      Once (lines_of
            [''    https_server.resource[\"^/pair$\"][\"GET\"] = [](auto resp, auto req) {'',
             ''      pair<SunshineHTTPS>(resp, req);'']
           @ ''    };'')
         [],
      Once (lines_of
            [''    http_server.resource[\"^/pair$\"][\"GET\"] = [](auto resp, auto req) {'',
             ''      pair<SimpleWeb::HTTP>(resp, req);'']
           @ ''    };'')
         [],
      Once ''    tree.put(\"root.PairStatus\", pair_status);''
         (''    tree.put(\"root.RKMoonAuth\", \"password-v1\");'' @ nl
           @ ''    tree.put(\"root.PairStatus\", std::is_same_v<SunshineHTTPS, T> ? 1 : 0);'')]"

definition nvhttp_cpp_edits3 :: "edit list" where
  "nvhttp_cpp_edits3 =
     [Once ''    https_server.config.reuse_address = true;''
         (lines_of
            [''    // Authenticate every HTTPS request, including keep-alive requests.'',
             ''    rkmoon_sunshine::password_auth password;'',
             ''    for (auto &[path, methods] : https_server.resource) {'',
             ''      for (auto &[method, handler] : methods) {'',
             ''        handler = [&password, next = handler](auto response, auto request) {'',
             ''          const auto range = request->header.equal_range(\"Authorization\");'',
             ''          const bool single = range.first != range.second && std::next(range.first) == range.second;'',
             ''          if (!password.authorize(single ? std::string_view(range.first->second) : std::string_view{})) {'',
             ''            response->write(\"<root status_code='' @ bs @ ''\"401'' @ bs @ ''\" status_message='' @ bs @ ''\"Password authentication failed'' @ bs @ ''\"/>\");'',
             ''            response->close_connection_after_response = true;'',
             ''            return;'',
             ''          }'',
             ''          next(response, request);'',
             ''        };'',
             ''      }'',
             ''    }'',
             '''']
           @ ''    https_server.config.reuse_address = true;''),
      Once (lines_of
            [''    // Password authentication replaces client certificate enrollment.'',
             ''    https_server.on_verify_failed = [](resp_https_t resp, req_https_t req) {'',
             ''      pt::ptree tree;'',
             ''      auto g = util::fail_guard([&]() {'',
             ''        std::ostringstream data;'',
             '''',
             ''        pt::write_xml(data, tree);'',
             ''        resp->write(data.str());'',
             ''        resp->close_connection_after_response = true;'',
             ''      });'',
             '''',
             ''      tree.put(\"root.<xmlattr>.status_code\"s, 401);'',
             ''      tree.put(\"root.<xmlattr>.query\"s, req->path);'',
             ''      tree.put(\"root.<xmlattr>.status_message\"s, \"The client is not authorized. Certificate verification failed.\"s);'',
             ''    };'',
             ''''])
         [],
      Once (lines_of
            [''    auto pkey = file_handler::read_file(config::nvhttp.pkey.c_str());'',
             ''    auto cert = file_handler::read_file(config::nvhttp.cert.c_str());'',
             ''    setup(pkey, cert);''])
         [],
      Once (''    https_server_t https_server {config::nvhttp.cert, config::nvhttp.pkey};'' @ nl)
         [],
      Once (lines_of
            [''    https_server.config.reuse_address = true;'',
             ''    https_server.config.address = net::get_bind_address(address_family);'',
             ''    https_server.config.port = port_https;'',
             '''',
             ''    http_server.default_resource[\"GET\"] = not_found<SimpleWeb::HTTP>;'',
             ''    http_server.resource[\"^/serverinfo$\"][\"GET\"] = serverinfo<SimpleWeb::HTTP>;''])
         [],
      Once (''    std::jthread ssl {accept_and_run, &https_server};'' @ nl)
         [],
      Once (''    https_server.stop();'' @ nl)
         [],
      Once (''    ssl.join();'' @ nl)
         [],
      Once ''    tree.put(\"root.HttpsPort\", net::map_port(PORT_HTTPS));''
         ''    tree.put(\"root.HttpsPort\", 0);'',
      Once ''    tree.put(\"root.RKMoonAuth\", \"password-v1\");''
         ''    tree.put(\"root.RKMoonAuth\", \"password-http-v1\");'',
      Once ''    tree.put(\"root.PairStatus\", std::is_same_v<SunshineHTTPS, T> ? 1 : 0);''
         ''    tree.put(\"root.PairStatus\", 1);'',
      Once ''  using resp_https_t = std::shared_ptr<typename SimpleWeb::ServerBase<SunshineHTTPS>::Response>;''
         ''  using resp_https_t = std::shared_ptr<typename SimpleWeb::ServerBase<SimpleWeb::HTTP>::Response>;'',
      Once ''  using req_https_t = std::shared_ptr<typename SimpleWeb::ServerBase<SunshineHTTPS>::Request>;''
         ''  using req_https_t = std::shared_ptr<typename SimpleWeb::ServerBase<SimpleWeb::HTTP>::Request>;'',
      Want ''https_server.'' 8,
      All ''https_server.'' ''http_server.'',
      Want ''print_req<SunshineHTTPS>(request);'' 5,
      All ''print_req<SunshineHTTPS>(request);'' ''print_req<SimpleWeb::HTTP>(request);'',
      Once ''= not_found<SunshineHTTPS>;''
         ''= not_found<SimpleWeb::HTTP>;'',
      Once ''= serverinfo<SunshineHTTPS>;''
         ''= serverinfo<SimpleWeb::HTTP>;'',
      Once ''// Authenticate every HTTPS request''
         ''// Authenticate every HTTP request'']"

definition nvhttp_cpp_edits :: "edit list" where
  "nvhttp_cpp_edits =
     map nvhttp_cpp_prefix_edit [''auto'', ''const auto''] @ nvhttp_cpp_edits1 @ nvhttp_cpp_edits2 @ nvhttp_cpp_edits3"

definition stream_cpp_kind_edit :: "string \<Rightarrow> edit" where
  "stream_cpp_kind_edit kind =
     (let old = ''        BOOST_LOG(debug) << \"Received ''
         @ kind
         @ '' from \"sv << recv_peer.address() << '' @ sq @ '':'' @ sq @ '' << recv_peer.port() << \" [\"sv << util::hex_vec(msg) << '' @ sq @ '']'' @ sq @ '';'';
          new = ''        BOOST_LOG(debug) << \"Received ''
         @ kind
         @ '' (payload redacted)\";''
      in Once old
             new)"

definition stream_cpp_edits1 :: "edit list" where
  "stream_cpp_edits1 =
     [Once ''        << util::hex_vec(payload) << std::endl''
         ''        << \"[RKMoon control payload redacted]\" << std::endl'']"

definition stream_cpp_edits :: "edit list" where
  "stream_cpp_edits =
     stream_cpp_edits1 @ map stream_cpp_kind_edit [''ping [v2]'', ''ping [v1]'', ''non-ping'']"

definition rtsp_cpp_anchor :: "string" where
  "rtsp_cpp_anchor =
     ''    auto stream_session = stream::session::alloc(config, session);'' @ nl"

definition rtsp_cpp_edits :: "edit list" where
  "rtsp_cpp_edits =
     [Entry ''  void print_msg(PRTSP_MESSAGE msg)''
         (''    if (rkmoon_sunshine::enabled()) { BOOST_LOG(debug) << \"RKMoon RTSP message (content redacted)\"; return; }'' @ nl),
      Once ''          BOOST_LOG(debug) << \"Found Host: \"sv << content;''
         ''          BOOST_LOG(debug) << \"Found RTSP Host header (redacted)\";'',
      Once rtsp_cpp_anchor
         (lines_of
            [''    // RKMoon admission occurs AFTER upstream parsing/encryption validation and BEFORE input allocation.'',
             ''    if (rkmoon_sunshine::enabled()) {'',
             ''      if (server->session_count() != 0) {'',
             ''        respond(sock, session, &option, 453, \"RKMoon exclusive session busy\", req->sequenceNumber, {});'',
             ''        return;'',
             ''      }'',
             ''      config.monitor.rkmoon_absolute_mouse = session.rkmoon_absolute_mouse;'',
             ''      if (!rkmoon_sunshine::request_supported(config.monitor)) {'',
             ''        respond(sock, session, &option, 400, \"RKMoon unsupported mode or capture not authorized\", req->sequenceNumber, {});'',
             ''        return;'',
             ''      }'',
             ''    }'']
           @ rtsp_cpp_anchor)]"

definition thread_safe_h_anchor :: "string" where
  "thread_safe_h_anchor =
     ''    explicit queue_t(std::uint32_t max_elements = 32, overflow_policy_e overflow = overflow_policy_e::drop_oldest):''"

definition thread_safe_h_methods :: "string" where
  "thread_safe_h_methods =
     lines_of
       [''    // RKMoon producer-specific methods: bounded, locked, no implicit reference-frame loss.'',
        ''    bool rkmoon_try_raise(std::size_t limit, T &&item) {'',
        ''      std::lock_guard lock {_lock};'',
        ''      if (!_continue || _queue.size() >= limit) { return false; }'',
        ''      _queue.emplace_back(std::move(item));'',
        ''      _cv.notify_all();'',
        ''      return true;'',
        ''    }'',
        ''    std::size_t rkmoon_size() { std::lock_guard lock {_lock}; return _queue.size(); }'',
        ''    bool rkmoon_running() { std::lock_guard lock {_lock}; return _continue; }'',
        '''']"

definition thread_safe_h_edits :: "edit list" where
  "thread_safe_h_edits =
     [Once thread_safe_h_anchor
         (thread_safe_h_methods
           @ thread_safe_h_anchor)]"

definition linux_cmake_edits :: "edit list" where
  "linux_cmake_edits =
     [Once (''if(NOT ${CUDA_FOUND}'' @ nl
           @ ''        AND NOT ${LIBDRM_FOUND}'')
         (''if(NOT RKMOON_MINIMAL_BUILD AND NOT ${CUDA_FOUND}'' @ nl
           @ ''        AND NOT ${LIBDRM_FOUND}'')]"

definition common_cmake_edits :: "edit list" where
  "common_cmake_edits =
     [Cut (''#WebUI build'' @ nl) (''# docs'' @ nl)
         (lines_of
          [''# No NPM/Web UI target in this dedicated build.'',
           ''''])]"

definition cmakelists_txt_edits :: "edit list" where
  "cmakelists_txt_edits =
     [Once (''# setup compile definitions'' @ nl)
         (lines_of
            [''set(RKMOON_MINIMAL_BUILD ON) # Explicit external HDMI/MPP path; no desktop capture backend.'',
             ''set(SUNSHINE_ASSETS_DIR_DEF assets) # Main anchors cwd to this binary directory.'',
             ''# setup compile definitions'']),
      Once (''# target definitions'' @ nl)
         (lines_of
            [''# Only the GameStream host and RTSP network service; no Web UI, UPnP or desktop entrypoint.'',
             ''list(REMOVE_ITEM SUNSHINE_TARGET_FILES'',
             ''  \"${CMAKE_CURRENT_SOURCE_DIR}/src/main.cpp\"'',
             ''  \"${CMAKE_CURRENT_SOURCE_DIR}/src/confighttp.cpp\"'',
             ''  \"${CMAKE_CURRENT_SOURCE_DIR}/src/upnp.cpp\")'',
             ''list(APPEND SUNSHINE_TARGET_FILES \"${CMAKE_CURRENT_SOURCE_DIR}/src/rkmoon/rkmoon_main.cpp\")'',
             ''# target definitions'']),
      Add (lines_of
           ['''',
            ''# RKMoon dedicated HDMI build. Do not install over a pre-existing Sunshine.'',
            ''if(NOT CMAKE_SYSTEM_NAME STREQUAL \"Linux\")'',
            ''  message(FATAL_ERROR \"RKMoon overlay requires Linux\")'',
            ''endif()'',
            ''target_sources(sunshine PRIVATE'',
            ''  src/rkmoon/rkmoon_bridge.cpp'',
            ''  src/rkmoon/rkmoon_audio.cpp'',
            ''  src/rkmoon/core.cpp'',
            ''  src/rkmoon/annexb.cpp'',
            ''  src/rkmoon/hid_client.cpp)'',
            ''target_include_directories(sunshine PRIVATE'',
            ''  \"${CMAKE_CURRENT_SOURCE_DIR}\"'',
            ''  \"${CMAKE_CURRENT_SOURCE_DIR}/src/rkmoon/include\")'',
            ''find_library(RKMOON_ALSA_LIB asound REQUIRED)'',
            ''target_link_libraries(sunshine \"${RKMOON_ALSA_LIB}\")'',
            ''set_target_properties(sunshine PROPERTIES OUTPUT_NAME rkmoon-kvm)'',
            ''# Only compatibility defaults/artwork, never the Web UI tree.'',
            ''file(MAKE_DIRECTORY \"${CMAKE_CURRENT_BINARY_DIR}/assets\")'',
            ''configure_file(\"${CMAKE_CURRENT_SOURCE_DIR}/src/rkmoon/hdmi-apps.json\"'',
            ''  \"${CMAKE_CURRENT_BINARY_DIR}/assets/apps.json\" COPYONLY)'',
            ''configure_file(\"${CMAKE_CURRENT_SOURCE_DIR}/src_assets/common/assets/box.png\"'',
            ''  \"${CMAKE_CURRENT_BINARY_DIR}/assets/box.png\" COPYONLY)''])]"

definition sunshine_files :: "(string \<times> edit list) list" where
  "sunshine_files =
     [(''src/video.h'', video_h_edits),
      (''src/rtsp.h'', rtsp_h_edits),
      (''src/video.cpp'', video_cpp_edits),
      (''src/input.cpp'', input_cpp_edits),
      (''src/platform/virtualhid_input.cpp'', virtualhid_input_cpp_edits),
      (''src/platform/linux/misc.cpp'', linux_misc_cpp_edits),
      (''src/audio.cpp'', audio_cpp_edits),
      (''src/httpcommon.cpp'', httpcommon_cpp_edits),
      (''src/nvhttp.h'', nvhttp_h_edits),
      (''src/nvhttp.cpp'', nvhttp_cpp_edits),
      (''src/stream.cpp'', stream_cpp_edits),
      (''src/rtsp.cpp'', rtsp_cpp_edits),
      (''src/thread_safe.h'', thread_safe_h_edits),
      (''cmake/compile_definitions/linux.cmake'', linux_cmake_edits),
      (''cmake/targets/common.cmake'', common_cmake_edits),
      (''CMakeLists.txt'', cmakelists_txt_edits)]"

section \<open>The table of \<open>make_changes\<close>\<close>

definition sunshine_table :: "string \<Rightarrow> edit list option" where
  "sunshine_table p =
     map_option (\<lambda>es. (if p \<in> set own_includes then [] else [local_include]) @ es) (map_of sunshine_files p)"

section \<open>\<open>main\<close>\<close>

text \<open>
  \<open>listed\<close> are the paths \<open>git status\<close> looks at, \<open>overlay\<close> says that
  \<open>src/rkmoon\<close> is there; \<open>staged\<close> that the payload could be copied.  Writes fail
  as in \<open>apply_changes\<close>; the last attempt is the move of the payload.
\<close>

record checkout =
  head_commit :: string
  head_files :: files
  work :: files
  listed :: "string list"
  overlay :: bool

definition porcelain :: "checkout \<Rightarrow> string list" where
  "porcelain c = filter (\<lambda>p. work c p \<noteq> head_files c p) (listed c) @ (if overlay c then [''src/rkmoon/''] else [])"

definition read_files :: "files \<Rightarrow> string list \<Rightarrow> (string \<times> string) list res" where
  "read_files fs ps =
     (if list_ex (\<lambda>p. fs p = None) ps then Inl OSError else Inr (map (\<lambda>p. (p, the (fs p))) ps))"

definition roll_back :: "attempts \<Rightarrow> nat \<Rightarrow> (string \<times> string) list \<Rightarrow> checkout \<Rightarrow> checkout \<times> exn option" where
  "roll_back att n original c =
     (case restore att n original (work c) of
        (fs, True) \<Rightarrow> (c\<lparr>work := fs, overlay := False\<rparr>, Some OSError)
      | (fs, False) \<Rightarrow> (c\<lparr>work := fs\<rparr>, Some OSError))"

definition overlay_main ::
  "(string \<Rightarrow> string) \<Rightarrow> string \<Rightarrow> string list \<Rightarrow> (string \<Rightarrow> edit list option) \<Rightarrow>
   bool \<Rightarrow> bool \<Rightarrow> attempts \<Rightarrow> checkout \<Rightarrow> checkout \<times> exn option" where
  "overlay_main sha pin paths table do_apply staged att c =
     (if head_commit c \<noteq> pin then (c, Some PatchError)
      else if porcelain c \<noteq> [] then (c, Some PatchError)
      else
        (case read_files (work c) paths of
           Inl e \<Rightarrow> (c, Some e)
         | Inr original \<Rightarrow>
             (case make_changes sha table original of
                Inl e \<Rightarrow> (c, Some e)
              | Inr changes \<Rightarrow>
                  if \<not> do_apply then (c, None)
                  else if overlay c then (c, Some PatchError)
                  else if \<not> staged then (c, Some OSError)
                  else
                    (case write_changes att 0 changes (work c) of
                       (fs, n, False) \<Rightarrow> roll_back att n original (c\<lparr>work := fs\<rparr>)
                     | (fs, n, True) \<Rightarrow>
                         if att n \<noteq> None then roll_back att (n + 1) original (c\<lparr>work := fs\<rparr>)
                         else (c\<lparr>work := fs, overlay := True\<rparr>, None)))))"

definition apply_sunshine ::
  "(string \<Rightarrow> string) \<Rightarrow> bool \<Rightarrow> bool \<Rightarrow> attempts \<Rightarrow> checkout \<Rightarrow> checkout \<times> exn option" where
  "apply_sunshine sha = overlay_main sha PIN FILES sunshine_table"

section \<open>What the changed sources contain\<close>

lemma sunshine_edits:
  assumes "make_changes sha sunshine_table original = Inr cs" and "(p, u) \<in> set cs"
  obtains es t where "map_of sunshine_files p = Some es" "edit_all sha es t = Inr u"
proof -
  from make_changes_edited [OF assms] obtain t es where
      e: "sunshine_table p = Some es" "edit_all sha es t = Inr u" by blast
  from e(1) obtain es' where s: "map_of sunshine_files p = Some es'"
      "es = (if p \<in> set own_includes then [] else [local_include]) @ es'"
    by (auto simp: sunshine_table_def)
  from e(2) s(2) obtain v where "edit_all sha es' v = Inr u"
    by (auto simp del: edit_text.simps split: if_splits sum.splits)
  with s(1) that show ?thesis by blast
qed

fun entry_bodies :: "edit list \<Rightarrow> string list" where
  "entry_bodies [] = []"
| "entry_bodies (Entry signature body # es) = body # entry_bodies es"
| "entry_bodies (_ # es) = entry_bodies es"

definition guarded_files :: "(string \<times> edit list) list" where
  "guarded_files = filter (\<lambda>(p, es). p \<noteq> ''src/nvhttp.cpp'') sunshine_files"

lemma guards_inserted: "list_all (\<lambda>(p, es). list_all (\<lambda>b. inserted b es) (entry_bodies es)) guarded_files"
  by code_simp

definition password_gate :: string where
  "password_gate = ''if (!password.authorize(single''"

lemma insertedI: "plain e \<Longrightarrow> m \<noteq> [] \<Longrightarrow> occurs m (inserts e) \<Longrightarrow> list_all (keeps_in m) es \<Longrightarrow> inserted m (e # es)"
  by (simp add: occurs_find)

lemma occurs_line: "l \<in> set ls \<Longrightarrow> occurs m l \<Longrightarrow> occurs m (lines_of ls @ t)"
proof (induction ls)
  case (Cons k ls)
  show ?case
  proof (cases "l = k")
    case True
    with Cons.prems occurs_left [of m l "CHR 0x0A # lines_of ls @ t"] show ?thesis by (simp add: lines_of_Cons)
  next
    case False
    with Cons have "occurs m (lines_of ls @ t)" by simp
    with occurs_right [of m "lines_of ls @ t" "k @ [CHR 0x0A]"] show ?thesis by (simp add: lines_of_Cons)
  qed
qed simp

lemma gate_inserted: "inserted password_gate nvhttp_cpp_edits3"
proof -
  have "inserted password_gate (hd nvhttp_cpp_edits3 # tl nvhttp_cpp_edits3)"
  proof (rule insertedI)
    show "plain (hd nvhttp_cpp_edits3)" by (simp add: nvhttp_cpp_edits3_def)
    show "password_gate \<noteq> []" by (simp add: password_gate_def)
    let ?l = "''          if (!password.authorize(single ? std::string_view(range.first->second) : std::string_view{})) {''"
    have "occurs password_gate ?l" unfolding occurs_find by code_simp
    then show "occurs password_gate (inserts (hd nvhttp_cpp_edits3))"
      unfolding nvhttp_cpp_edits3_def list.sel inserts.simps by (intro occurs_line [of ?l]) simp_all
    show "list_all (keeps_in password_gate) (tl nvhttp_cpp_edits3)"
      unfolding nvhttp_cpp_edits3_def list.sel list.pred_inject keeps_in.simps
      by (intro conjI TrueI;
          (rule apart_only_lines, code_simp, code_simp, simp, code_simp, code_simp, code_simp) | code_simp)
  qed
  moreover have "nvhttp_cpp_edits3 = hd nvhttp_cpp_edits3 # tl nvhttp_cpp_edits3"
    by (simp add: nvhttp_cpp_edits3_def)
  ultimately show ?thesis by simp
qed


fun replaced_texts :: "edit list \<Rightarrow> string list" where
  "replaced_texts [] = []"
| "replaced_texts (Once old new # es) = old # replaced_texts es"
| "replaced_texts (_ # es) = replaced_texts es"

definition found_host :: string where
  "found_host = ''          BOOST_LOG(debug) << \"Found Host: \"sv << content;''"

definition banned :: "string \<Rightarrow> string list" where
  "banned p =
     (if p = ''src/stream.cpp'' then replaced_texts stream_cpp_edits
      else if p = ''src/rtsp.cpp'' then [found_host]
      else if p = ''src/nvhttp.cpp'' then [''https_server.'', ''print_req<SunshineHTTPS>(request);'']
      else [])"

lemma stream_removed: "list_all (\<lambda>m. removed m stream_cpp_edits) (replaced_texts stream_cpp_edits)"
  by code_simp

lemma http_removed:
  "list_all (\<lambda>m. removed m nvhttp_cpp_edits3) [''https_server.'', ''print_req<SunshineHTTPS>(request);'']"
  by code_simp

lemma host_removed: "removed found_host (tl rtsp_cpp_edits)"
proof -
  let ?e = "hd (tl rtsp_cpp_edits)" and ?f = "hd (tl (tl rtsp_cpp_edits))"
  have "takes_out found_host ?e" by code_simp
  moreover have "list_all (keeps_out found_host) [?f]"
    unfolding rtsp_cpp_edits_def list.sel list.pred_inject keeps_out.simps
    by (intro conjI TrueI; (rule apart_lines, code_simp, code_simp, simp, code_simp, code_simp, code_simp) | code_simp)
  ultimately have "removed found_host [?e, ?f]" by simp
  moreover have "tl rtsp_cpp_edits = [?e, ?f]" by (simp add: rtsp_cpp_edits_def)
  ultimately show ?thesis by metis
qed

lemma edit_all_suffix: "edit_all sha (es @ fs) t = Inr u \<Longrightarrow> \<exists>v. edit_all sha fs v = Inr u"
  by (induction es arbitrary: t) (auto simp del: edit_text.simps split: sum.splits)

lemma server_files:
  "map_of sunshine_files ''src/nvhttp.cpp'' = Some nvhttp_cpp_edits"
  "map_of sunshine_files ''src/stream.cpp'' = Some stream_cpp_edits"
  "map_of sunshine_files ''src/rtsp.cpp'' = Some rtsp_cpp_edits"
  by (simp_all add: sunshine_files_def)

text \<open>Whatever the pinned sources are, what the tables insert is there.\<close>

lemma guards_present:
  assumes "make_changes sha sunshine_table original = Inr cs" and "(p, u) \<in> set cs"
  shows "if p = ''src/nvhttp.cpp'' then occurs password_gate u
    else \<forall>b \<in> set (entry_bodies (the (map_of sunshine_files p))). occurs b u"
proof -
  from sunshine_edits [OF assms] obtain es t where e: "map_of sunshine_files p = Some es" "edit_all sha es t = Inr u"
    by blast
  show ?thesis
  proof (cases "p = ''src/nvhttp.cpp''")
    case True
    with e server_files(1) have "edit_all sha nvhttp_cpp_edits t = Inr u" by simp
    then obtain v where "edit_all sha nvhttp_cpp_edits3 v = Inr u"
      unfolding nvhttp_cpp_edits_def using edit_all_suffix by (metis append.assoc)
    from inserted_present [OF gate_inserted this] True show ?thesis by simp
  next
    case False
    with map_of_SomeD [OF e(1)] have "(p, es) \<in> set guarded_files" by (auto simp: guarded_files_def)
    with guards_inserted have "\<forall>b \<in> set (entry_bodies es). inserted b es" by (auto simp: list_all_iff)
    with inserted_present e False show ?thesis by auto
  qed
qed

text \<open>
  A changed file contains none of the statements that log a payload, a host
  header, a request, or that would serve the upstream HTTPS endpoints.
\<close>

lemma server_silent:
  assumes "make_changes sha sunshine_table original = Inr cs" and "(p, u) \<in> set cs" and "m \<in> set (banned p)"
  shows "\<not> occurs m u"
proof -
  from sunshine_edits [OF assms(1,2)] obtain es t where
      e: "map_of sunshine_files p = Some es" "edit_all sha es t = Inr u" by blast
  from assms(3) consider (stream) "p = ''src/stream.cpp''" "m \<in> set (replaced_texts stream_cpp_edits)"
    | (rtsp) "p = ''src/rtsp.cpp''" "m = found_host"
    | (http) "p = ''src/nvhttp.cpp''" "m \<in> set [''https_server.'', ''print_req<SunshineHTTPS>(request);'']"
    by (auto simp: banned_def split: if_splits)
  then show ?thesis
  proof cases
    case stream
    with stream_removed have "removed m stream_cpp_edits" by (auto simp: list_all_iff)
    with removed_gone e stream server_files(2) show ?thesis by auto
  next
    case rtsp
    have "rtsp_cpp_edits = [hd rtsp_cpp_edits] @ tl rtsp_cpp_edits" by (simp add: rtsp_cpp_edits_def)
    with e rtsp server_files(3) obtain v where "edit_all sha (tl rtsp_cpp_edits) v = Inr u"
      using edit_all_suffix by (metis option.inject)
    from removed_gone [OF host_removed this] rtsp show ?thesis by simp
  next
    case http
    with e server_files(1) obtain v where "edit_all sha nvhttp_cpp_edits3 v = Inr u"
      unfolding nvhttp_cpp_edits_def using edit_all_suffix by (metis append.assoc option.inject)
    from removed_gone [OF _ this] http_removed http show ?thesis by (auto simp: list_all_iff)
  qed
qed


text \<open>Small sources to which the tables apply.\<close>

definition audio_source :: string where
  "audio_source = lines_of
     [''// local includes'', ''  void capture(safe::mail_t mail, config_t config,'', ''    void *channel_data) {'', ''  }'']"

definition rtsp_source :: string where
  "rtsp_source = lines_of
     [''// local includes'', ''  void print_msg(PRTSP_MESSAGE msg) {'', found_host, ''  }''] @ rtsp_cpp_anchor"

lemma small_tables:
  "sunshine_table ''src/audio.cpp'' = Some (local_include # audio_cpp_edits)"
  "sunshine_table ''src/rtsp.cpp'' = Some (local_include # rtsp_cpp_edits)"
  by (simp_all add: sunshine_table_def sunshine_files_def own_includes_def)

lemma small_edits:
  "\<exists>u. edit_all id (local_include # audio_cpp_edits) audio_source = Inr u"
  "\<exists>u. edit_all id (local_include # rtsp_cpp_edits) rtsp_source = Inr u"
proof -
  have "case edit_all id (local_include # audio_cpp_edits) audio_source of Inl e \<Rightarrow> False | Inr u \<Rightarrow> True" by code_simp
  then show "\<exists>u. edit_all id (local_include # audio_cpp_edits) audio_source = Inr u" by (auto split: sum.splits)
  have "case edit_all id (local_include # rtsp_cpp_edits) rtsp_source of Inl e \<Rightarrow> False | Inr u \<Rightarrow> True" by code_simp
  then show "\<exists>u. edit_all id (local_include # rtsp_cpp_edits) rtsp_source = Inr u" by (auto split: sum.splits)
qed


lemma server_silent_witness:
  "\<exists>u. make_changes id sunshine_table [(''src/rtsp.cpp'', rtsp_source)] = Inr [(''src/rtsp.cpp'', u)] \<and>
     \<not> occurs found_host u"
proof -
  obtain u where u: "make_changes id sunshine_table [(''src/rtsp.cpp'', rtsp_source)] = Inr [(''src/rtsp.cpp'', u)]"
    using small_tables(2) small_edits(2) by (auto simp del: edit_all.simps)
  with server_silent [OF u, of "''src/rtsp.cpp''" u found_host] show ?thesis by (simp add: banned_def)
qed

section \<open>All or nothing\<close>

lemma read_files_Inr:
  "read_files fs ps = Inr original \<Longrightarrow> original = map (\<lambda>p. (p, the (fs p))) ps \<and> (\<forall>p \<in> set ps. fs p \<noteq> None)"
  by (auto simp: read_files_def list_ex_iff split: if_splits)

lemma roll_back_back:
  assumes "roll_back att n original c = (c', r)" and "\<And>k. n \<le> k \<Longrightarrow> att k = None"
    and "distinct (map fst original)"
  shows "\<forall>(p, t) \<in> set original. work c' p = Some t" and "overlay c' = False"
proof -
  obtain fs where f: "restore att n original (work c) = (fs, True)" using restore_works [of n att original "work c"] assms(2) by blast
  with assms(1) have "c' = c\<lparr>work := fs, overlay := False\<rparr>" by (simp add: roll_back_def)
  with restore_done [OF f assms(3)] show "\<forall>(p, t) \<in> set original. work c' p = Some t" "overlay c' = False" by auto
qed

lemma roll_back_rest:
  assumes "roll_back att n original c = (c', r)"
  shows "q \<notin> fst ` set original \<Longrightarrow> work c' q = work c q" and "r = Some OSError"
    and "head_files c' = head_files c" "head_commit c' = head_commit c" "listed c' = listed c"
proof -
  obtain fs ok where f: "restore att n original (work c) = (fs, ok)" by (metis surj_pair)
  note out = restore_outside [OF f]
  show "q \<notin> fst ` set original \<Longrightarrow> work c' q = work c q" and "r = Some OSError"
    and "head_files c' = head_files c" "head_commit c' = head_commit c" "listed c' = listed c"
    using assms f out by (cases ok; auto simp: roll_back_def)+
qed

text \<open>What \<open>main\<close> does once it writes.\<close>

lemma overlay_main_cases:
  assumes "overlay_main sha pin paths table do_apply staged att c = (c', r)"
  obtains (still) "c' = c" "r = None \<longrightarrow> \<not> do_apply"
  | (written) original changes fs n where "do_apply" "staged" "read_files (work c) paths = Inr original"
      "make_changes sha table original = Inr changes" "\<not> overlay c"
      "write_changes att 0 changes (work c) = (fs, n, True)" "c' = c\<lparr>work := fs, overlay := True\<rparr>" "r = None"
  | (undone) original changes fs n ok m where "do_apply" "staged" "read_files (work c) paths = Inr original"
      "make_changes sha table original = Inr changes" "\<not> overlay c"
      "write_changes att 0 changes (work c) = (fs, n, ok)" "roll_back att m original (c\<lparr>work := fs\<rparr>) = (c', r)"
      "\<exists>k < m. att k \<noteq> None"
proof (cases "head_commit c \<noteq> pin \<or> porcelain c \<noteq> [] \<or> \<not> do_apply \<or> \<not> staged \<or> overlay c")
  case True
  with assms show ?thesis by (intro still) (auto simp: overlay_main_def split: sum.splits if_splits)
next
  case False
  note go = this
  show ?thesis
  proof (cases "read_files (work c) paths")
    case (Inl e)
    with assms go show ?thesis by (intro still) (auto simp: overlay_main_def)
  next
    case (Inr original)
    note o = this
    show ?thesis
    proof (cases "make_changes sha table original")
      case (Inl e)
      with assms go o show ?thesis by (intro still) (auto simp: overlay_main_def)
    next
      case (Inr changes)
      obtain fs n ok where w: "write_changes att 0 changes (work c) = (fs, n, ok)" by (metis prod_cases3)
      show ?thesis
      proof (cases "ok \<and> att n = None")
        case True
        with assms go o Inr w show ?thesis by (intro written [OF _ _ o Inr]) (auto simp: overlay_main_def)
      next
        case False
        define m where "m = (if ok then n + 1 else n)"
        have "roll_back att m original (c\<lparr>work := fs\<rparr>) = (c', r)"
          using assms go o Inr w False by (cases ok) (auto simp: overlay_main_def m_def)
        moreover have "\<exists>k < m. att k \<noteq> None"
        proof (cases ok)
          case True
          with False show ?thesis by (auto simp: m_def)
        next
          case False
          with write_changes_failed [of att 0 changes "work c" fs n] w show ?thesis by (auto simp: m_def)
        qed
        ultimately show ?thesis using go by (intro undone [OF _ _ o Inr _ w]) auto
      qed
    qed
  qed
qed


lemma read_files_paths: "read_files fs ps = Inr original \<Longrightarrow> map fst original = ps"
  by (auto simp: read_files_def comp_def split: if_splits)

text \<open>
  C20. The overlay is written in full, exactly as the table says; a refusal changes
  nothing; after one failed write every source is the original again; nothing else changes.
\<close>

theorem overlay_atomic:
  assumes "overlay_main sha pin paths table do_apply staged att c = (c', r)" and "tidy_paths paths"
  shows "(r = None \<and> do_apply \<longrightarrow> overlay c' \<and>
      (\<forall>p \<in> set paths. \<exists>t es u. work c p = Some t \<and> table p = Some es \<and> edit_all sha es t = Inr u \<and>
        work c' p = Some u \<and> work c' (tmp_name p) = None)) \<and>
    (\<not> do_apply \<or> \<not> staged \<or> r = Some PatchError \<longrightarrow> c' = c) \<and>
    (r \<noteq> None \<and> one_failure att \<longrightarrow> overlay c' = overlay c \<and> (\<forall>p \<in> set paths. work c' p = work c p)) \<and>
    (q \<notin> set paths \<union> tmp_name ` set paths \<longrightarrow> work c' q = work c q)"
  using assms(1)
proof (cases rule: overlay_main_cases)
  case still
  then show ?thesis by auto
next
  case (written original changes fs n)
  note paths = make_changes_paths [OF written(4)] read_files_paths [OF written(3)]
  from paths have p: "map fst changes = paths" by simp
  with assms(2) tidy_no_clash have nc: "no_clash changes" by blast
  note all_written = write_changes_done [OF written(6) nc]
  have "\<exists>t es u. work c p = Some t \<and> table p = Some es \<and> edit_all sha es t = Inr u \<and>
      work c' p = Some u \<and> work c' (tmp_name p) = None" if "p \<in> set paths" for p
  proof -
    from that p obtain u where u: "(p, u) \<in> set changes" by (metis (no_types, lifting) image_iff list.set_map prod.collapse)
    from make_changes_edited [OF written(4) u] obtain t es where
        t: "(p, t) \<in> set original" "table p = Some es" "edit_all sha es t = Inr u" by blast
    from t(1) read_files_Inr [OF written(3)] have "work c p = Some t" by auto
    with t u all_written written(7) show ?thesis by auto
  qed
  moreover have "work c' q = work c q" if "q \<notin> set paths \<union> tmp_name ` set paths"
    using write_changes_outside [OF written(6), of q] that written(7) unfolding touched_paths p by simp
  ultimately show ?thesis using written by auto
next
  case (undone original changes fs n ok m)
  note paths = make_changes_paths [OF undone(4)] read_files_paths [OF undone(3)]
  from paths have p: "map fst changes = paths" "map fst original = paths" by simp_all
  note rest = roll_back_rest [OF undone(7)]
  have "work c' q = work c q" if "q \<notin> set paths \<union> tmp_name ` set paths"
    using write_changes_outside [OF undone(6), of q] rest(1) [of q] that
    unfolding touched_paths p list.set_map [symmetric] by simp
  moreover have "overlay c' = overlay c \<and> (\<forall>p \<in> set paths. work c' p = work c p)" if "one_failure att"
  proof -
    from undone(8) obtain j where j: "j < m" "att j \<noteq> None" by blast
    have "att k = None" if "m \<le> k" for k
      using \<open>one_failure att\<close> j that unfolding one_failure_def by (metis leD)
    moreover have "distinct (map fst original)" using assms(2) p(2) by (simp add: tidy_paths_def)
    ultimately have "\<forall>(p, t) \<in> set original. work c' p = Some t" "overlay c' = False"
      using roll_back_back [OF undone(7)] by blast+
    then show ?thesis using read_files_Inr [OF undone(3)] undone(5) by auto
  qed
  ultimately show ?thesis using undone(1,2) rest(2) by auto
qed

text \<open>
  C21. A write that fails once leaves its temporary file behind: the sources are the
  originals again, yet the next run refuses the checkout although nothing can fail now.
\<close>

theorem retry_refused:
  assumes "overlay_main sha pin (p # ps) table False True att c = (c, None)" and "\<not> overlay c"
    and "tidy_paths (p # ps)" and "att 0 = Some junk" and "one_failure att"
    and "tmp_name p \<in> set (listed c)" and "head_files c (tmp_name p) = None"
  shows "\<exists>c'. overlay_main sha pin (p # ps) table True True att c = (c', Some OSError) \<and>
    (\<forall>q \<in> set (p # ps). work c' q = work c q) \<and>
    overlay_main sha pin (p # ps) table True True (\<lambda>_. None) c' = (c', Some PatchError)"
proof -
  obtain original changes where o: "head_commit c = pin" "porcelain c = []" "read_files (work c) (p # ps) = Inr original"
      "make_changes sha table original = Inr changes"
    using assms(1) by (auto simp: overlay_main_def split: if_splits sum.splits)
  note paths = make_changes_paths [OF o(4)] read_files_paths [OF o(3)]
  then obtain u rest where ch: "changes = (p, u) # rest" by (cases changes) auto
  have w: "write_changes att 0 changes (work c) = ((work c)(tmp_name p \<mapsto> junk), 1, False)"
    using assms(4) by (simp add: ch write_text_def)
  obtain c' r where rb: "roll_back att 1 original (c\<lparr>work := (work c)(tmp_name p \<mapsto> junk)\<rparr>) = (c', r)"
    by (metis surj_pair)
  note kept = roll_back_rest [OF rb]
  have run: "overlay_main sha pin (p # ps) table True True att c = (c', Some OSError)"
    using o assms(2) w rb kept(2) by (simp add: overlay_main_def)
  have "att k = None" if "1 \<le> k" for k
    using assms(4,5) that unfolding one_failure_def by (metis not_one_le_zero option.distinct(1))
  moreover have "distinct (map fst original)" using assms(3) paths by (simp add: tidy_paths_def)
  ultimately have "\<forall>(q, t) \<in> set original. work c' q = Some t" using roll_back_back [OF rb] by blast
  then have "\<forall>q \<in> set (p # ps). work c' q = work c q" using read_files_Inr [OF o(3)] by auto
  moreover have "tmp_name p \<notin> fst ` set original"
    using assms(3) unfolding list.set_map [symmetric] paths(2) by (simp add: tidy_paths_def)
  with kept(1) have "work c' (tmp_name p) = Some junk" by simp
  then have "tmp_name p \<in> set (porcelain c')"
    using kept(3,5) assms(6,7) by (simp add: porcelain_def)
  then have "porcelain c' \<noteq> []" by auto
  then have "overlay_main sha pin (p # ps) table True True (\<lambda>_. None) c' = (c', Some PatchError)"
    using kept(4) o(1) by (simp add: overlay_main_def)
  ultimately show ?thesis using run by blast
qed


lemma sunshine_tidy: "tidy_paths FILES"
  by code_simp

definition toy_table :: "string \<Rightarrow> edit list option" where
  "toy_table p = map_of [(''a'', [Once ''b'' ''x'']), (''d'', [Entry ''int f()'' ''g();''])] p"

definition toy_checkout :: checkout where
  "toy_checkout = \<lparr>head_commit = PIN, head_files = [''a'' \<mapsto> ''abc'', ''d'' \<mapsto> ''int f() {'' @ nl],
     work = [''a'' \<mapsto> ''abc'', ''d'' \<mapsto> ''int f() {'' @ nl], listed = [''a'', ''d'', tmp_name ''a''], overlay = False\<rparr>"

lemma toy_changes:
  "make_changes id toy_table [(''a'', ''abc''), (''d'', ''int f() {'' @ nl)] =
     Inr [(''a'', ''axc''), (''d'', ''int f() {'' @ nl @ ''g();'')]"
  by code_simp

lemma toy_ready:
  "porcelain toy_checkout = []"
  "read_files (work toy_checkout) [''a'', ''d''] = Inr [(''a'', ''abc''), (''d'', ''int f() {'' @ nl)]"
  "tidy_paths [''a'', ''d'']"
  by (simp_all add: porcelain_def toy_checkout_def read_files_def tidy_paths_def tmp_name_def)

theorem overlay_atomic_witness:
  "\<exists>c'. overlay_main id PIN [''a'', ''d''] toy_table True True (\<lambda>_. None) toy_checkout = (c', None) \<and>
     overlay c' \<and> work c' ''a'' = Some ''axc''"
proof -
  obtain c' r where c: "overlay_main id PIN [''a'', ''d''] toy_table True True (\<lambda>_. None) toy_checkout = (c', r)"
    by (metis surj_pair)
  then have "r = None"
    unfolding overlay_main_def toy_ready toy_changes sum.case
    by (auto simp: toy_checkout_def write_text_def split: if_splits)
  moreover have "toy_table ''a'' = Some [Once ''b'' ''x'']" by (simp add: toy_table_def)
  moreover have "edit_all id [Once ''b'' ''x''] ''abc'' = Inr ''axc''" by code_simp
  moreover have "work toy_checkout ''a'' = Some ''abc''" by (simp add: toy_checkout_def)
  ultimately show ?thesis using overlay_atomic [OF c toy_ready(3)] c by auto
qed

theorem retry_refused_witness:
  "\<exists>c'. overlay_main id PIN [''a'', ''d''] toy_table True True (\<lambda>n. if n = 0 then Some [] else None) toy_checkout =
     (c', Some OSError) \<and> work c' ''a'' = Some ''abc'' \<and>
     overlay_main id PIN [''a'', ''d''] toy_table True True (\<lambda>_. None) c' = (c', Some PatchError)"
proof -
  let ?att = "\<lambda>n::nat. if n = 0 then Some [] else None"
  have "overlay_main id PIN [''a'', ''d''] toy_table False True ?att toy_checkout = (toy_checkout, None)"
    unfolding overlay_main_def toy_ready toy_changes sum.case by (simp add: toy_checkout_def)
  moreover have "\<not> overlay toy_checkout" "tmp_name ''a'' \<in> set (listed toy_checkout)"
      "head_files toy_checkout (tmp_name ''a'') = None" "work toy_checkout ''a'' = Some ''abc''"
    by (simp_all add: toy_checkout_def tmp_name_def)
  moreover have "?att 0 = Some []" "one_failure ?att" by (simp_all add: one_failure_def)
  ultimately obtain c' where
      "overlay_main id PIN [''a'', ''d''] toy_table True True ?att toy_checkout = (c', Some OSError)"
      "\<forall>q \<in> set [''a'', ''d'']. work c' q = work toy_checkout q"
      "overlay_main id PIN [''a'', ''d''] toy_table True True (\<lambda>_. None) c' = (c', Some PatchError)"
    using retry_refused [of id PIN "''a''" "[''d'']" toy_table ?att toy_checkout "[]"] toy_ready(3) by blast
  with \<open>work toy_checkout ''a'' = Some ''abc''\<close> show ?thesis by auto
qed

end
