(* ===== verification/Overlay_Moonlight.thy ===== *)
theory Overlay_Moonlight
  imports Overlay_Edits
begin

text \<open>
  \<open>client/tools/apply_moonlight.py\<close>: the table of edits of the pinned Moonlight
  client, the change of its nested library, and \<open>main\<close>.  Unlike the server's
  script it also takes a checkout it has already changed, for a check.
\<close>

definition CLIENT_FILES :: "string list" where
  "CLIENT_FILES =
     [''app/settings/streamingpreferences.h'',
      ''app/streaming/input/input.h'',
      ''app/settings/streamingpreferences.cpp'',
      ''app/streaming/input/input.cpp'',
      ''app/streaming/input/keyboard.cpp'',
      ''app/streaming/input/mouse.cpp'',
      ''app/streaming/input/abstouch.cpp'',
      ''app/streaming/audio/audio.cpp'',
      ''app/streaming/session.cpp'',
      ''app/backend/nvhttp.cpp'']"

definition GAMEPAD_INIT_ANCHOR :: "string" where
  "GAMEPAD_INIT_ANCHOR =
     lines_of
       [''    // We must initialize joystick explicitly before gamecontroller in order'',
        ''    // to ensure we receive gamecontroller attach events for gamepads where'',
        ''    // SDL doesn'' @ sq @ ''t have a built-in mapping. By starting joystick first, we'',
        ''    // can allow mapping manager to update the mappings before GC attach'',
        ''    // events are generated.'',
        ''    SDL_assert(!SDL_WasInit(SDL_INIT_JOYSTICK));'',
        ''    if (SDL_InitSubSystem(SDL_INIT_JOYSTICK) != 0) {'',
        ''        SDL_LogError(SDL_LOG_CATEGORY_APPLICATION,'',
        ''                     \"SDL_InitSubSystem(SDL_INIT_JOYSTICK) failed: %s\",'',
        ''                     SDL_GetError());'',
        ''    }'',
        '''',
        ''    MappingManager mappingManager;'',
        ''    mappingManager.applyMappings();'',
        '''',
        ''    // Flush gamepad arrival and departure events which may be queued before'',
        ''    // starting the gamecontroller subsystem again. This prevents us from'',
        ''    // receiving duplicate arrival and departure events for the same gamepad.'',
        ''    SDL_FlushEvent(SDL_CONTROLLERDEVICEADDED);'',
        ''    SDL_FlushEvent(SDL_CONTROLLERDEVICEREMOVED);'',
        '''',
        ''    // We need to reinit this each time, since you only get'',
        ''    // an initial set of gamepad arrival events once per init.'',
        ''    SDL_assert(!SDL_WasInit(SDL_INIT_GAMECONTROLLER));'',
        ''    if (SDL_InitSubSystem(SDL_INIT_GAMECONTROLLER) != 0) {'',
        ''        SDL_LogError(SDL_LOG_CATEGORY_APPLICATION,'',
        ''                     \"SDL_InitSubSystem(SDL_INIT_GAMECONTROLLER) failed: %s\",'',
        ''                     SDL_GetError());'',
        ''    }'']"

definition GAMEPAD_INIT_REPLACEMENT :: "string" where
  "GAMEPAD_INIT_REPLACEMENT =
     lines_of
       [''    // RKMoon minimal KVM client: no joystick, gamecontroller or haptic subsystem is'',
        ''    // initialized, no controller mappings are loaded and no controller packets are ever'',
        ''    // sent to the host. See client/app/src/nogamepad.cpp for the no-op handlers.'']"

definition GAMEPAD_MASK_ANCHOR :: "string" where
  "GAMEPAD_MASK_ANCHOR =
     lines_of
       [''    // Initialize the gamepad mask with currently attached gamepads to avoid'',
        ''    // causing gamepads to unexpectedly disappear and reappear on the host'',
        ''    // during stream startup as we detect currently attached gamepads one at a time.'',
        ''    m_GamepadMask = getAttachedGamepadMask();'']"

definition GAMEPAD_MASK_REPLACEMENT :: "string" where
  "GAMEPAD_MASK_REPLACEMENT =
     lines_of
       [''    // RKMoon minimal KVM client: the host is always told that zero gamepads are attached.'',
        ''    m_GamepadMask = 0;'']"

definition GAMEPAD_QUIT_ANCHOR :: "string" where
  "GAMEPAD_QUIT_ANCHOR =
     lines_of
       [''    SDL_QuitSubSystem(SDL_INIT_GAMECONTROLLER);'',
        ''    SDL_assert(!SDL_WasInit(SDL_INIT_GAMECONTROLLER));'',
        '''',
        ''    SDL_QuitSubSystem(SDL_INIT_JOYSTICK);'',
        ''    SDL_assert(!SDL_WasInit(SDL_INIT_JOYSTICK));'']"

definition GAMEPAD_QUIT_REPLACEMENT :: "string" where
  "GAMEPAD_QUIT_REPLACEMENT =
     ''    // RKMoon minimal KVM client: these subsystems were never initialized.'' @ nl"

definition PREFS_GET_ANCHOR :: "string" where
  "PREFS_GET_ANCHOR =
     lines_of
       [''StreamingPreferences* StreamingPreferences::get(QQmlEngine *qmlEngine)'',
        ''{'',
        ''    {'',
        ''        QReadLocker readGuard(&s_GlobalPrefsLock);'',
        '''',
        ''        // If we have a preference object and it'' @ sq @ ''s associated with a QML engine or'',
        ''        // if the caller didn'' @ sq @ ''t specify a QML engine, return the existing object.'',
        ''        if (s_GlobalPrefs && (s_GlobalPrefs->m_QmlEngine || !qmlEngine)) {'',
        ''            // The lifetime logic here relies on the QML engine also being a singleton.'',
        ''            Q_ASSERT(!qmlEngine || s_GlobalPrefs->m_QmlEngine == qmlEngine);'',
        ''            return s_GlobalPrefs;'',
        ''        }'',
        ''    }'',
        '''',
        ''    {'',
        ''        QWriteLocker writeGuard(&s_GlobalPrefsLock);'',
        '''',
        ''        // If we already have an preference object but the QML engine is now available,'',
        ''        // associate the QML engine with the preferences.'',
        ''        if (s_GlobalPrefs) {'',
        ''            if (!s_GlobalPrefs->m_QmlEngine) {'',
        ''                s_GlobalPrefs->m_QmlEngine = qmlEngine;'',
        ''            }'',
        ''            else {'',
        ''                // We could reach this codepath if another thread raced with us'',
        ''                // and created the object while we were outside the pref lock.'',
        ''                Q_ASSERT(!qmlEngine || s_GlobalPrefs->m_QmlEngine == qmlEngine);'',
        ''            }'',
        ''        }'',
        ''        else {'',
        ''            s_GlobalPrefs = new StreamingPreferences(qmlEngine);'',
        ''        }'',
        '''',
        ''        return s_GlobalPrefs;'',
        ''    }'',
        ''}'']"

definition PREFS_GET_REPLACEMENT :: "string" where
  "PREFS_GET_REPLACEMENT =
     lines_of
       [''StreamingPreferences* StreamingPreferences::get()'',
        ''{'',
        ''    {'',
        ''        QReadLocker readGuard(&s_GlobalPrefsLock);'',
        '''',
        ''        if (s_GlobalPrefs) {'',
        ''            return s_GlobalPrefs;'',
        ''        }'',
        ''    }'',
        '''',
        ''    {'',
        ''        QWriteLocker writeGuard(&s_GlobalPrefsLock);'',
        '''',
        ''        // RKMoon minimal KVM client: there is no QML engine to associate with.'',
        ''        if (!s_GlobalPrefs) {'',
        ''            s_GlobalPrefs = new StreamingPreferences();'',
        ''        }'',
        '''',
        ''        return s_GlobalPrefs;'',
        ''    }'',
        ''}'']"

definition PREFS_RETRANSLATE_HEAD_ANCHOR :: "string" where
  "PREFS_RETRANSLATE_HEAD_ANCHOR =
     lines_of
       [''#if QT_VERSION < QT_VERSION_CHECK(5, 10, 0)'',
        ''    if (m_QmlEngine != nullptr) {'',
        ''        // Dynamic retranslation is not supported until Qt 5.10'',
        ''        return false;'',
        ''    }'',
        ''#endif'',
        '''']"

definition PREFS_RETRANSLATE_TAIL_ANCHOR :: "string" where
  "PREFS_RETRANSLATE_TAIL_ANCHOR =
     lines_of
       [''    if (m_QmlEngine != nullptr) {'',
        ''#if QT_VERSION >= QT_VERSION_CHECK(5, 10, 0)'',
        ''        // This is a dynamic retranslation from the settings page.'',
        ''        // We have to kick the QML engine into reloading our text.'',
        ''        m_QmlEngine->retranslate();'',
        ''#else'',
        ''        // Unreachable below Qt 5.10 due to the check above'',
        ''        Q_ASSERT(false);'',
        ''#endif'',
        ''    }'',
        ''    else {'',
        ''        // This is a translation from a non-QML context, which means'',
        ''        // it is probably app startup. There'' @ sq @ ''s nothing to refresh.'',
        ''    }'',
        '''']"

definition PREFS_RETRANSLATE_TAIL_REPLACEMENT :: "string" where
  "PREFS_RETRANSLATE_TAIL_REPLACEMENT =
     lines_of
       [''    // RKMoon minimal KVM client: there is no QML engine to refresh; the Qt Widgets'',
        ''    // front end reads its own strings when it is constructed.'',
        '''']"

definition AUDIO_GAIN_ANCHOR :: "string" where
  "AUDIO_GAIN_ANCHOR =
     lines_of
       [''        // Update desiredSize with the number of bytes actually populated by the decoding operation'',
        ''        if (samplesDecoded > 0) {'',
        ''            SDL_assert(desiredBufferSize >= frameSize * samplesDecoded);'',
        ''            desiredBufferSize = frameSize * samplesDecoded;'',
        ''        }'']"

definition AUDIO_GAIN_REPLACEMENT :: "string" where
  "AUDIO_GAIN_REPLACEMENT =
     lines_of
       [''        // Update desiredSize with the number of bytes actually populated by the decoding operation'',
        ''        if (samplesDecoded > 0) {'',
        ''            SDL_assert(desiredBufferSize >= frameSize * samplesDecoded);'',
        ''            desiredBufferSize = frameSize * samplesDecoded;'',
        '''',
        ''            // RKMoon minimal KVM client: apply the client-side volume/mute gain. Muting is'',
        ''            // implemented as a zero gain after decoding (rather than skipping the decode) so'',
        ''            // the Opus decoder state and the renderer'' @ sq @ ''s timing stay continuous.'',
        ''            RkmoonAudioControl::applyGain(buffer,'',
        ''                                          samplesDecoded * s_ActiveSession->m_ActiveAudioConfig.channelCount,'',
        ''                                          s_ActiveSession->m_AudioRenderer->getAudioBufferFormat() == IAudioRenderer::AudioFormat::Float32NE);'',
        ''        }'']"

definition HTTP_AUTH_ANCHOR :: "string" where
  "HTTP_AUTH_ANCHOR =
     lines_of
       [''    QNetworkRequest request(url);'',
        '''',
        ''    // Add our client certificate'',
        ''    request.setSslConfiguration(IdentityManager::get()->getSslConfig());'']"

definition HTTP_AUTH_REPLACEMENT :: "string" where
  "HTTP_AUTH_REPLACEMENT =
     lines_of
       [''    RkmoonAuth::prepareSessionUrl(url, command);'',
        ''    QNetworkRequest request(url);'',
        '''',
        ''    // RKMoon minimal KVM client: the upstream client certificate is deliberately not'',
        ''    // installed. This server has no TLS listener and never asks for a client'',
        ''    // certificate, so IdentityManager is not compiled into this client at all and no'',
        ''    // RSA identity key or certificate is generated or stored on this machine.'',
        ''    //'',
        ''    // Instead, this server authorizes every request with a password. The credential is'',
        ''    // added only for the one bound http://host:port. Every request the client makes,'',
        ''    // including the streaming session'' @ sq @ ''s launch/resume/cancel, goes through this'',
        ''    // function. The password is never part of the URL, so it cannot reach a log, and it'',
        ''    // is never attached to another host, port or scheme. This call also forces manual'',
        ''    // redirect handling for every request.'',
        ''    RkmoonAuth::prepareRequest(request, url);'']"

definition HTTPS_SCHEME_ANCHOR :: "string" where
  "HTTPS_SCHEME_ANCHOR =
     lines_of
       [''    m_BaseUrlHttp.setScheme(\"http\");'',
        ''    m_BaseUrlHttps.setScheme(\"https\");'']"

definition HTTPS_SCHEME_REPLACEMENT :: "string" where
  "HTTPS_SCHEME_REPLACEMENT =
     lines_of
       [''    m_BaseUrlHttp.setScheme(\"http\");'',
        ''    // RKMoon minimal KVM client: the dedicated server has no TLS listener. The upstream'',
        ''    // \"HTTPS\" base URL is deliberately the same plaintext HTTP origin as the base URL.'',
        ''    m_BaseUrlHttps.setScheme(\"http\");'']"

definition HTTPS_ADDRESS_ANCHOR :: "string" where
  "HTTPS_ADDRESS_ANCHOR =
     lines_of
       [''    m_BaseUrlHttp.setHost(address.address());'',
        ''    m_BaseUrlHttps.setHost(address.address());'',
        '''',
        ''    m_BaseUrlHttp.setPort(address.port());'',
        ''}'']"

definition HTTPS_ADDRESS_REPLACEMENT :: "string" where
  "HTTPS_ADDRESS_REPLACEMENT =
     lines_of
       [''    m_BaseUrlHttp.setHost(address.address());'',
        ''    m_BaseUrlHttps.setHost(address.address());'',
        '''',
        ''    m_BaseUrlHttp.setPort(address.port());'',
        ''    // RKMoon minimal KVM client: one base port serves every endpoint.'',
        ''    m_BaseUrlHttps.setPort(address.port());'',
        ''}'']"

definition HTTPS_PORT_ANCHOR :: "string" where
  "HTTPS_PORT_ANCHOR =
     lines_of
       [''void NvHTTP::setHttpsPort(uint16_t port)'',
        ''{'',
        ''    m_BaseUrlHttps.setPort(port);'',
        ''}'']"

definition HTTPS_PORT_REPLACEMENT :: "string" where
  "HTTPS_PORT_REPLACEMENT =
     lines_of
       [''void NvHTTP::setHttpsPort(uint16_t port)'',
        ''{'',
        ''    // RKMoon minimal KVM client: the server reports HttpsPort=0 and listens on nothing'',
        ''    // else, so a separate TLS port is never adopted. Callers that pass the upstream'',
        ''    // default, or the value NvComputer substitutes for zero, keep using the base port.'',
        ''    Q_UNUSED(port);'',
        ''    m_BaseUrlHttps.setPort(m_BaseUrlHttp.port());'',
        ''}'']"

definition CURSOR_ANCHOR :: "string" where
  "CURSOR_ANCHOR =
     lines_of
       [''        if (!SDL_GetRelativeMouseMode()) {'',
        ''            m_MouseCursorCapturedVisibilityState = !m_MouseCursorCapturedVisibilityState;'',
        ''            SDL_ShowCursor(m_MouseCursorCapturedVisibilityState);'',
        ''        }'',
        ''        else {'',
        ''            SDL_LogWarn(SDL_LOG_CATEGORY_APPLICATION,'',
        ''                        \"Cursor can only be shown in remote desktop mouse mode\");'',
        ''        }'']"

definition CURSOR_REPLACEMENT :: "string" where
  "CURSOR_REPLACEMENT =
     lines_of
       [''        // Toggle local visibility only; preserve absolute/relative protocol mode.'',
        ''        setCaptureActive(false);'',
        ''        m_MouseCursorCapturedVisibilityState = !m_MouseCursorCapturedVisibilityState;'',
        ''        setCaptureActive(true);'']"

definition CAPTURE_ANCHOR :: "string" where
  "CAPTURE_ANCHOR =
     ''if (m_AbsoluteMouseMode || SDL_SetRelativeMouseMode(SDL_TRUE) < 0) {''"

definition PUMP_ANCHOR :: "string" where
  "PUMP_ANCHOR =
     lines_of
       [''    SDL_Event event;'',
        ''    for (;;) {'']"

definition TERMINATE_ANCHOR :: "string" where
  "TERMINATE_ANCHOR =
     lines_of
       [''    SDL_Event event;'',
        ''    event.type = SDL_QUIT;'',
        ''    event.quit.timestamp = SDL_GetTicks();'',
        ''    SDL_PushEvent(&event);'']"

definition POINTER_CLAMP_ANCHOR :: "string" where
  "POINTER_CLAMP_ANCHOR =
     lines_of
       [''        // Clamp motion to the video region'',
        ''        x = qMin(qMax(x - dst.x, 0), dst.w);'',
        ''        y = qMin(qMax(y - dst.y, 0), dst.h);'']"

definition POINTER_TOUCH_ANCHOR :: "string" where
  "POINTER_TOUCH_ANCHOR =
     lines_of
       [''        short x = qMin(qMax((int)(event->x * windowWidth), dst.x), dst.x + dst.w);'',
        ''        short y = qMin(qMax((int)(event->y * windowHeight), dst.y), dst.y + dst.h);'',
        '''',
        ''        // Update the cursor position relative to the video region'']
      @ ''        LiSendMousePositionEvent(x - dst.x, y - dst.y, dst.w, dst.h);''"

definition POINTER_INSIDE_ANCHOR :: "string" where
  "POINTER_INSIDE_ANCHOR =
     ''    return (mouseX >= dst.x && mouseX <= dst.x + dst.w) &&'' @ nl
      @ ''           (mouseY >= dst.y && mouseY <= dst.y + dst.h);''"

definition COMMON_WAKE :: "string" where
  "COMMON_WAKE =
     lines_of
       [''    // Wiggle the mouse a bit to wake the display up'',
        ''    LiSendMouseMoveEvent(1, 1);'',
        ''    PltSleepMs(10);'',
        ''    LiSendMouseMoveEvent(-1, -1);'',
        ''    PltSleepMs(10);'']"

definition client_streamingpreferences_h_edits :: "edit list" where
  "client_streamingpreferences_h_edits =
     [Once (''#include <QQmlEngine>'' @ nl)
         (''// RKMoon minimal KVM client: the QML engine binding is removed (no QtQml dependency).'' @ nl),
      Once ''    static StreamingPreferences* get(QQmlEngine *qmlEngine = nullptr);''
         ''    static StreamingPreferences* get();'',
      Once ''    explicit StreamingPreferences(QQmlEngine *qmlEngine);''
         ''    explicit StreamingPreferences();'',
      Once (lines_of
            ['''',
             ''    QQmlEngine* m_QmlEngine;''])
         nl]"

definition client_streamingpreferences_cpp_edits :: "edit list" where
  "client_streamingpreferences_cpp_edits =
     [Once (lines_of
            [''StreamingPreferences::StreamingPreferences(QQmlEngine *qmlEngine)'',
             ''    : m_QmlEngine(qmlEngine)'']
           @ ''{'')
         (''StreamingPreferences::StreamingPreferences()'' @ nl
           @ ''{''),
      Once PREFS_GET_ANCHOR
         PREFS_GET_REPLACEMENT,
      Once PREFS_RETRANSLATE_HEAD_ANCHOR
         [],
      Once PREFS_RETRANSLATE_TAIL_ANCHOR
         PREFS_RETRANSLATE_TAIL_REPLACEMENT]"

definition client_input_h_edits :: "edit list" where
  "client_input_h_edits =
     [Once ''    bool m_AbsoluteTouchMode;''
         (''    bool m_AbsoluteTouchMode;'' @ nl
           @ ''    QSet<SDL_FingerID> m_RkmoonAcceptedTouches;''),
      Once ''#pragma once''
         (''#pragma once'' @ nl
           @ ''#include <QSet>''),
      Once ''#include \"backend/computermanager.h\"''
         ''#include \"backend/nvcomputer.h\" // RKMoon: was backend/computermanager.h (no mDNS discovery)'']"

definition client_input_cpp_edits :: "edit list" where
  "client_input_cpp_edits =
     [Once ''m_MouseCursorCapturedVisibilityState(SDL_DISABLE)''
         ''m_MouseCursorCapturedVisibilityState(prefs.absoluteMouseMode ? SDL_ENABLE : SDL_DISABLE)'',
      Once CAPTURE_ANCHOR
         ''if (m_AbsoluteMouseMode || m_MouseCursorCapturedVisibilityState == SDL_ENABLE || SDL_SetRelativeMouseMode(SDL_TRUE) < 0) {'',
      Once GAMEPAD_INIT_ANCHOR
         GAMEPAD_INIT_REPLACEMENT,
      Once GAMEPAD_MASK_ANCHOR
         GAMEPAD_MASK_REPLACEMENT,
      Once GAMEPAD_QUIT_ANCHOR
         GAMEPAD_QUIT_REPLACEMENT,
      Once ''    m_SpecialKeyCombos[KeyComboToggleMouseMode].enabled = true;''
         ''    m_SpecialKeyCombos[KeyComboToggleMouseMode].enabled = false; // Relative HID only'']"

definition client_mouse_cpp_edits :: "edit list" where
  "client_mouse_cpp_edits =
     [Once (''#include \"input.h\"'' @ nl)
         (lines_of
            [''#include \"input.h\"'',
             ''#include \"rkmoon_pointer.h\"'']),
      Once POINTER_CLAMP_ANCHOR
         (lines_of
            [''        const auto position = RkmoonPointer::position(x, y, dst);'',
             ''        x = position.x;'',
             ''        y = position.y;'']),
      Once POINTER_INSIDE_ANCHOR
         ''    return RkmoonPointer::inside(mouseX, mouseY, dst);'']"

definition client_abstouch_cpp_edits :: "edit list" where
  "client_abstouch_cpp_edits =
     [Once (''#include \"input.h\"'' @ nl)
         (lines_of
            [''#include \"input.h\"'',
             ''#include \"rkmoon_pointer.h\"'']),
      Once ''if (LiGetHostFeatureFlags() & LI_FF_PEN_TOUCH_EVENTS) {''
         ''if (false) { // Dedicated RKMoon host: always emulate absolute mouse, never native touch'',
      Once POINTER_TOUCH_ANCHOR
         (''        const auto point = RkmoonPointer::position(event->x * windowWidth, event->y * windowHeight, dst);'' @ nl
           @ ''        LiSendMousePositionEvent(point.x, point.y, dst.w, dst.h);''),
      Once (''    // Scale window-relative events to be video-relative and clamp to video region'' @ nl
           @ ''    StreamUtils::scaleSourceToDestinationSurface(&src, &dst);'')
         (lines_of
            [''    // Scale window-relative events to be video-relative and clamp to video region'',
             ''    StreamUtils::scaleSourceToDestinationSurface(&src, &dst);'',
             ''    if (event->type == SDL_FINGERDOWN) {'',
             ''        if (!RkmoonPointer::inside(event->x * windowWidth, event->y * windowHeight, dst)) return;'',
             ''        m_RkmoonAcceptedTouches.insert(event->fingerId);'',
             ''    } else if (!m_RkmoonAcceptedTouches.contains(event->fingerId)) return;'']
           @ ''    if (event->type == SDL_FINGERUP) m_RkmoonAcceptedTouches.remove(event->fingerId);'')]"

definition client_keyboard_cpp_edits :: "edit list" where
  "client_keyboard_cpp_edits =
     [Once CURSOR_ANCHOR
         CURSOR_REPLACEMENT]"

definition client_audio_cpp_edits :: "edit list" where
  "client_audio_cpp_edits =
     [Once (''#include \"renderers/sdl.h\"'' @ nl)
         (lines_of
            [''#include \"renderers/sdl.h\"'',
             ''#include \"rkmoon_audio_control.h\"'']),
      Once AUDIO_GAIN_ANCHOR
         AUDIO_GAIN_REPLACEMENT]"

definition client_session_cpp_edits :: "edit list" where
  "client_session_cpp_edits =
     [Once PUMP_ANCHOR
         (PUMP_ANCHOR
           @ lines_of
            [''        QCoreApplication::processEvents(QEventLoop::ExcludeUserInputEvents);'',
             ''        if (RkmoonSessionControl::internalQuitPending.exchange(false)) goto DispatchDeferredCleanup;'']),
      Once ''SDL_WaitEventTimeout(&event, 1000)''
         ''SDL_WaitEventTimeout(&event, 20)'',
      Once (''#include <QCursor>'' @ nl)
         (lines_of
            [''#include <QCursor>'',
             ''#include \"rkmoon_session_control.h\"'',
             ''#include \"rkmoon_diagnostics.h\"'']),
      Once TERMINATE_ANCHOR
         (''    RkmoonSessionControl::stop();'' @ nl),
      Once (''void Session::clConnectionTerminated(int errorCode)'' @ nl
           @ ''{'')
         (lines_of
            [''void Session::clConnectionTerminated(int errorCode)'',
             ''{'']
           @ ''    RkmoonDiagnostics::record(QString(\"connection-terminated code=%1\").arg(errorCode));''),
      Once (''void Session::clStageStarting(int stage)'' @ nl
           @ ''{'')
         (lines_of
            [''void Session::clStageStarting(int stage)'',
             ''{'']
           @ ''    RkmoonDiagnostics::record(QString(\"stage-start stage=%1\").arg(stage));''),
      Once (''void Session::clStageFailed(int stage, int errorCode)'' @ nl
           @ ''{'')
         (lines_of
            [''void Session::clStageFailed(int stage, int errorCode)'',
             ''{'']
           @ ''    RkmoonDiagnostics::record(QString(\"stage-failed stage=%1 code=%2\").arg(stage).arg(errorCode));''),
      Once (''        case SDL_QUIT:'' @ nl)
         (lines_of
            [''        case SDL_QUIT:'',
             ''            RkmoonDiagnostics::record(\"sdl-quit-dispatched\");'']),
      Once (''#include \"backend/richpresencemanager.h\"'' @ nl)
         [],
      Once (''#include <QSvgRenderer>'' @ nl)
         [],
      Once (''#include <QPainter>'' @ nl)
         [],
      Once (''    RichPresenceManager presence('' @ ''*m_Preferences, m_App.name);'' @ nl)
         [],
      Want (''            presence.runCallbacks();'' @ nl) 6,
      All (''            presence.runCallbacks();'' @ nl) [],
      Cut_Known (''    QSvgRenderer svgIconRenderer(QString(\":/res/moonlight.svg\"));'')
         (''    // Update the window display mode'')
         (''81bb5a75e95fa7c3f4c90a64de96a65303753e9eeb5e8eb9741d433e7778e60b'')
         (lines_of
           [''    // RKMoon: no SVG resource or QtSvg icon dependency.'',
            '''']),
      Once (lines_of
            [''    if (iconSurface != nullptr) {'',
             ''        SDL_FreeSurface(iconSurface);'',
             ''    }''])
         []]"

definition client_nvhttp_cpp_edits :: "edit list" where
  "client_nvhttp_cpp_edits =
     [Once (''#include \"nvcomputer.h\"'' @ nl)
         (lines_of
            [''#include \"nvcomputer.h\"'',
             ''#include \"rkmoon_auth.h\"'',
             ''#include \"rkmoon_http_log.h\"'']),
      Once HTTP_AUTH_ANCHOR
         HTTP_AUTH_REPLACEMENT,
      Once HTTPS_SCHEME_ANCHOR
         HTTPS_SCHEME_REPLACEMENT,
      Once HTTPS_ADDRESS_ANCHOR
         HTTPS_ADDRESS_REPLACEMENT,
      Once HTTPS_PORT_ANCHOR
         HTTPS_PORT_REPLACEMENT,
      Once ''qInfo() << \"Executing request:\" << url.toString();''
         ''rkmoonLogHttpRequest(command);'',
      Once ''qWarning() << \"Aborting timed out request for\" << url.toString();''
         ''rkmoonLogHttpRequest(command, true);'',
      Once ''qInfo() << \"Launch response:\" << response;''
         ''qInfo() << \"Launch response received\";'',
      Once ''qInfo() << \"Quit response:\" << response;''
         ''qInfo() << \"Quit response received\";'']"

definition moonlight_files :: "(string \<times> edit list) list" where
  "moonlight_files =
     [(''app/settings/streamingpreferences.h'', client_streamingpreferences_h_edits),
      (''app/settings/streamingpreferences.cpp'', client_streamingpreferences_cpp_edits),
      (''app/streaming/input/input.h'', client_input_h_edits),
      (''app/streaming/input/input.cpp'', client_input_cpp_edits),
      (''app/streaming/input/mouse.cpp'', client_mouse_cpp_edits),
      (''app/streaming/input/abstouch.cpp'', client_abstouch_cpp_edits),
      (''app/streaming/input/keyboard.cpp'', client_keyboard_cpp_edits),
      (''app/streaming/audio/audio.cpp'', client_audio_cpp_edits),
      (''app/streaming/session.cpp'', client_session_cpp_edits),
      (''app/backend/nvhttp.cpp'', client_nvhttp_cpp_edits)]"

section \<open>\<open>main\<close>\<close>

definition COMMON_PATH :: string where
  "COMMON_PATH = ''moonlight-common-c/moonlight-common-c''"

definition COMMON_FILE :: string where
  "COMMON_FILE = COMMON_PATH @ ''/src/Connection.c''"

definition COMMON_PIN :: string where
  "COMMON_PIN = ''8599b6042a4ba27749b0f94134dd614b4328a9bc''"

definition COMMON_QUIET :: string where
  "COMMON_QUIET = ''    // RKMoon HDMI: no synthetic relative motion on connection.'' @ nl"

text \<open>
  \<open>commit\<close> is what \<open>rev-parse\<close> prints, \<open>source\<close> the committed file, \<open>edited\<close> the
  paths \<open>git status\<close> lists; the texts on disk are \<open>fs\<close>.
\<close>

definition common_change :: "string \<Rightarrow> string \<Rightarrow> string list \<Rightarrow> files \<Rightarrow> (string \<times> string) res" where
  "common_change commit source edited fs =
     (if commit \<noteq> COMMON_PIN then Inl PatchError
      else
        (case once source COMMON_WAKE COMMON_QUIET of
           Inl e \<Rightarrow> Inl e
         | Inr changed \<Rightarrow>
             if list_ex (\<lambda>p. p \<noteq> ''src/Connection.c'') edited then Inl PatchError
             else
               (case fs COMMON_FILE of
                  None \<Rightarrow> Inl OSError
                | Some t \<Rightarrow> if t \<notin> {source, changed} then Inl PatchError else Inr (source, changed))))"

text \<open>
  The loop over the dirty paths, and the test that every file is the original.  As
  in the other script the table and its paths are arguments.
\<close>

fun check_dirty ::
  "string list \<Rightarrow> (string \<times> string) list \<Rightarrow> (string \<times> string) list \<Rightarrow> files \<Rightarrow> string list \<Rightarrow> exn option" where
  "check_dirty paths original changes fs [] = None"
| "check_dirty paths original changes fs (p # ps) =
     (if p = COMMON_PATH then check_dirty paths original changes fs ps
      else if p \<notin> set paths then Some PatchError
      else
        (case fs p of
           None \<Rightarrow> Some OSError
         | Some t \<Rightarrow>
             if Some t \<noteq> map_of original p \<and> Some t \<noteq> map_of changes p then Some PatchError
             else check_dirty paths original changes fs ps))"

fun check_original :: "(string \<times> string) list \<Rightarrow> files \<Rightarrow> exn option" where
  "check_original [] fs = None"
| "check_original ((p, t) # rest) fs =
     (case fs p of
        None \<Rightarrow> Some OSError
      | Some u \<Rightarrow> if u \<noteq> t then Some PatchError else check_original rest fs)"

text \<open>What git says of the checkout and of the nested library.\<close>

record client_git =
  client_commit :: string
  client_source :: "string \<Rightarrow> string"
  client_dirty :: "string list"
  common_commit :: string
  common_source :: string
  common_dirty :: "string list"

definition planned ::
  "(string \<Rightarrow> string) \<Rightarrow> string list \<Rightarrow> (string \<Rightarrow> edit list option) \<Rightarrow> client_git \<Rightarrow> files \<Rightarrow>
   ((string \<times> string) list \<times> (string \<times> string) list) res" where
  "planned sha paths table g fs =
     (let original = map (\<lambda>p. (p, client_source g p)) paths in
        (case make_changes sha table original of
           Inl e \<Rightarrow> Inl e
         | Inr changes \<Rightarrow>
             (case common_change (common_commit g) (common_source g) (common_dirty g) fs of
                Inl e \<Rightarrow> Inl e
              | Inr (source, changed) \<Rightarrow>
                  Inr (original @ [(COMMON_FILE, source)], changes @ [(COMMON_FILE, changed)]))))"

definition client_main ::
  "(string \<Rightarrow> string) \<Rightarrow> string \<Rightarrow> string list \<Rightarrow> (string \<Rightarrow> edit list option) \<Rightarrow>
   client_git \<Rightarrow> bool \<Rightarrow> attempts \<Rightarrow> files \<Rightarrow> files \<times> exn option" where
  "client_main sha pin paths table g do_apply att fs =
     (if client_commit g \<noteq> pin then (fs, Some PatchError)
      else
        (case planned sha paths table g fs of
           Inl e \<Rightarrow> (fs, Some e)
         | Inr (original, changes) \<Rightarrow>
             (case check_dirty paths original changes fs (client_dirty g) of
                Some e \<Rightarrow> (fs, Some e)
              | None \<Rightarrow>
                  if \<not> do_apply then (fs, None)
                  else
                    (case check_original original fs of
                       Some e \<Rightarrow> (fs, Some e)
                     | None \<Rightarrow>
                         (case apply_changes att original changes fs of
                            (fs1, True, _) \<Rightarrow> (fs1, None)
                          | (fs1, False, _) \<Rightarrow> (fs1, Some OSError))))))"

definition apply_moonlight ::
  "(string \<Rightarrow> string) \<Rightarrow> string \<Rightarrow> client_git \<Rightarrow> bool \<Rightarrow> attempts \<Rightarrow> files \<Rightarrow> files \<times> exn option" where
  "apply_moonlight sha pin = client_main sha pin CLIENT_FILES (map_of moonlight_files)"

section \<open>What the changed client contains\<close>

text \<open>The statements that log a URL or a response.\<close>

definition http_logging :: "string list" where
  "http_logging =
     [''qInfo() << \"Executing request:\" << url.toString();'',
      ''qWarning() << \"Aborting timed out request for\" << url.toString();'',
      ''qInfo() << \"Launch response:\" << response;'',
      ''qInfo() << \"Quit response:\" << response;'']"

lemma logging_removed: "list_all (\<lambda>m. removed m client_nvhttp_cpp_edits) http_logging"
  by code_simp

lemma client_http: "map_of moonlight_files ''app/backend/nvhttp.cpp'' = Some client_nvhttp_cpp_edits"
  by (simp add: moonlight_files_def)

lemma edit_all_once:
  "(\<forall>e \<in> set es. \<exists>old new. e = Once old new) \<Longrightarrow> edit_all sha es t = Inl x \<Longrightarrow> x = PatchError"
  by (induction es arbitrary: t) (auto simp: once_Inl split: sum.splits)

lemma wake_edit: "COMMON_WAKE \<noteq> []" "COMMON_WAKE \<noteq> COMMON_QUIET"
  "apart COMMON_WAKE COMMON_QUIET"
  by code_simp+

lemma client_tidy: "tidy_paths (CLIENT_FILES @ [COMMON_FILE])"
  by code_simp

lemma common_change_Inr:
  "common_change commit source edited fs = Inr (s, changed) \<longleftrightarrow>
     commit = COMMON_PIN \<and> s = source \<and> (\<forall>p \<in> set edited. p = ''src/Connection.c'') \<and>
     once source COMMON_WAKE COMMON_QUIET = Inr changed \<and>
     (fs COMMON_FILE = Some source \<or> fs COMMON_FILE = Some changed)"
  by (auto simp: common_change_def list_ex_iff split: sum.splits option.splits if_splits)

lemma planned_Inr:
  assumes "planned sha paths table g fs = Inr (original, changes)"
  obtains cs changed where
    "make_changes sha table (map (\<lambda>p. (p, client_source g p)) paths) = Inr cs"
    "common_change (common_commit g) (common_source g) (common_dirty g) fs = Inr (common_source g, changed)"
    "original = map (\<lambda>p. (p, client_source g p)) paths @ [(COMMON_FILE, common_source g)]"
    "changes = cs @ [(COMMON_FILE, changed)]" "map fst original = paths @ [COMMON_FILE]" "map fst changes = paths @ [COMMON_FILE]"
proof -
  from assms obtain cs s changed where p:
    "make_changes sha table (map (\<lambda>p. (p, client_source g p)) paths) = Inr cs"
    "common_change (common_commit g) (common_source g) (common_dirty g) fs = Inr (s, changed)"
    "original = map (\<lambda>p. (p, client_source g p)) paths @ [(COMMON_FILE, s)]"
    "changes = cs @ [(COMMON_FILE, changed)]"
    by (auto simp: planned_def Let_def split: sum.splits)
  from p(2) have "s = common_source g" by (simp add: common_change_Inr)
  with p make_changes_paths [OF p(1)] that show ?thesis by (simp add: comp_def)
qed

lemma check_original_None: "check_original original fs = None \<longleftrightarrow> (\<forall>(p, t) \<in> set original. fs p = Some t)"
  by (induction original fs rule: check_original.induct) (auto split: option.splits)

lemma check_original_changed:
  "(\<forall>(p, t) \<in> set original. fs p \<noteq> None) \<Longrightarrow> (p, t) \<in> set original \<Longrightarrow> fs p \<noteq> Some t \<Longrightarrow>
     check_original original fs = Some PatchError"
  by (induction original fs rule: check_original.induct) (auto split: option.splits)

lemma check_dirty_changed:
  "(\<forall>p \<in> set paths. fs p = map_of changes p \<and> fs p \<noteq> None) \<Longrightarrow>
     set ps \<subseteq> insert COMMON_PATH (set paths) \<Longrightarrow> check_dirty paths original changes fs ps = None"
proof (induction ps)
  case (Cons p ps)
  from Cons.IH [OF Cons.prems(1)] Cons.prems(2) have rest: "check_dirty paths original changes fs ps = None" by simp
  show ?case
  proof (cases "p = COMMON_PATH")
    case False
    with Cons.prems obtain t where "fs p = Some t" "map_of changes p = Some t" "p \<in> set paths" by fastforce
    with rest show ?thesis by simp
  qed (simp add: rest)
qed simp


text \<open>
  C22. When the client was patched every file was the original and holds what the
  plan says; the same checkout then passes the check and is not patched again.
\<close>

theorem client_rechecked:
  assumes "client_main sha pin paths table g True att fs = (fs', None)"
    and "tidy_paths (paths @ [COMMON_FILE])"
    and "set dirty \<subseteq> insert COMMON_PATH (set paths)" and "set edited \<subseteq> {''src/Connection.c''}"
  shows "(\<exists>original changes. planned sha paths table g fs = Inr (original, changes) \<and>
      (\<forall>(p, t) \<in> set original. fs p = Some t) \<and>
      (\<forall>(p, u) \<in> set changes. fs' p = Some u \<and> fs' (tmp_name p) = None)) \<and>
    client_main sha pin paths table (g\<lparr>client_dirty := dirty, common_dirty := edited\<rparr>) False att' fs' = (fs', None) \<and>
    client_main sha pin paths table (g\<lparr>client_dirty := dirty, common_dirty := edited\<rparr>) True att' fs' = (fs', Some PatchError)"
proof -
  let ?g = "g\<lparr>client_dirty := dirty, common_dirty := edited\<rparr>"
  obtain original changes b where p: "client_commit g = pin" "planned sha paths table g fs = Inr (original, changes)"
      "check_original original fs = None" "apply_changes att original changes fs = (fs', True, b)"
    using assms(1) by (auto simp: client_main_def split: sum.splits prod.splits option.splits if_splits bool.splits)
  from p(2) show ?thesis
  proof (cases rule: planned_Inr)
    case (1 cs changed)
    have nc: "no_clash changes" "no_clash original" using tidy_no_clash 1(5,6) assms(2) by simp_all
    have w: "\<forall>(p, u) \<in> set changes. fs' p = Some u \<and> fs' (tmp_name p) = None"
      using apply_changes_all_or_nothing(1) [OF p(4) nc] 1(5,6) by simp
    have o: "\<forall>(p, t) \<in> set original. fs p = Some t" using p(3) check_original_None by blast
    have there: "fs' p = map_of changes p \<and> fs' p \<noteq> None" if "p \<in> set (paths @ [COMMON_FILE])" for p
    proof -
      have "fst ` set changes = set (paths @ [COMMON_FILE])" unfolding list.set_map [symmetric] 1(6) ..
      with that have "map_of changes p \<noteq> None" by (simp add: map_of_eq_None_iff)
      then obtain u where u: "map_of changes p = Some u" by blast
      with w map_of_SomeD [OF u] show ?thesis by auto
    qed
    have "fs' COMMON_FILE = Some changed" using w 1(4) by auto
    with 1(2) assms(4) have "common_change (common_commit g) (common_source g) edited fs' = Inr (common_source g, changed)"
      unfolding common_change_Inr by auto
    with 1(1,3,4) have again: "planned sha paths table ?g fs' = Inr (original, changes)"
      by (simp add: planned_def del: make_changes.simps)
    have dirty: "check_dirty paths original changes fs' dirty = None"
      by (rule check_dirty_changed [OF ballI assms(3)]) (rule there, simp)
    have "fs' COMMON_FILE \<noteq> Some (common_source g)"
    proof
      assume "fs' COMMON_FILE = Some (common_source g)"
      with \<open>fs' COMMON_FILE = Some changed\<close> 1(2) have "once (common_source g) COMMON_WAKE COMMON_QUIET = Inr (common_source g)"
        by (simp add: common_change_Inr)
      with once_gone [OF this wake_edit(3)] once_Inr [OF this wake_edit(1)] show False by (auto simp: occurs_def)
    qed
    moreover have "(COMMON_FILE, common_source g) \<in> set original" using 1(3) by simp
    moreover have "fs' p \<noteq> None" if "(p, t) \<in> set original" for p t
    proof -
      from that have "p \<in> set (map fst original)" by force
      then have "p \<in> set (paths @ [COMMON_FILE])" unfolding 1(5) .
      from there [OF this] show ?thesis by (rule conjunct2)
    qed
    ultimately have "check_original original fs' = Some PatchError"
      by (intro check_original_changed) blast+
    with p(1) again dirty have
        "client_main sha pin paths table ?g True att' fs' = (fs', Some PatchError)"
        "client_main sha pin paths table ?g False att' fs' = (fs', None)"
      by (simp_all add: client_main_def)
    with p(2) w o show ?thesis by blast
  qed
qed

definition toy_git :: client_git where
  "toy_git = \<lparr>client_commit = ''pin'', client_source = (\<lambda>_. ''abc''), client_dirty = [],
     common_commit = COMMON_PIN, common_source = COMMON_WAKE, common_dirty = []\<rparr>"

lemma toy_wake: "once COMMON_WAKE COMMON_WAKE COMMON_QUIET = Inr COMMON_QUIET"
  by code_simp

lemma toy_planned:
  "planned id [''a''] [''a'' \<mapsto> [Once ''b'' ''x'']] toy_git [''a'' \<mapsto> ''abc'', COMMON_FILE \<mapsto> COMMON_WAKE] =
     Inr ([(''a'', ''abc''), (COMMON_FILE, COMMON_WAKE)], [(''a'', ''axc''), (COMMON_FILE, COMMON_QUIET)])"
proof -
  have "once ''abc'' ''b'' ''x'' = Inr ''axc''" by code_simp
  then show ?thesis by (simp add: planned_def common_change_def toy_git_def toy_wake)
qed

theorem client_rechecked_witness:
  "\<exists>fs'. client_main id ''pin'' [''a''] [''a'' \<mapsto> [Once ''b'' ''x'']] toy_git True (\<lambda>_. None)
       [''a'' \<mapsto> ''abc'', COMMON_FILE \<mapsto> COMMON_WAKE] = (fs', None) \<and>
     client_main id ''pin'' [''a''] [''a'' \<mapsto> [Once ''b'' ''x'']]
       (toy_git\<lparr>client_dirty := [''a'', COMMON_PATH], common_dirty := [''src/Connection.c'']\<rparr>) False (\<lambda>_. None) fs' =
         (fs', None)"
proof -
  have "COMMON_FILE \<noteq> ''a''" by (simp add: COMMON_FILE_def COMMON_PATH_def)
  then have "\<exists>fs'. client_main id ''pin'' [''a''] [''a'' \<mapsto> [Once ''b'' ''x'']] toy_git True (\<lambda>_. None)
       [''a'' \<mapsto> ''abc'', COMMON_FILE \<mapsto> COMMON_WAKE] = (fs', None)"
    unfolding client_main_def toy_planned by (simp add: toy_git_def apply_changes_def write_text_def)
  then obtain fs' where s: "client_main id ''pin'' [''a''] [''a'' \<mapsto> [Once ''b'' ''x'']] toy_git True (\<lambda>_. None)
       [''a'' \<mapsto> ''abc'', COMMON_FILE \<mapsto> COMMON_WAKE] = (fs', None)" by blast
  have "tidy_paths ([''a''] @ [COMMON_FILE])" by code_simp
  from client_rechecked [OF s this, of "[''a'', COMMON_PATH]" "[''src/Connection.c'']"] s show ?thesis by auto
qed

end
