(* ===== verification/Audio_Bind.thy ===== *)
theory Audio_Bind
  imports Hid_Prelude
begin

text \<open>
  \<open>tools/hdmirx_audio_bind.py\<close>: rebinding the audio codec of the HDMI receiver
  with rollback.  Every write to sysfs and both module commands are operations;
  \<open>fails\<close> says which of them raise.  The result is the list of operations
  attempted, in order, and the exception.
\<close>

datatype op =
    Machine_Unbind | Insmod | Old_Unbind | Set_Override | New_Bind | Machine_Bind
  | New_Unbind | Clear_Override | Old_Bind | Rmmod

text \<open>The file and the value an operation writes.\<close>

definition CODEC :: string where
  "CODEC = ''hdmi-audio-codec.5.auto''"

definition MACHINE :: string where
  "MACHINE = ''/sys/bus/platform/drivers/rk-hdmi-sound''"

definition NEW :: string where
  "NEW = ''/sys/bus/platform/drivers/rkmoon-hdmirx-codec''"

definition OLD :: string where
  "OLD = ''/sys/bus/platform/drivers/hdmi-audio-codec''"

definition DEVICE :: string where
  "DEVICE = ''/sys/bus/platform/devices/'' @ CODEC"

fun op_write :: "op \<Rightarrow> (string \<times> string) option" where
  "op_write Machine_Unbind = Some (MACHINE @ ''/unbind'', ''hdmiin-sound'')"
| "op_write Old_Unbind = Some (OLD @ ''/unbind'', CODEC)"
| "op_write Set_Override = Some (DEVICE @ ''/driver_override'', ''rkmoon-hdmirx-codec'')"
| "op_write New_Bind = Some (NEW @ ''/bind'', CODEC)"
| "op_write Machine_Bind = Some (MACHINE @ ''/bind'', ''hdmiin-sound'')"
| "op_write New_Unbind = Some (NEW @ ''/unbind'', CODEC)"
| "op_write Clear_Override = Some (DEVICE @ ''/driver_override'', [CHR 0x0A])"
| "op_write Old_Bind = Some (OLD @ ''/bind'', CODEC)"
| "op_write Insmod = None"
| "op_write Rmmod = None"

text \<open>\<open>pcm\<close> is \<open>/proc/asound/pcm\<close>, \<open>None\<close> where it cannot be read.\<close>

definition capture_ready :: "string option \<Rightarrow> bool res" where
  "capture_ready pcm =
     (case pcm of
        None \<Rightarrow> Inl OSError
      | Some t \<Rightarrow>
          (case splitlines t of
             [] \<Rightarrow> Inl IndexError
           | first # _ \<Rightarrow>
               Inr (is_prefix ''00-00: rockchip-hdmiin'' first \<and> find_sub ''capture 1'' first \<noteq> None)))"

record bind_env =
  release_ok :: bool
  parent_ok :: bool
  driver :: string
  pcm_before :: "string option"
  sha_ok :: bool
  new_present :: bool
  op_fails :: "op \<Rightarrow> bool"
  pcm_after :: "string option"

definition forward :: "bind_env \<Rightarrow> op list" where
  "forward e =
     [Machine_Unbind] @ (if new_present e then [] else [Insmod])
     @ [Old_Unbind, Set_Override, New_Bind, Machine_Bind]"

text \<open>The operations that completed, and whether one failed.\<close>

fun run_ops :: "(op \<Rightarrow> bool) \<Rightarrow> op list \<Rightarrow> op list \<times> op option" where
  "run_ops f [] = ([], None)"
| "run_ops f (x # xs) =
     (if f x then ([], Some x) else (case run_ops f xs of (d, r) \<Rightarrow> (x # d, r)))"

definition rollback :: "op list \<Rightarrow> op list" where
  "rollback steps =
     (if Machine_Unbind \<in> set steps then [Machine_Unbind] else [])
     @ (if New_Bind \<in> set steps then [New_Unbind] else [])
     @ (if Set_Override \<in> set steps then [Clear_Override] else [])
     @ (if Old_Unbind \<in> set steps then [Old_Bind] else [])
     @ [Machine_Bind]
     @ (if Insmod \<in> set steps then [Rmmod] else [])"

definition bind_main :: "bind_env \<Rightarrow> op list \<times> exn option" where
  "bind_main e =
     (if \<not> release_ok e then ([], Some SystemExit)
      else if \<not> parent_ok e then ([], Some SystemExit)
      else
        (case (if driver e = ''rkmoon-hdmirx-codec'' then capture_ready (pcm_before e) else Inr False) of
           Inl x \<Rightarrow> ([], Some x)
         | Inr ready \<Rightarrow>
             if ready then ([], None)
             else if driver e \<noteq> ''hdmi-audio-codec'' then ([], Some SystemExit)
             else if \<not> sha_ok e then ([], Some SystemExit)
             else
               (case run_ops (op_fails e) (forward e) of
                  (steps, Some x) \<Rightarrow> (steps @ [x] @ rollback steps, Some SystemExit)
                | (steps, None) \<Rightarrow>
                    if capture_ready (pcm_after e) = Inr True then (steps, None)
                    else (steps @ rollback steps, Some SystemExit))))"

section \<open>The rollback\<close>

fun undo :: "op \<Rightarrow> op option" where
  "undo Machine_Unbind = Some Machine_Bind"
| "undo Insmod = Some Rmmod"
| "undo Old_Unbind = Some Old_Bind"
| "undo Set_Override = Some Clear_Override"
| "undo New_Bind = Some New_Unbind"
| "undo Machine_Bind = Some Machine_Unbind"
| "undo _ = None"

lemma run_ops_prefix:
  "run_ops f xs = (d, r) \<Longrightarrow> \<exists>rest. xs = d @ rest \<and> (\<forall>x\<in>set d. \<not> f x) \<and>
     (case r of None \<Rightarrow> rest = [] | Some x \<Rightarrow> f x \<and> rest \<noteq> [] \<and> hd rest = x)"
proof (induction xs arbitrary: d)
  case (Cons x xs)
  show ?case
  proof (cases "f x")
    case True
    then show ?thesis using Cons.prems by auto
  next
    case False
    obtain d' where d': "run_ops f xs = (d', r)" "d = x # d'"
      using Cons.prems False by (auto split: prod.splits)
    from Cons.IH [OF d'(1)] False d'(2) show ?thesis by auto
  qed
qed auto

lemma rollback_undoes:
  assumes "steps @ rest = forward e" "x \<in> set steps" "undo x = Some y"
  shows "y \<in> set (rollback steps)"
proof (cases x)
  case Machine_Bind
  with assms have "Machine_Unbind \<in> set steps"
    by (cases steps) (auto simp: forward_def split: if_splits)
  with assms Machine_Bind show ?thesis by (simp add: rollback_def)
qed (use assms in \<open>auto simp: rollback_def\<close>)

lemma rollback_only:
  "y \<in> set (rollback steps) \<Longrightarrow>
     y = Machine_Bind \<or> y = Machine_Unbind \<and> Machine_Unbind \<in> set steps \<or>
     (\<exists>x\<in>set steps. undo x = Some y)"
  by (auto simp: rollback_def split: if_splits intro: bexI [of _ Machine_Unbind] bexI [of _ New_Bind]
      bexI [of _ Set_Override] bexI [of _ Old_Unbind] bexI [of _ Insmod])

text \<open>
  What binds the codec.  Unbinding a driver and binding another are the only
  ways to change it; a failed operation changes nothing.
\<close>

datatype owner = Nobody | Old_Driver | New_Driver

fun owner_after :: "op \<Rightarrow> owner \<Rightarrow> owner" where
  "owner_after Old_Unbind s = (if s = Old_Driver then Nobody else s)"
| "owner_after New_Unbind s = (if s = New_Driver then Nobody else s)"
| "owner_after New_Bind s = (if s = Nobody then New_Driver else s)"
| "owner_after Old_Bind s = (if s = Nobody then Old_Driver else s)"
| "owner_after x s = s"

lemma bind_main_cases:
  assumes "bind_main e = (ops, r)"
  shows "ops = [] \<or>
    (\<exists>steps rest. forward e = steps @ rest \<and>
       (r = None \<and> ops = steps \<and> rest = [] \<and> capture_ready (pcm_after e) = Inr True \<or>
        r = Some SystemExit \<and> (ops = steps @ rollback steps \<or>
          (\<exists>x. op_fails e x \<and> ops = steps @ [x] @ rollback steps \<and> rest \<noteq> [] \<and> hd rest = x))))"
proof (cases "run_ops (op_fails e) (forward e)")
  case (Pair steps q)
  from run_ops_prefix [OF Pair] obtain rest where rest: "forward e = steps @ rest"
    "case q of None \<Rightarrow> rest = [] | Some x \<Rightarrow> op_fails e x \<and> rest \<noteq> [] \<and> hd rest = x"
    by blast
  show ?thesis
  proof (cases q)
    case None
    then show ?thesis using assms Pair rest by (auto simp: bind_main_def split: if_splits sum.splits)
  next
    case (Some x)
    then have "ops = [] \<or> ops = steps @ [x] @ rollback steps \<and> r = Some SystemExit"
      using assms Pair by (auto simp: bind_main_def split: if_splits sum.splits)
    then show ?thesis using rest Some by auto
  qed
qed

lemma owner_restored:
  assumes "forward e = steps @ rest"
  shows "fold owner_after (steps @ rollback steps) Old_Driver = Old_Driver"
proof -
  have f: "forward e = [Machine_Unbind, Old_Unbind, Set_Override, New_Bind, Machine_Bind] \<or>
      forward e = [Machine_Unbind, Insmod, Old_Unbind, Set_Override, New_Bind, Machine_Bind]"
    by (simp add: forward_def)
  have "steps = take (length steps) (forward e)" "length steps \<le> length (forward e)"
    using assms by simp_all
  then have "\<exists>n \<le> 6. steps = take n [Machine_Unbind, Old_Unbind, Set_Override, New_Bind, Machine_Bind] \<or>
      steps = take n [Machine_Unbind, Insmod, Old_Unbind, Set_Override, New_Bind, Machine_Bind]"
    using f by (intro exI [of _ "length steps"]) auto
  then obtain n where n: "n \<le> 6" "steps = take n [Machine_Unbind, Old_Unbind, Set_Override, New_Bind, Machine_Bind] \<or>
      steps = take n [Machine_Unbind, Insmod, Old_Unbind, Set_Override, New_Bind, Machine_Bind]"
    by blast
  from n(1) have "n \<in> set [0, 1, 2, 3, 4, 5, 6]" by auto
  then show ?thesis using n(2) by (auto simp: rollback_def)
qed

lemma fold_filter_idle:
  "(\<And>x y. x \<in> set xs \<Longrightarrow> \<not> P x \<Longrightarrow> f x y = y) \<Longrightarrow> fold f (filter P xs) s = fold f xs s"
  by (induction xs arbitrary: s) simp_all



end
