(* ===== verification/Steps.thy ===== *)
theory Steps
  imports Hid_Prelude
begin

text \<open>
  Scripts: a list of steps, each of which changes the state and may raise, run in
  order up to the first exception.  The installers and the fetchers are such scripts;
  what one of them keeps is a relation between states that every step respects, so
  the lemmas about whole scripts are proved once, in the locale \<open>kept\<close>.
\<close>

type_synonym 's outcome = "'s \<times> exn option"

definition proceed :: "'s outcome \<Rightarrow> ('s \<Rightarrow> 's outcome) \<Rightarrow> 's outcome" where
  "proceed r f = (case r of (s, Some e) \<Rightarrow> (s, Some e) | (s, None) \<Rightarrow> f s)"

fun run_steps :: "('s \<Rightarrow> 's outcome) list \<Rightarrow> 's \<Rightarrow> 's outcome" where
  "run_steps [] s = (s, None)"
| "run_steps (f # fs) s = proceed (f s) (run_steps fs)"

lemma proceed_done: "proceed r f = (s', None) \<longleftrightarrow> (\<exists>s. r = (s, None) \<and> f s = (s', None))"
  by (cases r; cases "snd r") (auto simp: proceed_def)

lemma proceed_simps [simp]:
  "proceed (s, None) f = f s"
  "proceed (s, Some e) f = (s, Some e)"
  by (simp_all add: proceed_def)

lemma proceed_assoc: "proceed (proceed r f) g = proceed r (\<lambda>s. proceed (f s) g)"
  by (cases r; cases "snd r") (auto simp: proceed_def)

lemma run_steps_append: "run_steps (fs @ gs) s = proceed (run_steps fs s) (run_steps gs)"
proof (induction fs arbitrary: s)
  case (Cons f fs)
  then show ?case by (cases "f s"; cases "snd (f s)") (auto simp: proceed_def)
qed simp

text \<open>A script returns when each of its steps does.\<close>

lemma run_steps_works: "(\<And>f s. f \<in> set fs \<Longrightarrow> \<exists>s'. f s = (s', None)) \<Longrightarrow> \<exists>s'. run_steps fs s = (s', None)"
proof (induction fs arbitrary: s)
  case (Cons f fs)
  obtain t where "f s = (t, None)" using Cons.prems [of f s] by auto
  moreover obtain u where "run_steps fs t = (u, None)" using Cons.IH [of t] Cons.prems by auto
  ultimately show ?case by simp
qed simp

locale kept =
  fixes rel :: "'s \<Rightarrow> 's \<Rightarrow> bool"
  assumes rel_refl: "rel s s"
    and rel_trans: "rel s t \<Longrightarrow> rel t u \<Longrightarrow> rel s u"
begin

lemma by_proceed:
  assumes "rel s (fst r)" and "\<And>t. r = (t, None) \<Longrightarrow> rel t (fst (f t))"
  shows "rel s (fst (proceed r f))"
proof (cases r)
  case (Pair t e)
  then show ?thesis
  proof (cases e)
    case None
    with Pair assms rel_trans [of s t] show ?thesis by simp
  next
    case (Some x)
    with Pair assms(1) show ?thesis by simp
  qed
qed

lemma by_steps: "(\<And>f t. f \<in> set fs \<Longrightarrow> rel t (fst (f t))) \<Longrightarrow> rel s (fst (run_steps fs s))"
proof (induction fs arbitrary: s)
  case (Cons f fs)
  show ?case unfolding run_steps.simps
    by (rule by_proceed) (use Cons in auto)
qed (simp add: rel_refl)

text \<open>In a script that returned, each step returned, between the start and the end.\<close>

lemma by_steps_done:
  assumes "run_steps fs s = (s', None)" and "f \<in> set fs" and "\<And>f t. f \<in> set fs \<Longrightarrow> rel t (fst (f t))"
  shows "\<exists>t u. rel s t \<and> f t = (u, None) \<and> rel u s'"
  using assms
proof (induction fs arbitrary: s)
  case (Cons g gs)
  from Cons.prems(1) obtain v where v: "g s = (v, None)" "run_steps gs v = (s', None)" by (auto simp: proceed_done)
  from Cons.prems(3) [of g s] v(1) have g: "rel s v" by simp
  show ?case
  proof (cases "f = g")
    case True
    have "rel v (fst (run_steps gs v))" by (rule by_steps) (simp add: Cons.prems(3))
    with v True rel_refl [of s] show ?thesis by auto
  next
    case False
    with Cons.IH [OF v(2)] Cons.prems(2,3) obtain t u where "rel v t" "f t = (u, None)" "rel u s'" by auto
    with rel_trans [OF g] show ?thesis by blast
  qed
qed simp

text \<open>The list form that \<open>intro\<close> takes apart.\<close>

lemma by_nil: "rel s (fst (run_steps [] s))"
  by (simp add: rel_refl)

lemma by_cons:
  assumes "rel s (fst (f s))" and "\<And>t. rel t (fst (run_steps fs t))"
  shows "rel s (fst (run_steps (f # fs) s))"
  unfolding run_steps.simps by (rule by_proceed [OF assms(1)]) (rule assms(2))

end

end
