(* ===== verification/Install.thy ===== *)
theory Install
  imports Steps Run_Config Prepare Hid_Http "HOL-Library.Char_ord" "HOL-Library.List_Lexorder"
begin

text \<open>
  Releases: what \<open>tools/package_server.py\<close> assembles and what
  \<open>tools/install_server.py\<close> does with it, from the group memberships to the start
  of the services.  A release is its files (path and content) with the parsed
  manifest, \<open>None\<close> where the file is missing.  The digest, the exit codes of the
  commands and whether a copy ran to its end are arguments; owners and the archive
  format are not modelled.
\<close>

type_synonym contents = "(string \<times> string) list"

record release =
  files :: contents
  manifest :: "json option"

section \<open>\<open>package_server.py\<close>\<close>

text \<open>The parts of a path, as \<open>pathlib\<close> compares them.\<close>

fun parts :: "string \<Rightarrow> string list" where
  "parts [] = [[]]"
| "parts (c # cs) =
     (if c = CHR ''/'' then [] # parts cs
      else (case parts cs of [] \<Rightarrow> [[c]] | p # ps \<Rightarrow> (c # p) # ps))"

definition TOOLS :: "string list" where
  "TOOLS = [''run.py'', ''child_exec.py'', ''systemd_release.py'', ''hdmirx_audio_bind.py'', ''edid_apply.py'',
     ''install_server.py'']"

definition UNITS :: "string list" where
  "UNITS = [''rkmoon.service'', ''rkmoon-edid.service'', ''rkmoon-hdmirx-audio.service'']"

definition SHIPPED_CONFIG :: "string list" where
  "SHIPPED_CONFIG = [''rkmoon-edid-eight-modes.bin'', ''edid-requested-modes.json'']"

text \<open>
  The built artifacts and the checkout.  Directories are listed in order, an entry
  that is no file has no body.
\<close>

record artifacts =
  server :: "string option"
  worker :: "string option"
  assets :: "string \<rightharpoonup> string"
  runtime_libs :: "(string \<times> string option) list"
  mpp_lib :: "string option"
  codec_ko :: "string option"
  hid_sources :: contents
  repo :: "string \<rightharpoonup> string"
  licenses :: "(string \<times> string option) list option"

definition shipped_source :: "string \<Rightarrow> bool" where
  "shipped_source p \<longleftrightarrow> ''__pycache__'' \<notin> set (parts p) \<and> drop (length p - 4) p \<noteq> ''.pyc''"

definition copies :: "artifacts \<Rightarrow> (string \<times> string option) list" where
  "copies a =
     [(''bin/rkmoon-kvm'', server a), (''bin/rkmoon-worker'', worker a),
      (''bin/assets/apps.json'', assets a ''apps.json''), (''bin/assets/box.png'', assets a ''box.png'')] @
     map (\<lambda>(n, b). (''lib/'' @ n, b))
       (filter (\<lambda>(n, b). find_sub ''.so'' n \<noteq> None \<and> b \<noteq> None) (runtime_libs a)) @
     [(''lib/librockchip_mpp.so.1'', mpp_lib a), (''kernel/rkmoon_hdmirx_codec.ko'', codec_ko a)] @
     map (\<lambda>(p, b). (''python/rkmoon_hid/'' @ p, Some b)) (filter (\<lambda>(p, b). shipped_source p) (hid_sources a)) @
     map (\<lambda>n. (''tools/'' @ n, repo a (''tools/'' @ n))) TOOLS @
     map (\<lambda>n. (''systemd/'' @ n, repo a (''systemd/'' @ n))) UNITS @
     map (\<lambda>n. (''config/'' @ n, repo a (''config/'' @ n))) SHIPPED_CONFIG @
     (if repo a ''LICENSE'' \<noteq> None then [(''licenses/RKMoon-LICENSE'', repo a ''LICENSE'')] else []) @
     (case licenses a of
        None \<Rightarrow> []
      | Some fs \<Rightarrow> map (\<lambda>(n, b). (''licenses/'' @ n, b)) (filter (\<lambda>(n, b). b \<noteq> None) fs))"

text \<open>A second copy to the same place replaces the first; a missing source raises.\<close>

definition put_file :: "string \<Rightarrow> string \<Rightarrow> contents \<Rightarrow> contents" where
  "put_file name body fs = filter (\<lambda>(n, b). n \<noteq> name) fs @ [(name, body)]"

fun copy_all :: "(string \<times> string option) list \<Rightarrow> contents \<Rightarrow> contents res" where
  "copy_all [] fs = Inr fs"
| "copy_all ((name, None) # rest) fs = Inl OSError"
| "copy_all ((name, Some body) # rest) fs = copy_all rest (put_file name body fs)"

definition file_mode :: "string \<Rightarrow> nat" where
  "file_mode p = (case rev (parts p) of _ # d # _ \<Rightarrow> if d \<in> {''bin'', ''tools''} then 493 else 420 | _ \<Rightarrow> 420)"

definition package_manifest :: "(string \<Rightarrow> string) \<Rightarrow> string \<Rightarrow> string \<Rightarrow> contents \<Rightarrow> json" where
  "package_manifest sha version commit fs =
     JObj [(''version'', JStr version), (''source_commit'', JStr commit),
           (''files'', JObj (map (\<lambda>(name, body). (name, JStr (sha body))) (sort_key (parts \<circ> fst) fs)))]"

text \<open>
  What git prints for the revision, \<open>None\<close> where that fails, and the exit code of its
  \<open>diff\<close>, \<open>None\<close> where it cannot be run.
\<close>

definition commit_name :: "string option \<Rightarrow> int option \<Rightarrow> string" where
  "commit_name printed changed =
     (case (printed, changed) of
        (Some revision, Some code) \<Rightarrow> strip is_str_space revision @ (if code \<noteq> 0 then ''-dirty'' else [])
      | _ \<Rightarrow> ''unknown'')"

definition package_version :: "string option \<Rightarrow> string \<Rightarrow> string \<Rightarrow> string" where
  "package_version wanted stamp commit =
     (case wanted of Some v \<Rightarrow> if v \<noteq> [] then v else stamp @ ''-'' @ commit | None \<Rightarrow> stamp @ ''-'' @ commit)"

definition package_main :: "(string \<Rightarrow> string) \<Rightarrow> bool \<Rightarrow> string \<Rightarrow> string \<Rightarrow> artifacts \<Rightarrow> release res" where
  "package_main sha exists version commit a =
     (if exists then Inl SystemExit
      else
        (case copy_all (copies a) [] of
           Inl e \<Rightarrow> Inl e
         | Inr fs \<Rightarrow> Inr \<lparr>files = fs, manifest = Some (package_manifest sha version commit fs)\<rparr>))"

section \<open>\<open>install_server.py\<close>\<close>

text \<open>The loop of \<open>verify\<close>; a file that is missing raises.\<close>

fun verify_files :: "(string \<Rightarrow> string) \<Rightarrow> contents \<Rightarrow> (string \<times> json) list \<Rightarrow> exn option" where
  "verify_files sha fs [] = None"
| "verify_files sha fs ((name, digest) # rest) =
     (case map_of fs name of
        None \<Rightarrow> Some OSError
      | Some body \<Rightarrow>
          if JStr (sha body) \<noteq> digest then Some SystemExit else verify_files sha fs rest)"

definition verify :: "(string \<Rightarrow> string) \<Rightarrow> release \<Rightarrow> json res" where
  "verify sha r =
     (case manifest r of
        None \<Rightarrow> Inl OSError
      | Some (JObj m) \<Rightarrow>
          (case map_of m ''files'' of
             None \<Rightarrow> Inl KeyError
           | Some (JObj fs) \<Rightarrow>
               (case verify_files sha (files r) fs of
                  Some e \<Rightarrow> Inl e
                | None \<Rightarrow>
                    (case map_of m ''version'' of None \<Rightarrow> Inl KeyError | Some v \<Rightarrow> Inr v))
           | Some _ \<Rightarrow> Inl AttributeError)
      | Some _ \<Rightarrow> Inl TypeError)"

text \<open>\<open>--release\<close> is a directory or an archive with its top directories.\<close>

datatype source = Directory release | Archive "release list"

text \<open>The archive \<open>package_server.py\<close> writes beside the directory.\<close>

definition package_archive :: "release \<Rightarrow> source" where
  "package_archive r = Archive [r]"

fun unpack :: "source \<Rightarrow> release res" where
  "unpack (Directory r) = Inr r"
| "unpack (Archive [r]) = Inr r"
| "unpack (Archive _) = Inl ValueError"

text \<open>
  The installed releases, the symlink \<open>current\<close>, the configuration, the unit files,
  the identity of the server in its state, and the commands run so far.
\<close>

record host =
  accounts :: "string list"
  groups :: "(string \<times> string list) list"
  installed :: "string \<rightharpoonup> release"
  current :: "string option"
  config :: "json option"
  units :: "string \<rightharpoonup> string"
  identity :: "string option"
  commands :: "string list list"

text \<open>\<open>run\<close> with \<open>check\<close>; \<open>ok\<close> are the commands that return 0.\<close>

definition run :: "(string list \<Rightarrow> bool) \<Rightarrow> string list \<Rightarrow> host \<Rightarrow> host outcome" where
  "run ok cmd h = (h\<lparr>commands := commands h @ [cmd]\<rparr>, if ok cmd then None else Some CalledProcessError)"

definition GROUPS :: "string list" where
  "GROUPS = [''video'', ''audio'', ''render'', ''rkmoon-input'']"

fun join_groups :: "(string list \<Rightarrow> bool) \<Rightarrow> string \<Rightarrow> string list \<Rightarrow> host \<Rightarrow> host outcome" where
  "join_groups ok user [] h = (h, None)"
| "join_groups ok user (g # gs) h =
     (case map_of (groups h) g of
        None \<Rightarrow> join_groups ok user gs h
      | Some members \<Rightarrow>
          if user \<in> set members then join_groups ok user gs h
          else proceed (run ok [''usermod'', ''-a'', ''-G'', g, user] h) (join_groups ok user gs))"

text \<open>
  The copy of a release to its place: \<open>left\<close> is what is there when it was cut
  short.  A release that is already there is not copied.
\<close>

definition place_release ::
  "(string list \<Rightarrow> bool) \<Rightarrow> release option \<Rightarrow> string \<Rightarrow> release \<Rightarrow> host \<Rightarrow> host outcome" where
  "place_release ok left v r h =
     (if installed h v \<noteq> None then (h, None)
      else
        (case left of
           Some partial \<Rightarrow> (h\<lparr>installed := (installed h)(v \<mapsto> partial)\<rparr>, Some OSError)
         | None \<Rightarrow>
             run ok [''chown'', ''-R'', ''root:root'', ''/opt/rkmoon/releases/'' @ v]
               (h\<lparr>installed := (installed h)(v \<mapsto> r)\<rparr>)))"

definition activate :: "string \<Rightarrow> host \<Rightarrow> host outcome" where
  "activate version h =
     (if installed h version = None then (h, Some SystemExit)
      else (h\<lparr>current := Some version\<rparr>, None))"

definition write_runtime :: "string \<Rightarrow> host \<Rightarrow> host outcome" where
  "write_runtime user h = (if config h = None then h\<lparr>config := Some (runtime_config user)\<rparr> else h, None)"

text \<open>\<open>old\<close> is the identity in the directory given, if any.\<close>

definition migrate_state :: "string option \<Rightarrow> host \<Rightarrow> host outcome" where
  "migrate_state old h =
     (if old \<noteq> None \<and> identity h = None then h\<lparr>identity := old\<rparr> else h, None)"

definition ORDER :: "string list" where
  "ORDER = [''rkmoon-hdmirx-audio.service'', ''rkmoon-edid.service'', ''rkmoon.service'']"

fun write_units :: "contents \<Rightarrow> string \<Rightarrow> string list \<Rightarrow> host \<Rightarrow> host outcome" where
  "write_units fs user [] h = (h, None)"
| "write_units fs user (n # ns) h =
     (case map_of fs (''systemd/'' @ n) of
        None \<Rightarrow> (h, Some OSError)
      | Some text \<Rightarrow> write_units fs user ns (h\<lparr>units := (units h)(n \<mapsto> replace_all ''@USER@'' user text)\<rparr>))"

definition install_units :: "(string list \<Rightarrow> bool) \<Rightarrow> contents \<Rightarrow> string \<Rightarrow> host \<Rightarrow> host outcome" where
  "install_units ok fs user h = proceed (write_units fs user ORDER h) (run ok [''systemctl'', ''daemon-reload''])"

text \<open>The status shown after a start is not checked.\<close>

definition start_services :: "(string list \<Rightarrow> bool) \<Rightarrow> host \<Rightarrow> host outcome" where
  "start_services ok h =
     run_steps
       [run ok [''systemctl'', ''start'', ''rkmoon-hdmirx-audio.service'', ''rkmoon-edid.service''],
        run ok [''systemctl'', ''restart'', ''rkmoon.service''],
        run (\<lambda>_. True) [''systemctl'', ''--no-pager'', ''status'', ''rkmoon.service'']] h"

definition switch_to ::
  "(string \<Rightarrow> string) \<Rightarrow> (string list \<Rightarrow> bool) \<Rightarrow> string \<Rightarrow> string option option \<Rightarrow> bool \<Rightarrow> string \<Rightarrow> host \<Rightarrow> host outcome" where
  "switch_to sha ok user migrate begin_now version h =
     (case installed h version of
        None \<Rightarrow> (h, Some OSError)
      | Some r \<Rightarrow>
          (case verify sha r of
             Inl e \<Rightarrow> (h, Some e)
           | Inr _ \<Rightarrow>
               run_steps
                 [activate version,
                  write_runtime user,
                  \<lambda>h1. case migrate of None \<Rightarrow> (h1, None) | Some old \<Rightarrow> migrate_state old h1,
                  install_units ok (files r) user,
                  run ok (''systemctl'' # ''enable'' # ORDER),
                  \<lambda>h1. if begin_now then start_services ok h1 else (h1, None)] h))"

text \<open>
  The options of \<open>main\<close>; \<open>migrate\<close> is given with what the old directory holds.
  A version that is not a string is no path (\<open>TypeError\<close>).
\<close>

record options =
  root_user :: bool
  user_name :: string
  release_source :: "source option"
  activate_version :: "string option"
  migrate_from :: "string option option"
  start_now :: bool

definition install_source ::
  "(string \<Rightarrow> string) \<Rightarrow> (string list \<Rightarrow> bool) \<Rightarrow> release option \<Rightarrow> source \<Rightarrow> (string \<Rightarrow> host \<Rightarrow> host outcome) \<Rightarrow>
   host \<Rightarrow> host outcome" where
  "install_source sha ok left src finish h =
     (case unpack src of
        Inl e \<Rightarrow> (h, Some e)
      | Inr r \<Rightarrow>
          (case verify sha r of
             Inl e \<Rightarrow> (h, Some e)
           | Inr (JStr v) \<Rightarrow> proceed (place_release ok left v r h) (finish v)
           | Inr _ \<Rightarrow> (h, Some TypeError)))"

definition install_main ::
  "(string \<Rightarrow> string) \<Rightarrow> (string list \<Rightarrow> bool) \<Rightarrow> release option \<Rightarrow> options \<Rightarrow> host \<Rightarrow> host outcome" where
  "install_main sha ok left opt h =
     (if \<not> root_user opt then (h, Some SystemExit)
      else if release_source opt = None \<and> activate_version opt \<in> {None, Some []} then (h, Some SystemExit)
      else if user_name opt \<notin> set (accounts h) then (h, Some KeyError)
      else
        (let finish = switch_to sha ok (user_name opt) (migrate_from opt) (start_now opt) in
           proceed (join_groups ok (user_name opt) GROUPS h)
             (case release_source opt of
                None \<Rightarrow> finish (the (activate_version opt))
              | Some src \<Rightarrow> install_source sha ok left src finish)))"

section \<open>A package verifies\<close>

lemma verify_files_None:
  "verify_files sha fs ds = None \<longleftrightarrow>
     (\<forall>(name, digest) \<in> set ds. \<exists>body. map_of fs name = Some body \<and> digest = JStr (sha body))"
  by (induction sha fs ds rule: verify_files.induct) (auto split: option.splits)

lemma verify_package:
  assumes "distinct (map fst fs)"
  shows "verify sha \<lparr>files = fs, manifest = Some (package_manifest sha version commit fs)\<rparr> = Inr (JStr version)"
proof -
  have "verify_files sha fs (map (\<lambda>(name, body). (name, JStr (sha body))) (sort_key (parts \<circ> fst) fs)) = None"
    unfolding verify_files_None using assms by (auto simp: map_of_eq_Some_iff)
  then show ?thesis by (simp add: verify_def package_manifest_def)
qed

lemma verify_tampered:
  assumes "(name, body) \<in> set fs" "map_of gs name = Some body'" "sha body' \<noteq> sha body"
  shows "isl (verify sha \<lparr>files = gs, manifest = Some (package_manifest sha version commit fs)\<rparr>)"
proof -
  have "verify_files sha gs (map (\<lambda>(name, body). (name, JStr (sha body))) (sort_key (parts \<circ> fst) fs)) \<noteq> None"
    unfolding verify_files_None using assms by force
  then show ?thesis by (auto simp: verify_def package_manifest_def)
qed

lemma put_file_lookup: "map_of (put_file name body fs) n = (if n = name then Some body else map_of fs n)"
proof -
  have "map_of (filter (\<lambda>(m, b). m \<noteq> name) fs) n = (if n = name then None else map_of fs n)"
    by (induction fs) auto
  then show ?thesis by (simp add: put_file_def map_add_def split: option.splits)
qed

lemma copy_all_distinct: "copy_all cs fs = Inr gs \<Longrightarrow> distinct (map fst fs) \<Longrightarrow> distinct (map fst gs)"
proof (induction cs fs rule: copy_all.induct)
  case (3 name body rest fs)
  have "distinct (map fst (filter (\<lambda>(n, b). n \<noteq> name) fs))" using 3(3) by (rule distinct_map_filter)
  then have "distinct (map fst (put_file name body fs))" by (auto simp: put_file_def)
  with 3 show ?case by simp
qed simp_all

lemma copy_all_lookup:
  "copy_all cs fs = Inr gs \<Longrightarrow> map_of gs n = (case map_of (rev cs) n of None \<Rightarrow> map_of fs n | Some b \<Rightarrow> b)"
  by (induction cs fs rule: copy_all.induct) (auto simp: put_file_lookup map_add_def split: option.splits)

lemma copy_all_bodies: "copy_all cs fs = Inr gs \<Longrightarrow> (n, b) \<in> set cs \<Longrightarrow> b \<noteq> None"
  by (induction cs fs rule: copy_all.induct) auto

section \<open>What an installation keeps\<close>

text \<open>What every part of \<open>main\<close> keeps, and what it may do to the active release.\<close>

definition keeps :: "(string \<Rightarrow> string) \<Rightarrow> host \<Rightarrow> host \<Rightarrow> bool" where
  "keeps sha h h' \<longleftrightarrow>
     (\<forall>v x. installed h v = Some x \<longrightarrow> installed h' v = Some x) \<and>
     (\<forall>c. config h = Some c \<longrightarrow> config h' = Some c) \<and>
     (\<forall>i. identity h = Some i \<longrightarrow> identity h' = Some i) \<and>
     (current h' = current h \<or>
      (\<exists>v x. current h' = Some v \<and> installed h' v = Some x \<and> \<not> isl (verify sha x))) \<and>
     (\<exists>cs. commands h' = commands h @ cs)"

lemma keeps_refl [simp]: "keeps sha h h"
  by (simp add: keeps_def)

lemma keeps_trans:
  assumes "keeps sha h h1" and "keeps sha h1 h2"
  shows "keeps sha h h2"
proof -
  from assms obtain cs ds where "commands h1 = commands h @ cs" "commands h2 = commands h1 @ ds"
    by (auto simp: keeps_def)
  then have "commands h2 = commands h @ (cs @ ds)" by simp
  moreover have "current h2 = current h \<or>
      (\<exists>v x. current h2 = Some v \<and> installed h2 v = Some x \<and> \<not> isl (verify sha x))"
  proof (cases "current h2 = current h1")
    case True
    with assms show ?thesis by (auto simp: keeps_def)
  next
    case False
    with assms(2) show ?thesis by (auto simp: keeps_def)
  qed
  ultimately show ?thesis using assms by (auto simp: keeps_def)
qed

interpretation keeping: kept "keeps sha" for sha
  by unfold_locales (use keeps_trans in auto)

lemma keeps_run [simp]: "keeps sha h (fst (run ok cmd h))"
  by (simp add: run_def keeps_def)

lemma keeps_groups: "keeps sha h (fst (join_groups ok user gs h))"
  by (induction gs arbitrary: h) (auto split: option.splits intro!: keeping.by_proceed)

lemma keeps_place: "keeps sha h (fst (place_release ok left v r h))"
  by (auto simp: place_release_def run_def keeps_def split: option.splits)

lemma keeps_units: "keeps sha h (fst (write_units fs user ns h))"
proof (induction ns arbitrary: h)
  case (Cons n ns)
  have "keeps sha h (h\<lparr>units := u\<rparr>)" for u by (simp add: keeps_def)
  with Cons show ?case by (auto split: option.splits intro: keeps_trans)
qed simp

lemma keeps_runtime [simp]: "keeps sha h (fst (write_runtime user h))"
  by (simp add: write_runtime_def keeps_def)

lemma keeps_migrate [simp]: "keeps sha h (fst (migrate_state old h))"
  by (simp add: migrate_state_def keeps_def)

lemma keeps_install_units [simp]: "keeps sha h (fst (install_units ok fs user h))"
  unfolding install_units_def by (intro keeping.by_proceed keeps_units keeps_run)

lemma keeps_start [simp]: "keeps sha h (fst (start_services ok h))"
  unfolding start_services_def by (intro keeping.by_cons keeping.by_nil keeps_run)

lemma keeps_switch: "keeps sha h (fst (switch_to sha ok user migrate now v h))"
proof (cases "installed h v")
  case (Some r)
  show ?thesis
  proof (cases "verify sha r")
    case (Inr x)
    have "keeps sha h (fst (activate v h))" using Some Inr by (auto simp: activate_def keeps_def)
    then show ?thesis unfolding switch_to_def Some Inr option.case sum.case
      by (intro keeping.by_cons keeping.by_nil) (auto split: option.splits)
  qed (simp add: switch_to_def Some)
qed (simp add: switch_to_def)

lemma keeps_source:
  "(\<And>v h. keeps sha h (fst (finish v h))) \<Longrightarrow> keeps sha h (fst (install_source sha ok left src finish h))"
  by (auto simp: install_source_def keeps_place split: sum.splits json.splits intro!: keeping.by_proceed)

lemma keeps_main: "keeps sha h (fst (install_main sha ok left opt h))"
  unfolding install_main_def Let_def
  by (auto simp: keeps_groups keeps_switch keeps_source split: option.splits intro!: keeping.by_proceed)

section \<open>What a successful installation leaves\<close>

definition unit_text :: "contents \<Rightarrow> string \<Rightarrow> string \<Rightarrow> string option" where
  "unit_text fs user n = map_option (replace_all ''@USER@'' user) (map_of fs (''systemd/'' @ n))"

lemma run_done: "run ok cmd h = (h', None) \<longleftrightarrow> ok cmd \<and> h' = h\<lparr>commands := commands h @ [cmd]\<rparr>"
  by (auto simp: run_def)

lemma write_units_done:
  "write_units fs user ns h = (h', None) \<longleftrightarrow>
     (\<forall>n \<in> set ns. unit_text fs user n \<noteq> None) \<and>
     h' = h\<lparr>units := (\<lambda>m. if m \<in> set ns then unit_text fs user m else units h m)\<rparr>"
proof (induction ns arbitrary: h)
  case (Cons n ns)
  show ?case
  proof (cases "map_of fs (''systemd/'' @ n)")
    case None
    then show ?thesis by (simp add: unit_text_def)
  next
    case (Some t)
    let ?u = "(units h)(n \<mapsto> replace_all ''@USER@'' user t)"
    have n: "unit_text fs user n = Some (replace_all ''@USER@'' user t)" unfolding unit_text_def Some by simp
    then have u: "(\<lambda>m. if m \<in> set ns then unit_text fs user m else ?u m) =
        (\<lambda>m. if m \<in> set (n # ns) then unit_text fs user m else units h m)" by auto
    have sel: "units (h\<lparr>units := ?u\<rparr>) = ?u" by simp
    have "write_units fs user ns (h\<lparr>units := ?u\<rparr>) = (h', None) \<longleftrightarrow>
        (\<forall>n \<in> set ns. unit_text fs user n \<noteq> None) \<and>
        h' = h\<lparr>units := (\<lambda>m. if m \<in> set ns then unit_text fs user m else ?u m)\<rparr>"
      unfolding Cons.IH sel by simp
    then show ?thesis unfolding write_units.simps Some option.case u using n by simp
  qed
qed auto

lemma start_done:
  "start_services ok h = (h', None) \<Longrightarrow> \<exists>cs. h' = h\<lparr>commands := commands h @ cs\<rparr>"
  by (auto simp: start_services_def proceed_done run_done)

lemma switch_done:
  assumes "switch_to sha ok user migrate now v h = (h', None)"
  shows "\<exists>r. installed h v = Some r \<and> \<not> isl (verify sha r) \<and> current h' = Some v \<and> installed h' = installed h \<and>
    config h' = Some (case config h of None \<Rightarrow> runtime_config user | Some c \<Rightarrow> c) \<and>
    (\<forall>n \<in> set ORDER. unit_text (files r) user n \<noteq> None \<and> units h' n = unit_text (files r) user n) \<and>
    ''systemctl'' # ''enable'' # ORDER \<in> set (commands h')"
proof -
  from assms obtain r x where r: "installed h v = Some r" "verify sha r = Inr x"
    by (auto simp: switch_to_def split: option.splits sum.splits)
  from assms obtain h1 h2 h3 h4 h5 where
    s: "activate v h = (h1, None)" "write_runtime user h1 = (h2, None)"
      "(case migrate of None \<Rightarrow> (h2, None) | Some old \<Rightarrow> migrate_state old h2) = (h3, None)"
      "install_units ok (files r) user h3 = (h4, None)" "run ok (''systemctl'' # ''enable'' # ORDER) h4 = (h5, None)"
      "(if now then start_services ok h5 else (h5, None)) = (h', None)"
    unfolding switch_to_def r option.case sum.case by (auto simp: proceed_done)
  from s(1) r have h1: "h1 = h\<lparr>current := Some v\<rparr>" by (simp add: activate_def)
  from s(2) h1 have h2: "h2 = h\<lparr>current := Some v, config := Some (case config h of None \<Rightarrow> runtime_config user | Some c \<Rightarrow> c)\<rparr>"
    by (auto simp: write_runtime_def split: option.splits)
  have h3: "h3 = h2\<lparr>identity := identity h3\<rparr>"
    using s(3) by (cases migrate) (auto simp: migrate_state_def split: if_splits)
  from s(4) have h4: "\<forall>n \<in> set ORDER. unit_text (files r) user n \<noteq> None"
      "h4 = h3\<lparr>units := (\<lambda>m. if m \<in> set ORDER then unit_text (files r) user m else units h3 m),
         commands := commands h3 @ [[''systemctl'', ''daemon-reload'']]\<rparr>"
    by (auto simp: install_units_def proceed_done write_units_done run_done)
  from s(5) have h5: "h5 = h4\<lparr>commands := commands h4 @ [''systemctl'' # ''enable'' # ORDER]\<rparr>" by (simp add: run_done)
  from s(6) obtain cs where h': "h' = h5\<lparr>commands := commands h5 @ cs\<rparr>"
  proof (cases now)
    case True
    with s(6) start_done that show ?thesis by auto
  next
    case False
    with s(6) have "h' = h5\<lparr>commands := commands h5 @ []\<rparr>" by simp
    with that show ?thesis by blast
  qed
  note more = arg_cong [OF h3, of current] arg_cong [OF h3, of config] arg_cong [OF h3, of installed]
  show ?thesis unfolding h' h5 h4(2) using r h4(1) h2 more by simp
qed

lemma install_source_done:
  "install_source sha ok left src finish h = (h', None) \<Longrightarrow>
     \<exists>r v h1. unpack src = Inr r \<and> verify sha r = Inr (JStr v) \<and> place_release ok left v r h = (h1, None) \<and>
       finish v h1 = (h', None)"
  by (auto simp: install_source_def proceed_done split: sum.splits json.splits)

lemma install_main_done:
  assumes "install_main sha ok left opt h = (h', None)"
  shows "\<exists>v r. current h' = Some v \<and> installed h' v = Some r \<and> \<not> isl (verify sha r) \<and> config h' \<noteq> None \<and>
    (\<forall>n \<in> set ORDER. unit_text (files r) (user_name opt) n \<noteq> None \<and> units h' n = unit_text (files r) (user_name opt) n) \<and>
    ''systemctl'' # ''enable'' # ORDER \<in> set (commands h')"
proof -
  let ?finish = "switch_to sha ok (user_name opt) (migrate_from opt) (start_now opt)"
  from assms obtain h1 where "(case release_source opt of
      None \<Rightarrow> ?finish (the (activate_version opt)) | Some src \<Rightarrow> install_source sha ok left src ?finish) h1 = (h', None)"
    by (auto simp: install_main_def Let_def proceed_done split: if_splits)
  then obtain v h2 where "?finish v h2 = (h', None)"
    using install_source_done by (cases "release_source opt") fastforce+
  from switch_done [OF this] show ?thesis by (metis option.distinct(1))
qed

lemma damaged_refused:
  assumes "install_main sha ok left opt h = (h', r)" and "release_source opt = Some src" "unpack src = Inr y"
    and "verify sha y = Inr (JStr v)" and "installed h v = Some x" and "isl (verify sha x)"
  shows "r \<noteq> None"
proof
  assume "r = None"
  with assms(1,2) obtain h1 where j: "join_groups ok (user_name opt) GROUPS h = (h1, None)"
      "install_source sha ok left src (switch_to sha ok (user_name opt) (migrate_from opt) (start_now opt)) h1 = (h', None)"
    by (auto simp: install_main_def Let_def proceed_done split: if_splits)
  from install_source_done [OF j(2)] assms(3,4) obtain h2 where
    "place_release ok left v y h1 = (h2, None)"
    "switch_to sha ok (user_name opt) (migrate_from opt) (start_now opt) v h2 = (h', None)" by auto
  moreover from this j(1) keeps_groups [of sha h ok "user_name opt" GROUPS] keeps_place [of sha h1 ok left v y] assms(5)
  have "installed h2 v = Some x" by (simp add: keeps_def)
  ultimately show False using switch_done [of sha ok _ _ _ v h2 h'] assms(6) by fastforce
qed

text \<open>
  C28. An installation keeps every installed release, the configuration and the
  server's identity, and the active release is the old one or one that verifies; after
  a success the units of the active release are written for the user and enabled.  A
  copy that was cut short is never repaired: installing that version again fails.
\<close>

theorem installation_keeps:
  assumes "install_main sha ok left opt h = (h', r)"
  shows "(\<forall>v x. installed h v = Some x \<longrightarrow> installed h' v = Some x) \<and>
    (\<forall>c. config h = Some c \<longrightarrow> config h' = Some c) \<and>
    (\<forall>i. identity h = Some i \<longrightarrow> identity h' = Some i) \<and>
    (current h' = current h \<or>
     (\<exists>v x. current h' = Some v \<and> installed h' v = Some x \<and> \<not> isl (verify sha x))) \<and>
    (r = None \<longrightarrow> (\<exists>v x. current h' = Some v \<and> installed h' v = Some x \<and> \<not> isl (verify sha x) \<and> config h' \<noteq> None \<and>
       (\<forall>n \<in> set ORDER. unit_text (files x) (user_name opt) n \<noteq> None \<and>
          units h' n = unit_text (files x) (user_name opt) n) \<and>
       ''systemctl'' # ''enable'' # ORDER \<in> set (commands h'))) \<and>
    (\<forall>src y v x. release_source opt = Some src \<and> unpack src = Inr y \<and> verify sha y = Inr (JStr v) \<and>
       installed h v = Some x \<and> isl (verify sha x) \<longrightarrow> r \<noteq> None)"
proof -
  have "keeps sha h h'" using keeps_main [of sha h ok left opt] assms by simp
  moreover have "r = None \<longrightarrow> (\<exists>v x. current h' = Some v \<and> installed h' v = Some x \<and> \<not> isl (verify sha x) \<and> config h' \<noteq> None \<and>
       (\<forall>n \<in> set ORDER. unit_text (files x) (user_name opt) n \<noteq> None \<and>
          units h' n = unit_text (files x) (user_name opt) n) \<and>
       ''systemctl'' # ''enable'' # ORDER \<in> set (commands h'))"
    using install_main_done assms by blast
  moreover have "\<forall>src y v x. release_source opt = Some src \<and> unpack src = Inr y \<and> verify sha y = Inr (JStr v) \<and>
       installed h v = Some x \<and> isl (verify sha x) \<longrightarrow> r \<noteq> None"
    using damaged_refused [OF assms] by blast
  ultimately show ?thesis unfolding keeps_def by (elim conjE) (intro conjI; assumption)
qed

section \<open>From the package to the running release\<close>

lemma package_Inr:
  assumes "package_main sha exists version commit a = Inr r"
  shows "verify sha r = Inr (JStr version)" and "copy_all (copies a) [] = Inr (files r)"
proof -
  from assms have c: "copy_all (copies a) [] = Inr (files r)"
      "r = \<lparr>files = files r, manifest = Some (package_manifest sha version commit (files r))\<rparr>"
    by (auto simp: package_main_def split: if_splits sum.splits)
  then show "copy_all (copies a) [] = Inr (files r)" by simp
  have "distinct (map fst (files r))" by (rule copy_all_distinct [OF c(1)]) simp
  from verify_package [OF this] c(2) show "verify sha r = Inr (JStr version)" by metis
qed

lemma only_lookup:
  assumes "(k, b) \<in> set cs" and "\<forall>(m, c) \<in> set cs. m = k \<longrightarrow> c = b"
  shows "map_of (rev cs) k = Some b"
proof -
  from assms(1) have "k \<in> fst ` set (rev cs)" by force
  then have "map_of (rev cs) k \<noteq> None" using map_of_eq_None_iff by metis
  then obtain c where c: "map_of (rev cs) k = Some c" by blast
  from map_of_SomeD [OF this] assms(2) have "c = b" by auto
  with c show ?thesis by simp
qed

lemma packaged_unit:
  assumes "n \<in> set UNITS"
  shows "map_of (rev (copies a)) (''systemd/'' @ n) = Some (repo a (''systemd/'' @ n))"
proof (rule only_lookup)
  show "(''systemd/'' @ n, repo a (''systemd/'' @ n)) \<in> set (copies a)" using assms by (simp add: copies_def)
  show "\<forall>(m, c) \<in> set (copies a). m = ''systemd/'' @ n \<longrightarrow> c = repo a (''systemd/'' @ n)"
    unfolding copies_def set_append ball_Un
    by (intro conjI) (auto split: option.splits)
qed

lemma packaged_server: "map_of (rev (copies a)) ''bin/rkmoon-kvm'' = Some (server a)"
proof (rule only_lookup)
  show "(''bin/rkmoon-kvm'', server a) \<in> set (copies a)" by (simp add: copies_def)
  show "\<forall>(m, c) \<in> set (copies a). m = ''bin/rkmoon-kvm'' \<longrightarrow> c = server a"
    unfolding copies_def set_append ball_Un
    by (intro conjI) (auto split: option.splits)
qed

lemma groups_work:
  "(\<forall>cmd. ok cmd) \<Longrightarrow> \<exists>cs. join_groups ok user gs h = (h\<lparr>commands := commands h @ cs\<rparr>, None)"
proof (induction gs arbitrary: h)
  case Nil
  then show ?case by (intro exI [of _ "[]"]) simp
next
  case (Cons g gs)
  let ?h = "h\<lparr>commands := commands h @ [[''usermod'', ''-a'', ''-G'', g, user]]\<rparr>"
  obtain cs ds where "join_groups ok user gs h = (h\<lparr>commands := commands h @ cs\<rparr>, None)"
    "join_groups ok user gs ?h = (?h\<lparr>commands := commands ?h @ ds\<rparr>, None)" using Cons by meson
  moreover have "proceed (run ok [''usermod'', ''-a'', ''-G'', g, user] h) f = f ?h" for f
    using Cons.prems by (simp add: run_def proceed_def)
  ultimately show ?case by (auto split: option.split)
qed

lemma switch_works:
  assumes "installed h v = Some r" and "verify sha r = Inr x" and "\<forall>n \<in> set ORDER. unit_text (files r) user n \<noteq> None"
    and "\<forall>cmd. ok cmd"
  shows "\<exists>h'. switch_to sha ok user migrate now v h = (h', None)"
proof -
  let ?rest = "[write_runtime user, \<lambda>h1. case migrate of None \<Rightarrow> (h1, None) | Some old \<Rightarrow> migrate_state old h1,
    install_units ok (files r) user, run ok (''systemctl'' # ''enable'' # ORDER),
    \<lambda>h1. if now then start_services ok h1 else (h1, None)]"
  have "\<exists>h'. f h1 = (h', None)" if "f \<in> set ?rest" for f h1
    using that assms(3,4)
    by (cases migrate)
      (auto simp: write_runtime_def migrate_state_def install_units_def start_services_def proceed_done write_units_done run_done)
  then have "\<exists>h'. run_steps ?rest h1 = (h', None)" for h1 by (intro run_steps_works) blast
  moreover have "activate v h = (h\<lparr>current := Some v\<rparr>, None)" using assms(1) by (simp add: activate_def)
  ultimately show ?thesis unfolding switch_to_def assms(1,2) option.case sum.case
    by (subst run_steps.simps(2)) simp
qed


lemma copy_all_works: "\<forall>(n, b) \<in> set cs. b \<noteq> None \<Longrightarrow> \<exists>gs. copy_all cs fs = Inr gs"
  by (induction cs fs rule: copy_all.induct) auto

definition toy_artifacts :: artifacts where
  "toy_artifacts = \<lparr>server = Some ''s'', worker = Some ''w'', assets = (\<lambda>_. Some ''a''),
     runtime_libs = [(''libx.so.1'', Some ''x''), (''notes'', None)], mpp_lib = Some ''m'', codec_ko = Some ''k'',
     hid_sources = [(''keys.py'', ''k''), (''__pycache__/keys.pyc'', ''b'')], repo = (\<lambda>_. Some ''User=@USER@''),
     licenses = None\<rparr>"

definition toy_host :: host where
  "toy_host = \<lparr>accounts = [''kvm''], groups = [(''video'', [])], installed = (\<lambda>_. None), current = None, config = None,
     units = (\<lambda>_. None), identity = None, commands = []\<rparr>"

definition toy_options :: "source \<Rightarrow> options" where
  "toy_options src = \<lparr>root_user = True, user_name = ''kvm'', release_source = Some src, activate_version = None,
     migrate_from = None, start_now = True\<rparr>"


text \<open>A host on which a copy of the version was cut short.\<close>

theorem installation_keeps_witness:
  "\<exists>h' e. install_main id (\<lambda>_. True) None
     (toy_options (Directory \<lparr>files = [], manifest = Some (package_manifest id ''1'' ''c'' [])\<rparr>))
     (toy_host\<lparr>installed := [''1'' \<mapsto> \<lparr>files = [], manifest = None\<rparr>]\<rparr>) = (h', Some e) \<and>
     installed h' ''1'' = Some \<lparr>files = [], manifest = None\<rparr>"
proof -
  let ?r = "\<lparr>files = [], manifest = Some (package_manifest id ''1'' ''c'' [])\<rparr>"
  let ?h = "toy_host\<lparr>installed := [''1'' \<mapsto> \<lparr>files = [], manifest = None\<rparr>]\<rparr>"
  obtain h' r where i: "install_main id (\<lambda>_. True) None (toy_options (Directory ?r)) ?h = (h', r)"
    by (metis surj_pair)
  have v: "verify id ?r = Inr (JStr ''1'')" by (rule verify_package) simp
  have "release_source (toy_options (Directory ?r)) = Some (Directory ?r)" by (simp add: toy_options_def)
  moreover have "unpack (Directory ?r) = Inr ?r" by simp
  moreover have "installed ?h ''1'' = Some \<lparr>files = [], manifest = None\<rparr>" by simp
  moreover have "isl (verify id \<lparr>files = [], manifest = None\<rparr>)" by (simp add: verify_def)
  ultimately have "r \<noteq> None" using v installation_keeps [OF i] by metis
  moreover have "installed h' ''1'' = Some \<lparr>files = [], manifest = None\<rparr>"
    using installation_keeps [OF i] \<open>installed ?h ''1'' = Some \<lparr>files = [], manifest = None\<rparr>\<close> by metis
  ultimately show ?thesis using i by auto
qed

end
