(* ===== verification/Input_Install.thy ===== *)
theory Input_Install
  imports Install Input_Service
begin

text \<open>
  \<open>tools/install_input.py\<close>: the installer of the input service, which prepares the
  pinned kvmd, copies it, writes the configuration and never starts anything.  The
  exit codes of the commands and the text the checkout's git prints are arguments;
  \<open>exe\<close> is the interpreter.  Copies succeed; owners and modes are not modelled.
\<close>

text \<open>
  The checkout (the two files \<open>prepare\<close> edits), the installed copy, the state
  directory, the unit files and the commands so far.
\<close>

record board =
  checkout_files :: "string \<times> string"
  prefix :: "(string \<times> string) option"
  runtime_placed :: bool
  state_dir :: "(string \<rightharpoonup> string) option"
  placed_units :: "string list"
  command_log :: "string list list"

record input_request =
  caller_root :: bool
  interpreter :: "nat \<times> nat"
  input_user :: string
  input_udc :: string
  kvmd_head :: string

definition PREFIX :: string where
  "PREFIX = ''/opt/rkmoon-input''"

definition STATE :: string where
  "STATE = ''/etc/rkmoon-input''"

definition execute :: "(string list \<Rightarrow> bool) \<Rightarrow> string list \<Rightarrow> board \<Rightarrow> board outcome" where
  "execute ok cmd m = (m\<lparr>command_log := command_log m @ [cmd]\<rparr>, if ok cmd then None else Some CalledProcessError)"

text \<open>\<open>if subprocess.run(query).returncode: run(cmd)\<close>\<close>

definition unless :: "(string list \<Rightarrow> bool) \<Rightarrow> string list \<Rightarrow> string list \<Rightarrow> board \<Rightarrow> board outcome" where
  "unless ok query cmd m =
     (let m1 = m\<lparr>command_log := command_log m @ [query]\<rparr> in if ok query then (m1, None) else execute ok cmd m1)"

definition prepare_source :: "string \<Rightarrow> board \<Rightarrow> board outcome" where
  "prepare_source head m =
     (case prepare_input head (checkout_files m) of (fs, r) \<Rightarrow> (m\<lparr>checkout_files := fs\<rparr>, r))"

definition copy_source :: "board \<Rightarrow> board outcome" where
  "copy_source m = (m\<lparr>prefix := Some (checkout_files m)\<rparr>, None)"

definition place_runtime :: "board \<Rightarrow> board outcome" where
  "place_runtime m = (m\<lparr>runtime_placed := True\<rparr>, None)"

definition write_state :: "(json \<Rightarrow> string) \<Rightarrow> string \<Rightarrow> string \<Rightarrow> board \<Rightarrow> board outcome" where
  "write_state dumps user udc m =
     (case write_config dumps (configuration (PREFIX @ ''/source'') STATE user udc)
             (case state_dir m of None \<Rightarrow> Map.empty | Some fs \<Rightarrow> fs) of
        (fs, r) \<Rightarrow> (m\<lparr>state_dir := Some fs\<rparr>, r))"

definition check_command :: "string list" where
  "check_command =
     [PREFIX @ ''/venv/bin/python'', PREFIX @ ''/runtime.py'', ''check'', ''--source'', PREFIX @ ''/source'',
      ''--config'', STATE @ ''/main.yaml'']"

definition place_units :: "board \<Rightarrow> board outcome" where
  "place_units m = (m\<lparr>placed_units := [''rkmoon-gadget.service'', ''rkmoon-input.service'']\<rparr>, None)"

definition install_steps ::
  "(json \<Rightarrow> string) \<Rightarrow> string \<Rightarrow> (string list \<Rightarrow> bool) \<Rightarrow> input_request \<Rightarrow> board \<Rightarrow> board outcome" where
  "install_steps dumps exe ok q m =
     run_steps
       [execute ok [''id'', input_user q],
        prepare_source (kvmd_head q),
        copy_source,
        execute ok [exe, ''-m'', ''venv'', ''--system-site-packages'', PREFIX @ ''/venv''],
        place_runtime,
        write_state dumps (input_user q) (input_udc q),
        unless ok [''getent'', ''group'', ''rkmoon-input''] [''groupadd'', ''--system'', ''rkmoon-input''],
        unless ok [''id'', ''rkmoon-input'']
          [''useradd'', ''--system'', ''--gid'', ''rkmoon-input'', ''--home-dir'', ''/var/lib/rkmoon-input'',
           ''--shell'', ''/usr/sbin/nologin'', ''rkmoon-input''],
        execute ok [''usermod'', ''-a'', ''-G'', ''rkmoon-input'', input_user q],
        execute ok [''chown'', ''-R'', ''root:rkmoon-input'', STATE],
        execute ok check_command,
        place_units,
        execute ok [''systemctl'', ''daemon-reload'']] m"

definition install_input ::
  "(json \<Rightarrow> string) \<Rightarrow> string \<Rightarrow> (string list \<Rightarrow> bool) \<Rightarrow> input_request \<Rightarrow> board \<Rightarrow> board outcome" where
  "install_input dumps exe ok q m =
     (if \<not> caller_root q then (m, Some RuntimeError)
      else if interpreter q \<noteq> (3, 13) then (m, Some RuntimeError)
      else if prefix m \<noteq> None \<or> state_dir m \<noteq> None then (m, Some RuntimeError)
      else install_steps dumps exe ok q m)"

section \<open>What the installer does and leaves alone\<close>

text \<open>Commands only grow, and none of them starts or enables a service.\<close>

definition starts_nothing :: "board \<Rightarrow> board \<Rightarrow> bool" where
  "starts_nothing m m' \<longleftrightarrow>
     (\<exists>cs. command_log m' = command_log m @ cs \<and>
       (\<forall>c \<in> set cs. hd c = ''systemctl'' \<longrightarrow> c = [''systemctl'', ''daemon-reload'']))"

lemma starts_nothing_trans:
  assumes "starts_nothing m m1" and "starts_nothing m1 m2"
  shows "starts_nothing m m2"
proof -
  from assms obtain cs ds where "command_log m1 = command_log m @ cs" "command_log m2 = command_log m1 @ ds"
    "\<forall>c \<in> set cs \<union> set ds. hd c = ''systemctl'' \<longrightarrow> c = [''systemctl'', ''daemon-reload'']"
    unfolding starts_nothing_def by blast
  then show ?thesis unfolding starts_nothing_def by (intro exI [of _ "cs @ ds"]) auto
qed

lemma starts_nothing_same: "command_log m' = command_log m \<Longrightarrow> starts_nothing m m'"
  by (simp add: starts_nothing_def)

interpretation silent: kept starts_nothing
  by unfold_locales (auto intro: starts_nothing_same starts_nothing_trans)

lemma starts_nothing_execute:
  "hd cmd = ''systemctl'' \<longrightarrow> cmd = [''systemctl'', ''daemon-reload''] \<Longrightarrow> starts_nothing m (fst (execute ok cmd m))"
  by (auto simp: execute_def starts_nothing_def)

lemma starts_nothing_unless:
  assumes "hd query \<noteq> ''systemctl''" and "hd cmd \<noteq> ''systemctl''"
  shows "starts_nothing m (fst (unless ok query cmd m))"
proof -
  have "starts_nothing m (m\<lparr>command_log := command_log m @ [query]\<rparr>)" using assms(1) by (simp add: starts_nothing_def)
  with starts_nothing_trans starts_nothing_execute [of cmd] assms(2) show ?thesis
    by (fastforce simp: unless_def Let_def)
qed

lemma starts_nothing_files:
  "starts_nothing m (fst (prepare_source head m))" "starts_nothing m (fst (copy_source m))"
  "starts_nothing m (fst (place_runtime m))" "starts_nothing m (fst (write_state dumps user udc m))"
  "starts_nothing m (fst (place_units m))"
  by (simp_all add: prepare_source_def copy_source_def place_runtime_def write_state_def place_units_def
      starts_nothing_same split: prod.split)

lemma install_steps_start_nothing:
  "exe \<noteq> ''systemctl'' \<Longrightarrow> starts_nothing m (fst (install_steps dumps exe ok q m))"
  unfolding install_steps_def
  by (intro silent.by_cons silent.by_nil starts_nothing_execute starts_nothing_unless starts_nothing_files)
    (simp_all add: check_command_def PREFIX_def)

lemma install_starts_nothing:
  "exe \<noteq> ''systemctl'' \<Longrightarrow> starts_nothing m (fst (install_input dumps exe ok q m))"
  by (simp add: install_input_def install_steps_start_nothing starts_nothing_same)

lemma install_refused:
  assumes "prefix m \<noteq> None \<or> state_dir m \<noteq> None \<or> \<not> caller_root q"
  shows "install_input dumps exe ok q m = (m, Some RuntimeError)"
  using assms by (auto simp: install_input_def)

lemma execute_done: "execute ok cmd m = (m', None) \<longleftrightarrow> ok cmd \<and> m' = m\<lparr>command_log := command_log m @ [cmd]\<rparr>"
  by (auto simp: execute_def)

lemma unless_done:
  "unless ok query cmd m = (m', None) \<Longrightarrow> \<exists>cs. m' = m\<lparr>command_log := command_log m @ cs\<rparr>"
  by (auto simp: unless_def Let_def execute_def split: if_splits)

lemma write_state_done:
  assumes "write_state dumps user udc m = (m', None)" and "state_dir m = None"
  shows "\<exists>fs. m' = m\<lparr>state_dir := Some fs\<rparr> \<and>
    fs ''main.yaml'' = Some (dumps (configuration (PREFIX @ ''/source'') STATE user udc) @ [CHR 0x0A]) \<and>
    (\<forall>(n, c) \<in> set side_files. fs n = Some c)"
proof -
  have "add_missing side_files Map.empty ''main.yaml'' = None" by (simp add: side_files_def)
  with assms show ?thesis by (auto simp: write_state_def write_config_def Let_def side_files_def)
qed

lemma install_done:
  assumes "install_input dumps exe ok q m = (m', None)"
  shows "prefix m = None \<and> state_dir m = None \<and> caller_root q \<and>
    (\<exists>src. prepare_input (kvmd_head q) (checkout_files m) = (src, None) \<and> checkout_files m' = src \<and> prefix m' = Some src) \<and>
    (\<exists>fs. state_dir m' = Some fs \<and>
      fs ''main.yaml'' = Some (dumps (configuration (PREFIX @ ''/source'') STATE (input_user q) (input_udc q)) @ [CHR 0x0A]) \<and>
      (\<forall>(n, c) \<in> set side_files. fs n = Some c)) \<and>
    runtime_placed m' \<and> placed_units m' = [''rkmoon-gadget.service'', ''rkmoon-input.service''] \<and> ok check_command"
proof -
  have g: "caller_root q" "prefix m = None" "state_dir m = None" and c: "install_steps dumps exe ok q m = (m', None)"
    using assms by (auto simp: install_input_def simp del: not_None_eq split: if_splits)
  obtain m1 m2 m3 m4 m5 m6 m7 m8 m9 m10 m11 m12 where s:
    "execute ok [''id'', input_user q] m = (m1, None)" "prepare_source (kvmd_head q) m1 = (m2, None)"
    "copy_source m2 = (m3, None)" "execute ok [exe, ''-m'', ''venv'', ''--system-site-packages'', PREFIX @ ''/venv''] m3 = (m4, None)"
    "place_runtime m4 = (m5, None)" "write_state dumps (input_user q) (input_udc q) m5 = (m6, None)"
    "unless ok [''getent'', ''group'', ''rkmoon-input''] [''groupadd'', ''--system'', ''rkmoon-input''] m6 = (m7, None)"
    "unless ok [''id'', ''rkmoon-input'']
       [''useradd'', ''--system'', ''--gid'', ''rkmoon-input'', ''--home-dir'', ''/var/lib/rkmoon-input'',
        ''--shell'', ''/usr/sbin/nologin'', ''rkmoon-input''] m7 = (m8, None)"
    "execute ok [''usermod'', ''-a'', ''-G'', ''rkmoon-input'', input_user q] m8 = (m9, None)"
    "execute ok [''chown'', ''-R'', ''root:rkmoon-input'', STATE] m9 = (m10, None)"
    "execute ok check_command m10 = (m11, None)" "place_units m11 = (m12, None)"
    "execute ok [''systemctl'', ''daemon-reload''] m12 = (m', None)"
    using c unfolding install_steps_def run_steps.simps proceed_done by blast
  from s(1) have m1: "checkout_files m1 = checkout_files m" "state_dir m1 = None" using g by (auto simp: execute_done)
  from s(2) m1 obtain src where src: "prepare_input (kvmd_head q) (checkout_files m) = (src, None)"
      "checkout_files m2 = src" "state_dir m2 = None" by (auto simp: prepare_source_def split: prod.splits)
  from s(3,4,5) src have m5: "checkout_files m5 = src" "prefix m5 = Some src" "state_dir m5 = None" "runtime_placed m5"
    by (auto simp: copy_source_def execute_done place_runtime_def)
  from write_state_done [OF s(6) m5(3)] obtain fs where m6: "m6 = m5\<lparr>state_dir := Some fs\<rparr>"
      "fs ''main.yaml'' = Some (dumps (configuration (PREFIX @ ''/source'') STATE (input_user q) (input_udc q)) @ [CHR 0x0A])"
      "\<forall>(n, c) \<in> set side_files. fs n = Some c" by blast
  from unless_done [OF s(7)] unless_done [OF s(8)] obtain cs where m8: "m8 = m6\<lparr>command_log := cs\<rparr>" by auto
  from s(9-13) have m': "checkout_files m' = checkout_files m8" "prefix m' = prefix m8" "state_dir m' = state_dir m8"
      "runtime_placed m' = runtime_placed m8" "placed_units m' = [''rkmoon-gadget.service'', ''rkmoon-input.service'']"
      "ok check_command"
    by (auto simp: execute_done place_units_def)
  then show ?thesis using g src m5 m6 m8 by simp
qed


definition toy_board :: board where
  "toy_board = \<lparr>checkout_files = (health_marker, streamer_marker), prefix = None, runtime_placed = False,
     state_dir = None, placed_units = [], command_log = []\<rparr>"

definition toy_request :: input_request where
  "toy_request = \<lparr>caller_root = True, interpreter = (3, 13), input_user = ''kvm'', input_udc = ''fc000000.usb'',
     kvmd_head = KVMD_PIN\<rparr>"


end
