(* ===== verification/Capture.thy ===== *)
theory Capture
  imports Hid_Http
begin

text \<open>
  \<open>tools/validate_capture.py\<close>: the checks of a recorded stream against what an
  independent decoder says of it and against the statistics of the pipeline.  What
  ffprobe and ffmpeg report and the parsed rows of the CSV file are arguments;
  floating-point arithmetic is exact here.  The prose of the report (its
  limitations and fixed remarks) is left out.
\<close>

section \<open>Quantiles\<close>

datatype quantiles = No_values | Quantiles nat rat rat rat rat

definition interpolated :: "rat list \<Rightarrow> rat \<Rightarrow> rat" where
  "interpolated values p =
     (let x = of_nat (length values - 1) * p; i = nat \<lfloor>x\<rfloor> in
        values ! i + (values ! min (i + 1) (length values - 1) - values ! i) * (x - of_nat i))"

definition quantiles :: "rat list \<Rightarrow> quantiles" where
  "quantiles values =
     (let s = sort values in
        if s = [] then No_values
        else Quantiles (length s) (interpolated s (1 / 2)) (interpolated s (95 / 100)) (interpolated s (99 / 100)) (last s))"

text \<open>The interpolation at a position.\<close>

definition at_position :: "rat list \<Rightarrow> rat \<Rightarrow> rat" where
  "at_position s x =
     (let i = nat \<lfloor>x\<rfloor> in s ! i + (s ! min (i + 1) (length s - 1) - s ! i) * (x - of_nat i))"

lemma interpolated_position: "interpolated s p = at_position s (of_nat (length s - 1) * p)"
  by (simp add: interpolated_def at_position_def Let_def)

lemma position_between:
  assumes "sorted s" and "0 \<le> x" and "x \<le> of_nat (length s - 1)" and "s \<noteq> []"
  shows "s ! nat \<lfloor>x\<rfloor> \<le> at_position s x" and "at_position s x \<le> s ! min (nat \<lfloor>x\<rfloor> + 1) (length s - 1)"
    and "nat \<lfloor>x\<rfloor> \<le> length s - 1"
proof -
  let ?i = "nat \<lfloor>x\<rfloor>" and ?j = "min (nat \<lfloor>x\<rfloor> + 1) (length s - 1)"
  have "\<lfloor>x\<rfloor> \<le> int (length s - 1)" using assms(3) by (metis floor_mono floor_of_nat)
  then show i: "?i \<le> length s - 1" by linarith
  have f: "0 \<le> x - of_nat ?i" "x - of_nat ?i \<le> 1"
    using assms(2) by (simp_all add: of_nat_nat) linarith+
  have "?i \<le> ?j" "?j < length s" using i assms(4) by (auto simp: min_def Suc_le_eq)
  then have d: "0 \<le> s ! ?j - s ! ?i" using sorted_nth_mono [OF assms(1)] by simp
  have a: "at_position s x = s ! ?i + (s ! ?j - s ! ?i) * (x - of_nat ?i)" by (simp add: at_position_def Let_def)
  show "s ! ?i \<le> at_position s x" using a mult_nonneg_nonneg [OF d f(1)] by simp
  have "(s ! ?j - s ! ?i) * (x - of_nat ?i) \<le> (s ! ?j - s ! ?i) * 1" by (rule mult_left_mono [OF f(2) d])
  with a show "at_position s x \<le> s ! ?j" by simp
qed

lemma position_mono:
  assumes "sorted s" and "s \<noteq> []" and "0 \<le> x" and "x \<le> y" and "y \<le> of_nat (length s - 1)"
  shows "at_position s x \<le> at_position s y"
proof (cases "nat \<lfloor>x\<rfloor> = nat \<lfloor>y\<rfloor>")
  case True
  let ?i = "nat \<lfloor>y\<rfloor>" and ?j = "min (nat \<lfloor>y\<rfloor> + 1) (length s - 1)"
  have "?i \<le> length s - 1" using position_between(3) assms by simp
  then have "?i \<le> ?j" "?j < length s" using assms(2) by (auto simp: min_def Suc_le_eq)
  then have "0 \<le> s ! ?j - s ! ?i" using sorted_nth_mono [OF assms(1)] by simp
  then have "(s ! ?j - s ! ?i) * (x - of_nat ?i) \<le> (s ! ?j - s ! ?i) * (y - of_nat ?i)"
    using assms(4) by (intro mult_left_mono) simp_all
  with True show ?thesis by (simp add: at_position_def Let_def)
next
  case False
  have "\<lfloor>x\<rfloor> \<le> \<lfloor>y\<rfloor>" using assms(4) by (rule floor_mono)
  with False have lt: "nat \<lfloor>x\<rfloor> + 1 \<le> nat \<lfloor>y\<rfloor>" by linarith
  have x: "x \<le> of_nat (length s - 1)" and y: "0 \<le> y" using assms by linarith+
  note bx = position_between [OF assms(1,3) x assms(2)] and by' = position_between [OF assms(1) y assms(5,2)]
  have "s ! min (nat \<lfloor>x\<rfloor> + 1) (length s - 1) \<le> s ! nat \<lfloor>y\<rfloor>"
  proof (rule sorted_nth_mono [OF assms(1)])
    show "min (nat \<lfloor>x\<rfloor> + 1) (length s - 1) \<le> nat \<lfloor>y\<rfloor>" using lt by simp
    have "0 < length s" using assms(2) by simp
    then show "nat \<lfloor>y\<rfloor> < length s" using by'(3) by linarith
  qed
  with bx(2) by'(1) show ?thesis by linarith
qed

lemma interpolated_mono:
  assumes "sorted s" and "s \<noteq> []" and "0 \<le> p" and "p \<le> r" and "r \<le> 1"
  shows "interpolated s p \<le> interpolated s r"
  unfolding interpolated_position using assms
  by (intro position_mono) (auto intro: mult_left_mono mult_left_le simp: zero_le_mult_iff)

lemma interpolated_ends:
  assumes "s \<noteq> []"
  shows "interpolated s 0 = hd s" and "interpolated s 1 = last s"
  using assms by (simp_all add: interpolated_def Let_def hd_conv_nth last_conv_nth)

text \<open>The figures are ordered, lie between the least and the greatest value, and forget the order.\<close>

fun spread :: "rat \<Rightarrow> quantiles \<Rightarrow> rat \<Rightarrow> bool" where
  "spread a No_values b \<longleftrightarrow> False"
| "spread a (Quantiles n p50 p95 p99 m) b \<longleftrightarrow> a \<le> p50 \<and> p50 \<le> p95 \<and> p95 \<le> p99 \<and> p99 \<le> m \<and> m \<le> b"

lemma quantiles_spread:
  assumes "values \<noteq> []" and "\<forall>v \<in> set values. a \<le> v \<and> v \<le> b"
  shows "spread a (quantiles values) b"
proof -
  let ?s = "sort values"
  have s: "sorted ?s" "?s \<noteq> []" using assms(1) by (simp_all, metis length_0_conv length_sort)
  have "hd ?s \<in> set values" "last ?s \<in> set values" using hd_in_set [OF s(2)] last_in_set [OF s(2)] by simp_all
  then have "a \<le> interpolated ?s 0" "interpolated ?s 1 \<le> b" using assms(2) interpolated_ends [OF s(2)] by simp_all
  moreover have "interpolated ?s 0 \<le> interpolated ?s (1 / 2)" "interpolated ?s (1 / 2) \<le> interpolated ?s (95 / 100)"
    "interpolated ?s (95 / 100) \<le> interpolated ?s (99 / 100)" "interpolated ?s (99 / 100) \<le> interpolated ?s 1"
    by (rule interpolated_mono [OF s]; simp)+
  ultimately show ?thesis using s(2) interpolated_ends(2) [OF s(2)] by (simp add: quantiles_def Let_def)
qed

section \<open>What is checked\<close>

text \<open>A row of the CSV file, and a line of \<open>resources.jsonl\<close>.\<close>

record sample =
  seq :: int
  dequeue_us :: int
  submit_us :: int
  done_us :: int
  payload :: int
  idr :: int
  raw_skipped :: int
  dmabuf :: int

record usage =
  monotonic_s :: rat
  cpu_ticks :: int
  rss_bytes :: int
  temperatures :: "int list"

text \<open>
  \<open>decoded\<close> says that ffmpeg returned 0, \<open>diagnostics\<close> is what it wrote;
  \<open>resources\<close> are the two optional files, with the ticks per second.
\<close>

record evidence =
  probed :: bool
  streams :: "json list"
  decoded :: bool
  diagnostics :: string
  rows :: "sample list res"
  resources :: "(usage list \<times> rat) option"

record wanted =
  codec :: string
  width :: int
  height :: int
  fps :: rat
  seconds :: rat
  expected_range :: "string option"
  expected_transfer :: "string option"

definition get_field :: "(string \<times> json) list \<Rightarrow> string \<Rightarrow> json" where
  "get_field d k = (case map_of d k of None \<Rightarrow> JNull | Some v \<Rightarrow> v)"

text \<open>\<open>v == n\<close> for a number \<open>n\<close>, \<open>v in {...}\<close> for strings, \<open>int(v)\<close>.\<close>

fun is_num :: "int \<Rightarrow> json \<Rightarrow> bool" where
  "is_num n (JInt i) \<longleftrightarrow> i = n"
| "is_num n (JBool b) \<longleftrightarrow> (if b then 1 else 0) = n"
| "is_num n (JFloat q) \<longleftrightarrow> q = of_int n"
| "is_num n _ \<longleftrightarrow> False"

fun is_one_of :: "string list \<Rightarrow> json \<Rightarrow> bool res" where
  "is_one_of ss (JStr s) = Inr (s \<in> set ss)"
| "is_one_of ss (JList _) = Inl TypeError"
| "is_one_of ss (JObj _) = Inl TypeError"
| "is_one_of ss _ = Inr False"

fun int_of :: "json \<Rightarrow> int res" where
  "int_of (JInt i) = Inr i"
| "int_of (JBool b) = Inr (if b then 1 else 0)"
| "int_of (JFloat q) = Inr (if 0 \<le> q then \<lfloor>q\<rfloor> else \<lceil>q\<rceil>)"
| "int_of (JStr s) = (case py_int 10 (strip is_str_space s) of None \<Rightarrow> Inl ValueError | Some i \<Rightarrow> Inr i)"
| "int_of _ = Inl TypeError"

text \<open>The checks of the stream, in order.\<close>

definition stream_checks :: "wanted \<Rightarrow> (string \<times> json) list \<Rightarrow> (string \<times> bool) list res" where
  "stream_checks w st =
     (case is_one_of [''yuv420p'', ''yuvj420p''] (get_field st ''pix_fmt'') of
        Inl e \<Rightarrow> Inl e
      | Inr eight_bit \<Rightarrow>
          (case (if codec w = ''hevc'' then Inr (get_field st ''profile'' = JStr ''Main'')
                 else is_one_of [''Baseline'', ''Constrained Baseline''] (get_field st ''profile'')) of
             Inl e \<Rightarrow> Inl e
           | Inr profile \<Rightarrow> Inr
               ([(''codec'', get_field st ''codec_name'' = JStr (codec w)),
                 (''dimensions'', is_num (width w) (get_field st ''width'') \<and> is_num (height w) (get_field st ''height'')),
                 (''eight_bit_420'', eight_bit),
                 (''profile'', profile),
                 (''no_reported_b_frames'', is_num 0 (get_field st ''has_b_frames'')),
                 (''bt709_matrix'', get_field st ''color_space'' = JStr ''bt709''),
                 (''bt709_primaries'', get_field st ''color_primaries'' = JStr ''bt709'')] @
                (case expected_range w of
                   None \<Rightarrow> []
                 | Some r \<Rightarrow> [(''range_matches_source'', get_field st ''color_range'' = JStr r)]) @
                (case expected_transfer w of
                   None \<Rightarrow> []
                 | Some t \<Rightarrow> [(''transfer_matches_source'', get_field st ''color_transfer'' = JStr t)]))))"

definition time_span :: "sample list \<Rightarrow> rat" where
  "time_span rs = of_int (dequeue_us (last rs) - dequeue_us (hd rs)) / 1000000"

definition frame_rate :: "sample list \<Rightarrow> rat" where
  "frame_rate rs = (if time_span rs > 0 then of_nat (length rs - 1) / time_span rs else 0)"

definition row_checks :: "wanted \<Rightarrow> int \<Rightarrow> sample list \<Rightarrow> (string \<times> bool) list" where
  "row_checks w counted rs =
     [(''csv_sequence_contiguous'', map seq rs = map int [1..<length rs + 1]),
      (''stage_order'', list_all (\<lambda>r. dequeue_us r \<le> submit_us r \<and> submit_us r \<le> done_us r) rs),
      (''timestamps_monotonic'', list_all (\<lambda>(a, b). dequeue_us a < dequeue_us b) (zip rs (tl rs))),
      (''decoded_frame_count_matches_csv'', counted = int (length rs)),
      (''required_duration'', time_span rs \<ge> max 0 (seconds w - 1)),
      (''cadence_within_5_percent'', \<bar>frame_rate rs - fps w\<bar> \<le> fps w * (5 / 100)),
      (''first_frame_idr'', idr (hd rs) = 1)]"

section \<open>The report\<close>

definition cpu_percent :: "rat \<Rightarrow> usage list \<Rightarrow> rat list" where
  "cpu_percent hz us =
     (if hz > 0 then
        map (\<lambda>(a, b). 100 * of_int (cpu_ticks b - cpu_ticks a) / hz / (monotonic_s b - monotonic_s a))
          (filter (\<lambda>(a, b). monotonic_s b - monotonic_s a > 0) (zip us (tl us)))
      else [])"

record report =
  checks :: "(string \<times> bool) list"
  frame_count :: nat
  dequeue_span :: rat
  observed_fps :: rat
  bitrate :: rat
  idr_sequences :: "int list"
  skipped :: int
  paths :: "string list"
  dequeue_to_submit :: quantiles
  submit_to_au :: quantiles
  dequeue_to_au :: quantiles
  machine_load :: "(quantiles \<times> quantiles \<times> quantiles) option"
  all_passed :: bool

definition validate :: "wanted \<Rightarrow> evidence \<Rightarrow> report res" where
  "validate w ev =
     (if \<not> probed ev then Inl RuntimeError
      else
        (case streams ev of
           [JObj st] \<Rightarrow>
             (case stream_checks w st of
                Inl e \<Rightarrow> Inl e
              | Inr cs \<Rightarrow>
                  (case rows ev of
                     Inl e \<Rightarrow> Inl e
                   | Inr rs \<Rightarrow>
                       if length rs < 2 then Inl RuntimeError
                       else
                         (case int_of (case map_of st ''nb_read_frames'' of None \<Rightarrow> JStr ''0'' | Some v \<Rightarrow> v) of
                            Inl e \<Rightarrow> Inl e
                          | Inr n \<Rightarrow>
                              let checks = cs @
                                    (''independent_complete_decode'',
                                     decoded ev \<and> strip is_str_space (diagnostics ev) = []) # row_checks w n rs in
                                Inr \<lparr>checks = checks, frame_count = length rs, dequeue_span = time_span rs, observed_fps = frame_rate rs,
                                  bitrate = of_int (sum_list (map payload rs)) * 8 / max (time_span rs) (1 / 1000000),
                                  idr_sequences = map seq (filter (\<lambda>r. idr r \<noteq> 0) rs), skipped = raw_skipped (last rs),
                                  paths = (if list_ex (\<lambda>r. dmabuf r = 0) rs then [''cpu_pixel_copy''] else []) @
                                    (if list_ex (\<lambda>r. dmabuf r \<noteq> 0) rs then [''dmabuf''] else []),
                                  dequeue_to_submit = quantiles (map (\<lambda>r. of_int (submit_us r - dequeue_us r)) rs),
                                  submit_to_au = quantiles (map (\<lambda>r. of_int (done_us r - submit_us r)) rs),
                                  dequeue_to_au = quantiles (map (\<lambda>r. of_int (done_us r - dequeue_us r)) rs),
                                  machine_load = map_option (\<lambda>(us, hz).
                                    (quantiles (cpu_percent hz us), quantiles (map (of_int \<circ> rss_bytes) us),
                                     quantiles (map of_int (concat (map temperatures us))))) (resources ev),
                                  all_passed = list_all snd checks\<rparr>)))
         | [_] \<Rightarrow> Inl AttributeError
         | _ \<Rightarrow> Inl RuntimeError))"

text \<open>The exit code of \<open>main\<close>.\<close>

definition exit_code :: "report \<Rightarrow> int" where
  "exit_code r = (if all_passed r then 0 else 1)"

section \<open>What a report that passed guarantees\<close>

lemma zip_tl_less:
  "list_all (\<lambda>(a, b). f a < (f b :: int)) (zip rs (tl rs)) \<Longrightarrow> sorted_wrt (\<lambda>a b. f a < f b) rs"
proof (induction rs rule: induct_list012)
  case (3 a b rs)
  then have s: "sorted_wrt (\<lambda>a b. f a < f b) (b # rs)" and "f a < f b" by simp_all
  then show ?case by (auto simp: order.strict_trans)
qed simp_all

lemma validate_Inr:
  assumes "validate w ev = Inr r"
  obtains st cs rs n where "streams ev = [JObj st]" "stream_checks w st = Inr cs" "rows ev = Inr rs" "2 \<le> length rs"
    "int_of (case map_of st ''nb_read_frames'' of None \<Rightarrow> JStr ''0'' | Some v \<Rightarrow> v) = Inr n"
    "checks r = cs @ (''independent_complete_decode'', decoded ev \<and> strip is_str_space (diagnostics ev) = []) # row_checks w n rs"
    "all_passed r = list_all snd (checks r)" "frame_count r = length rs" "dequeue_span r = time_span rs"
    "dequeue_to_au r = quantiles (map (\<lambda>r. of_int (done_us r - dequeue_us r)) rs)"
  using assms
  by (auto simp: validate_def Let_def split: if_splits list.splits json.splits sum.splits)

lemma span_positive:
  assumes "sorted_wrt (\<lambda>a b. dequeue_us a < dequeue_us b) rs" and "2 \<le> length rs"
  shows "0 < time_span rs"
proof -
  obtain a b rest where rs: "rs = a # b # rest" using assms(2) by (metis length_0_conv not_numeral_le_zero
      One_nat_def Suc_1 Suc_le_length_iff)
  have "last (b # rest) \<in> set (b # rest)" by (rule last_in_set) simp
  with assms(1) rs have "dequeue_us a < dequeue_us (last rs)" by auto
  with rs show ?thesis by (simp add: time_span_def)
qed

lemma within_percent:
  fixes x f :: rat
  assumes "\<bar>x - f\<bar> \<le> f * (5 / 100)"
  shows "95 / 100 * f \<le> x \<and> x \<le> 105 / 100 * f"
  using assms by (simp add: abs_if split: if_splits)

text \<open>
  C31. A report in which every check passed: the samples are numbered from 1 and strictly
  ordered in time, as many as the decoder counted, which accepted every byte; no stage
  ends before it begins, the latency figures are ordered and not negative; and there are
  at least 95 and at most 105 percent of the frames the wanted rate asks for.
\<close>

theorem accepted_capture:
  assumes "validate w ev = Inr r" and "all_passed r"
  shows "\<exists>rs. rows ev = Inr rs \<and> frame_count r = length rs \<and> map seq rs = map int [1..<length rs + 1] \<and>
    sorted_wrt (\<lambda>a b. dequeue_us a < dequeue_us b) rs \<and>
    list_all (\<lambda>s. dequeue_us s \<le> submit_us s \<and> submit_us s \<le> done_us s) rs \<and>
    (\<exists>st. streams ev = [JObj st] \<and> int_of (get_field st ''nb_read_frames'') = Inr (int (length rs))) \<and>
    decoded ev \<and> idr (hd rs) = 1 \<and>
    spread 0 (dequeue_to_au r) (of_int (Max (set (map (\<lambda>s. done_us s - dequeue_us s) rs)))) \<and>
    0 < dequeue_span r \<and> seconds w - 1 \<le> dequeue_span r \<and>
    95 / 100 * fps w * dequeue_span r \<le> of_nat (frame_count r - 1) \<and>
    of_nat (frame_count r - 1) \<le> 105 / 100 * fps w * dequeue_span r"
  using assms(1)
proof (cases rule: validate_Inr)
  case (1 st cs rs n)
  from assms(2) 1(6,7) have c: "decoded ev" "list_all snd (row_checks w n rs)" by simp_all
  note checks = c(2) [unfolded row_checks_def list.pred_inject snd_conv]
  have mono: "sorted_wrt (\<lambda>a b. dequeue_us a < dequeue_us b) rs" using checks zip_tl_less by blast
  have n: "n = int (length rs)" using checks by blast
  have pos: "0 < time_span rs" by (rule span_positive [OF mono 1(4)])
  have zero: "int_of (JStr ''0'') = Inr 0" by code_simp
  have "n \<noteq> 0" using n 1(4) by linarith
  then have "int_of (get_field st ''nb_read_frames'') = Inr (int (length rs))"
    using 1(5) n zero by (cases "map_of st ''nb_read_frames''") (simp_all add: get_field_def del: int_of.simps)
  moreover have "spread 0 (dequeue_to_au r) (of_int (Max (set (map (\<lambda>s. done_us s - dequeue_us s) rs))))"
    unfolding 1(10)
  proof (rule quantiles_spread)
    show "map (\<lambda>s. rat_of_int (done_us s - dequeue_us s)) rs \<noteq> []" using 1(4) by auto
    show "\<forall>v \<in> set (map (\<lambda>s. rat_of_int (done_us s - dequeue_us s)) rs).
        0 \<le> v \<and> v \<le> of_int (Max (set (map (\<lambda>s. done_us s - dequeue_us s) rs)))"
      using checks by (fastforce simp: list_all_iff simp flip: of_int_diff intro!: Max_ge)
  qed
  moreover have "\<bar>of_nat (length rs - 1) / time_span rs - fps w\<bar> \<le> fps w * (5 / 100)"
    using checks pos by (simp add: frame_rate_def)
  then have "95 / 100 * fps w \<le> of_nat (length rs - 1) / time_span rs"
      "of_nat (length rs - 1) / time_span rs \<le> 105 / 100 * fps w"
    by (blast dest: within_percent)+
  then have "95 / 100 * fps w * time_span rs \<le> of_nat (length rs - 1)"
      "of_nat (length rs - 1) \<le> 105 / 100 * fps w * time_span rs"
    using pos by (simp_all add: pos_le_divide_eq pos_divide_le_eq)
  ultimately show ?thesis using 1(1,3,8,9) c(1) checks mono pos by (intro exI [of _ rs]) simp
qed

definition toy_rows :: "sample list" where
  "toy_rows =
     [\<lparr>seq = 1, dequeue_us = 0, submit_us = 100, done_us = 300, payload = 9, idr = 1, raw_skipped = 0, dmabuf = 1\<rparr>,
      \<lparr>seq = 2, dequeue_us = 1000000, submit_us = 1000100, done_us = 1000200, payload = 9, idr = 0, raw_skipped = 0,
       dmabuf = 1\<rparr>]"

definition toy_stream :: "(string \<times> json) list" where
  "toy_stream =
     [(''codec_name'', JStr ''hevc''), (''profile'', JStr ''Main''), (''width'', JInt 16), (''height'', JInt 9),
      (''pix_fmt'', JStr ''yuv420p''), (''color_space'', JStr ''bt709''), (''color_primaries'', JStr ''bt709''),
      (''has_b_frames'', JInt 0), (''nb_read_frames'', JStr ''2'')]"

definition toy_evidence :: evidence where
  "toy_evidence = \<lparr>probed = True, streams = [JObj toy_stream], decoded = True, diagnostics = [], rows = Inr toy_rows,
     resources = None\<rparr>"

definition toy_wanted :: wanted where
  "toy_wanted = \<lparr>codec = ''hevc'', width = 16, height = 9, fps = 1, seconds = 2, expected_range = None,
     expected_transfer = None\<rparr>"

lemma toy_checks:
  "case stream_checks toy_wanted toy_stream of Inl e \<Rightarrow> False | Inr cs \<Rightarrow> list_all snd cs"
  "int_of (get_field toy_stream ''nb_read_frames'') = Inr 2"
  by code_simp+

lemma toy_row_checks: "list_all snd (row_checks toy_wanted 2 toy_rows)"
  by (simp add: row_checks_def toy_rows_def toy_wanted_def frame_rate_def time_span_def upt_rec)

theorem accepted_capture_witness:
  "\<exists>r. validate toy_wanted toy_evidence = Inr r \<and> all_passed r \<and> 1 \<le> dequeue_span r \<and> frame_count r = 2"
proof -
  obtain cs where cs: "stream_checks toy_wanted toy_stream = Inr cs" "list_all snd cs"
    using toy_checks(1) by (auto split: sum.splits)
  moreover have "map_of toy_stream ''nb_read_frames'' = Some (JStr ''2'')" by (simp add: toy_stream_def)
  moreover have "int_of (JStr ''2'') = Inr 2" by code_simp
  moreover have "strip is_str_space [] = []" by (simp add: strip_def)
  moreover have "length toy_rows = 2" by (simp add: toy_rows_def)
  ultimately obtain r where r: "validate toy_wanted toy_evidence = Inr r" "all_passed r"
    using toy_row_checks by (auto simp: validate_def toy_evidence_def Let_def simp del: int_of.simps)
  from accepted_capture [OF r] have "frame_count r = 2" "1 \<le> dequeue_span r"
    by (auto simp: toy_evidence_def toy_rows_def toy_wanted_def)
  with r show ?thesis by blast
qed

end
