(* ===== verification/Capture_Run.thy ===== *)
theory Capture_Run
  imports Capture
begin

text \<open>
  \<open>tools/p1_capture.py\<close>: one authorised run of the capture worker, sampled twice a
  second and ended by the worker, by a signal or by its deadline.  What the
  operating system answers in each round of the loop is an argument; \<open>sleep\<close> takes
  at least its time.
\<close>

section \<open>A sample of the worker\<close>

definition nth_int :: "string list \<Rightarrow> nat \<Rightarrow> int option" where
  "nth_int fs i = (if i < length fs then py_int 10 (fs ! i) else None)"

text \<open>\<open>stat\<close> is \<open>/proc/PID/stat\<close>, \<open>temps\<close> the thermal zones, \<open>None\<close> where reading fails.\<close>

definition take_sample :: "rat \<Rightarrow> int \<Rightarrow> string option \<Rightarrow> string option list \<Rightarrow> usage option" where
  "take_sample now page stat temps =
     (case Option.bind stat (after_last (CHR '')'')) of
        None \<Rightarrow> None
      | Some rest \<Rightarrow>
          let fs = words rest in
            (case (nth_int fs 11, nth_int fs 12, nth_int fs 21) of
               (Some user, Some system, Some pages) \<Rightarrow>
                 Some \<lparr>monotonic_s = now, cpu_ticks = user + system, rss_bytes = pages * page,
                   temperatures = List.map_filter (\<lambda>t. Option.bind t (\<lambda>s. py_int 10 (strip is_str_space s))) temps\<rparr>
             | _ \<Rightarrow> None))"

text \<open>The name of the program, which may hold blanks and parentheses, does not matter.\<close>

lemma sample_any_name:
  assumes "CHR '')'' \<notin> set rest"
  shows "take_sample now page (Some (pid @ '' ('' @ name @ [CHR '')''] @ rest)) temps =
    take_sample now page (Some (CHR '')'' # rest)) temps"
  using after_last_append [OF assms, of "pid @ '' ('' @ name"] after_last_append [OF assms, of "[]"]
  by (simp add: take_sample_def)

section \<open>The loop\<close>

text \<open>
  Round \<open>k\<close>: what \<open>poll\<close> says, the sample, whether a signal has come and the clock.
  After \<open>terminate\<close> the worker ends within three seconds or is killed; \<open>code\<close> is what
  the last \<open>wait\<close> returns.
\<close>

record surroundings =
  polled :: "nat \<Rightarrow> bool"
  sampled :: "nat \<Rightarrow> usage option"
  signalled :: "nat \<Rightarrow> bool"
  clock :: "nat \<Rightarrow> rat"
  obeys :: bool
  code :: int

datatype ending = By_Itself | Terminated | Killed

definition add_sample :: "usage option \<Rightarrow> usage list \<Rightarrow> usage list" where
  "add_sample r taken = (case r of None \<Rightarrow> taken | Some u \<Rightarrow> taken @ [u])"

partial_function (option) watch ::
  "surroundings \<Rightarrow> rat \<Rightarrow> nat \<Rightarrow> usage list \<Rightarrow> (usage list \<times> ending) option" where
  "watch e deadline k taken =
     (if polled e k then Some (taken, By_Itself)
      else
        (let more = add_sample (sampled e k) taken in
           if signalled e k \<or> clock e k > deadline then Some (more, if obeys e then Terminated else Killed)
           else watch e deadline (k + 1) more))"

record run_request =
  acknowledged :: bool
  run_seconds :: int
  result_exists :: bool

definition capture_main ::
  "run_request \<Rightarrow> rat \<Rightarrow> surroundings \<Rightarrow> (exn + usage list \<times> ending \<times> int) option" where
  "capture_main q now e =
     (if \<not> acknowledged q then Some (Inl SystemExit)
      else if \<not> (1 \<le> run_seconds q \<and> run_seconds q \<le> 3600) then Some (Inl SystemExit)
      else if result_exists q then Some (Inl OSError)
      else map_option (\<lambda>(taken, how). Inr (taken, how, code e)) (watch e (now + of_int (run_seconds q) + 10) 0 []))"

section \<open>The run ends\<close>

text \<open>Each round sleeps for half a second, and a sample carries the time of its round.\<close>

definition paced :: "rat \<Rightarrow> surroundings \<Rightarrow> bool" where
  "paced now e \<longleftrightarrow> now \<le> clock e 0 \<and> (\<forall>k. clock e k + 1 / 2 \<le> clock e (k + 1)) \<and>
     (\<forall>k u. sampled e k = Some u \<longrightarrow> monotonic_s u \<le> clock e k \<and> (k > 0 \<longrightarrow> clock e (k - 1) < monotonic_s u))"

lemma clock_grows: "paced now e \<Longrightarrow> now + of_nat k / 2 \<le> clock e k"
proof (induction k)
  case (Suc k)
  then have "clock e k + 1 / 2 \<le> clock e (k + 1)" by (simp add: paced_def)
  with Suc show ?case by (simp add: field_simps)
qed (simp add: paced_def)

lemma clock_mono: "paced now e \<Longrightarrow> k \<le> m \<Longrightarrow> clock e k \<le> clock e m"
proof (rule lift_Suc_mono_le [of "clock e"])
  fix n
  assume "paced now e"
  then have "clock e n + 1 / 2 \<le> clock e (Suc n)" by (simp add: paced_def)
  then show "clock e n \<le> clock e (Suc n)" by simp
qed

text \<open>The samples so far were taken before round \<open>k\<close>, each later than the one before.\<close>

definition in_time :: "surroundings \<Rightarrow> nat \<Rightarrow> usage list \<Rightarrow> bool" where
  "in_time e k taken \<longleftrightarrow> sorted_wrt (\<lambda>a b. monotonic_s a < monotonic_s b) taken \<and>
     (\<forall>u \<in> set taken. k > 0 \<and> monotonic_s u \<le> clock e (k - 1)) \<and> length taken \<le> k"

lemma in_time_add:
  assumes "in_time e k taken" and "paced now e"
  shows "in_time e (k + 1) (add_sample (sampled e k) taken)"
proof (cases "sampled e k")
  case None
  have "clock e (k - 1) \<le> clock e k" by (rule clock_mono [OF assms(2)]) simp
  with assms(1) None show ?thesis by (fastforce simp: in_time_def add_sample_def)
next
  case (Some u)
  with assms(2) have u: "monotonic_s u \<le> clock e k" "k > 0 \<longrightarrow> clock e (k - 1) < monotonic_s u" by (auto simp: paced_def)
  have "clock e (k - 1) \<le> clock e k" by (rule clock_mono [OF assms(2)]) simp
  with assms(1) Some u show ?thesis by (fastforce simp: in_time_def add_sample_def sorted_wrt_append)
qed

lemma watch_ends:
  assumes "paced now e" and "in_time e k taken" and "deadline < now + of_nat m / 2" and "k \<le> m"
  shows "\<exists>taken2 how n. watch e deadline k taken = Some (taken2, how) \<and> in_time e n taken2 \<and> n \<le> m + 1"
  using assms
proof (induction "m - k" arbitrary: k taken)
  case 0
  then have "deadline < clock e k" using clock_grows [OF assms(1), of k] by simp
  with in_time_add [OF 0(3,2)] 0 show ?case by (subst watch.simps) (auto simp: Let_def intro: exI [of _ k])
next
  case (Suc d)
  note step = in_time_add [OF Suc(4,3)]
  show ?case
  proof (cases "polled e k \<or> signalled e k \<or> clock e k > deadline")
    case True
    with step Suc show ?thesis by (subst watch.simps) (auto simp: Let_def intro: exI [of _ k] exI [of _ "k + 1"])
  next
    case False
    have "d = m - (k + 1)" "k + 1 \<le> m" using Suc(2) by simp_all
    from Suc(1) [OF this(1) Suc(3) step Suc(5) this(2)] False show ?thesis by (subst watch.simps) (simp add: Let_def)
  qed
qed

lemma every_pair_counts:
  "sorted_wrt (\<lambda>a b. monotonic_s a < monotonic_s b) us \<Longrightarrow> hz > 0 \<Longrightarrow> length (cpu_percent hz us) = length us - 1"
proof -
  assume s: "sorted_wrt (\<lambda>a b. monotonic_s a < monotonic_s b) us" and hz: "hz > 0"
  have "\<forall>(a, b) \<in> set (zip us (tl us)). monotonic_s b - monotonic_s a > 0"
    using s by (induction us rule: induct_list012) auto
  then have "filter (\<lambda>(a, b). monotonic_s b - monotonic_s a > 0) (zip us (tl us)) = zip us (tl us)"
    by (simp add: filter_id_conv)
  with hz show ?thesis by (simp add: cpu_percent_def)
qed

text \<open>
  C32. Whatever the worker does, a run ends: a request that is not acknowledged, has no
  sensible duration or would reuse a directory is refused, every other one yields the
  worker's exit code and at most two samples a second for the duration and the grace
  time, strictly ordered, so that each pair of neighbours counts in the CPU figures.
\<close>

theorem capture_ends:
  assumes "paced now e"
  shows "\<exists>r. capture_main q now e = Some r \<and>
    (case r of
       Inl x \<Rightarrow> \<not> acknowledged q \<or> run_seconds q < 1 \<or> 3600 < run_seconds q \<or> result_exists q
     | Inr (us, how, c) \<Rightarrow>
         acknowledged q \<and> 1 \<le> run_seconds q \<and> run_seconds q \<le> 3600 \<and> \<not> result_exists q \<and> c = code e \<and>
         int (length us) \<le> 2 * run_seconds q + 22 \<and> sorted_wrt (\<lambda>a b. monotonic_s a < monotonic_s b) us \<and>
         length (cpu_percent 100 us) = length us - 1)"
proof (cases "acknowledged q \<and> 1 \<le> run_seconds q \<and> run_seconds q \<le> 3600 \<and> \<not> result_exists q")
  case True
  let ?m = "nat (2 * run_seconds q + 21)"
  have "rat_of_nat ?m = 2 * of_int (run_seconds q) + 21" using True by simp
  then have "now + of_int (run_seconds q) + 10 < now + of_nat ?m / 2" by (simp add: field_simps)
  moreover have "in_time e 0 []" by (simp add: in_time_def)
  ultimately obtain us how n where
    w: "watch e (now + of_int (run_seconds q) + 10) 0 [] = Some (us, how)" "in_time e n us" "n \<le> ?m + 1"
    using watch_ends [OF assms] by blast
  from w(2) have "length us \<le> n" by (simp add: in_time_def)
  with w(3) True have "int (length us) \<le> 2 * run_seconds q + 22" by linarith
  moreover have "sorted_wrt (\<lambda>a b. monotonic_s a < monotonic_s b) us" using w(2) by (simp add: in_time_def)
  moreover from this have "length (cpu_percent 100 us) = length us - 1" by (rule every_pair_counts) simp
  ultimately show ?thesis using True w(1) by (simp add: capture_main_def)
next
  case False
  then show ?thesis by (auto simp: capture_main_def)
qed

definition silent_worker :: surroundings where
  "silent_worker = \<lparr>polled = (\<lambda>_. False), sampled = (\<lambda>_. None), signalled = (\<lambda>_. False), clock = (\<lambda>k. of_nat k / 2),
     obeys = False, code = -9\<rparr>"

theorem capture_ends_witness:
  "\<exists>us how. capture_main \<lparr>acknowledged = True, run_seconds = 60, result_exists = False\<rparr> 0 silent_worker =
     Some (Inr (us, how, -9)) \<and> length us \<le> 142"
proof -
  have "paced 0 silent_worker" by (simp add: paced_def silent_worker_def field_simps)
  from capture_ends [OF this, of "\<lparr>acknowledged = True, run_seconds = 60, result_exists = False\<rparr>"] obtain us how where
    "capture_main \<lparr>acknowledged = True, run_seconds = 60, result_exists = False\<rparr> 0 silent_worker =
       Some (Inr (us, how, code silent_worker))" "int (length us) \<le> 142"
    by (auto split: sum.splits prod.splits) (metis sum.exhaust prod_cases3)
  then show ?thesis by (auto simp: silent_worker_def)
qed

end
