(* ===== verification/Fetch.thy ===== *)
theory Fetch
  imports Steps Overlay_Sunshine Overlay_Moonlight Prepare Hid_Http
begin

text \<open>
  The two scripts that download the pinned sources, \<open>tools/fetch_sources.py\<close> and
  \<open>client/tools/fetch_client_sources.py\<close>, with the pins of the two lock files they
  read.  Git and the file system are arguments: which commands return 0, what
  \<open>rev-parse\<close> prints, which directories can be made.  A directory that cannot be made
  leaves nothing.  The destination is a normalised path.
\<close>

record outside =
  returns_zero :: "string list \<Rightarrow> bool"
  printed :: "string list \<Rightarrow> string option"
  can_make :: "string \<Rightarrow> bool"

text \<open>The directories that are there, and the commands run so far.\<close>

record disk =
  on_disk :: "string set"
  issued :: "string list list"

section \<open>The lock files\<close>

text \<open>URL and commit of each source.\<close>

definition SOURCES :: "(string \<times> string \<times> string) list" where
  "SOURCES =
     [(''sunshine'', ''https://github.com/LizardByte/Sunshine.git'', ''63d35f702ee9e362e43263742981836ec0710384''),
      (''mpp'', ''https://github.com/rockchip-linux/mpp.git'', ''0986d01294d5c2449c14cf13af9b740368c33967''),
      (''reference'', ''https://github.com/atsrxL/nanopc-t6-kvm.git'', ''6c381b30f8fc3b34a70a63840eb817f549e844b2''),
      (''kvmd'', ''https://github.com/pikvm/kvmd.git'', ''78ff181e95b14327831441d58f2f7f4cb2181cde'')]"

definition CLIENT_SOURCE :: "string \<times> string" where
  "CLIENT_SOURCE = (''https://github.com/moonlight-stream/moonlight-qt.git'', ''f786e94c7b2f943e24e65d7d74deb539b827fc84'')"

definition SUBMODULES :: "(string \<times> string) list" where
  "SUBMODULES =
     [(''moonlight-common-c/moonlight-common-c'', ''8599b6042a4ba27749b0f94134dd614b4328a9bc''),
      (''moonlight-common-c/moonlight-common-c/enet'', ''bbf71856bb144729af4ed08af6bc2f5826a96db5''),
      (''h264bitstream/h264bitstream'', ''34f3c58afa3c47b6cf0a49308a68cbf89c5e0bff''),
      (''soundio/libsoundio'', ''34bbab80bd4034ba5080921b6ba6d61314126310''),
      (''libs'', ''a27d6a7995ef504963fa9058c69e6ba1b449cc0f'')]"

section \<open>Directories and git\<close>

definition ancestors :: "string \<Rightarrow> string list" where
  "ancestors p = map (\<lambda>i. take i p) (filter (\<lambda>i. p ! i = CHR ''/'') [1..<length p])"

text \<open>\<open>mkdir\<close> of a path, with the missing parents.\<close>

definition make_dir :: "outside \<Rightarrow> string \<Rightarrow> disk \<Rightarrow> disk outcome" where
  "make_dir env p d =
     (if \<not> can_make env p then (d, Some OSError)
      else (d\<lparr>on_disk := on_disk d \<union> insert p (set (ancestors p))\<rparr>, None))"

definition call_checked :: "outside \<Rightarrow> string list \<Rightarrow> disk \<Rightarrow> disk outcome" where
  "call_checked env cmd d =
     (d\<lparr>issued := issued d @ [cmd]\<rparr>, if returns_zero env cmd then None else Some CalledProcessError)"

definition git_in :: "outside \<Rightarrow> string \<Rightarrow> string list \<Rightarrow> disk \<Rightarrow> disk outcome" where
  "git_in env target args = call_checked env (''git'' # ''-C'' # target # args)"

text \<open>\<open>rev-parse\<close>, stripped, against the pinned commit.\<close>

definition head_at :: "outside \<Rightarrow> string \<Rightarrow> string option" where
  "head_at env target = map_option (strip is_str_space) (printed env [''git'', ''-C'', target, ''rev-parse'', ''HEAD''])"

definition expect_head :: "outside \<Rightarrow> string \<Rightarrow> string \<Rightarrow> disk \<Rightarrow> disk outcome" where
  "expect_head env target commit d =
     (d\<lparr>issued := issued d @ [[''git'', ''-C'', target, ''rev-parse'', ''HEAD'']]\<rparr>,
      case head_at env target of
        None \<Rightarrow> Some CalledProcessError
      | Some actual \<Rightarrow> if actual \<noteq> commit then Some SystemExit else None)"

text \<open>The part the two scripts share: a new directory at a commit.\<close>

definition new_checkout :: "outside \<Rightarrow> string \<Rightarrow> string \<Rightarrow> string \<Rightarrow> (disk \<Rightarrow> disk outcome) list" where
  "new_checkout env target url commit =
     [make_dir env target,
      call_checked env [''git'', ''init'', target],
      git_in env target [''remote'', ''add'', ''origin'', url],
      git_in env target [''fetch'', ''--depth'', ''1'', ''origin'', commit],
      git_in env target [''checkout'', ''--detach'', ''FETCH_HEAD''],
      expect_head env target commit]"

section \<open>\<open>fetch_sources.py\<close>\<close>

definition component_names :: "string \<Rightarrow> string list" where
  "component_names component = (if component = ''all'' then [''mpp'', ''sunshine'', ''kvmd''] else [component])"

definition target_of :: "string \<Rightarrow> string \<Rightarrow> string" where
  "target_of destination name = destination @ ''/'' @ name"

definition nested_modules :: "outside \<Rightarrow> string \<Rightarrow> string \<Rightarrow> (disk \<Rightarrow> disk outcome) list" where
  "nested_modules env target name =
     (if name = ''sunshine'' then [git_in env target [''submodule'', ''update'', ''--init'', ''--recursive'', ''--depth'', ''1'']]
      else [])"

definition fetch_one :: "outside \<Rightarrow> string \<Rightarrow> string \<Rightarrow> disk \<Rightarrow> disk outcome" where
  "fetch_one env destination name d =
     (case map_of SOURCES name of
        None \<Rightarrow> (d, Some KeyError)
      | Some (url, commit) \<Rightarrow>
          let target = target_of destination name in
            if target \<in> on_disk d then (d, Some SystemExit)
            else run_steps (new_checkout env target url commit @ nested_modules env target name) d)"

definition fetch_sources :: "outside \<Rightarrow> string \<Rightarrow> string \<Rightarrow> disk \<Rightarrow> disk outcome" where
  "fetch_sources env destination component d =
     (if component \<notin> {''sunshine'', ''mpp'', ''kvmd'', ''all''} then (d, Some SystemExit)
      else run_steps (make_dir env destination # map (fetch_one env destination) (component_names component)) d)"

section \<open>\<open>fetch_client_sources.py\<close>\<close>

definition ends_with :: "string \<Rightarrow> string \<Rightarrow> bool" where
  "ends_with s p \<longleftrightarrow> length s \<le> length p \<and> drop (length p - length s) p = s"

definition fetch_submodule :: "outside \<Rightarrow> string \<Rightarrow> string \<times> string \<Rightarrow> disk \<Rightarrow> disk outcome" where
  "fetch_submodule env target submodule d =
     (case submodule of (path, expected) \<Rightarrow>
        run_steps
          [if ends_with ''/enet'' path then
             git_in env (target_of target ''moonlight-common-c/moonlight-common-c'')
               [''submodule'', ''update'', ''--init'', ''--depth'', ''1'', ''enet'']
           else git_in env target [''submodule'', ''update'', ''--init'', ''--depth'', ''1'', path],
           expect_head env (target_of target path) expected] d)"

definition client_steps :: "outside \<Rightarrow> string \<Rightarrow> (disk \<Rightarrow> disk outcome) list" where
  "client_steps env target =
     new_checkout env target (fst CLIENT_SOURCE) (snd CLIENT_SOURCE) @ map (fetch_submodule env target) SUBMODULES"

definition fetch_client :: "outside \<Rightarrow> string \<Rightarrow> disk \<Rightarrow> disk outcome" where
  "fetch_client env target d =
     (if target \<in> on_disk d then (d, Some SystemExit)
      else run_steps (client_steps env target) d)"

section \<open>Only new directories are worked in\<close>

definition worked_in :: "string list \<Rightarrow> string option" where
  "worked_in cmd =
     (if length cmd > 2 \<and> take 2 cmd \<in> {[''git'', ''init''], [''git'', ''-C'']} then Some (cmd ! 2) else None)"

definition inside :: "string \<Rightarrow> string \<Rightarrow> bool" where
  "inside target p \<longleftrightarrow> p = target \<or> (\<exists>s. p = target_of target s)"

text \<open>
  While \<open>base\<close> is there nothing disappears, and every command works inside one of the
  targets that \<open>base\<close> does not have.
\<close>

definition only_new :: "string set \<Rightarrow> string set \<Rightarrow> disk \<Rightarrow> disk \<Rightarrow> bool" where
  "only_new base targets d d' \<longleftrightarrow>
     (base \<subseteq> on_disk d \<longrightarrow>
       on_disk d \<subseteq> on_disk d' \<and>
       (\<exists>cs. issued d' = issued d @ cs \<and>
         (\<forall>c \<in> set cs. \<exists>t p. t \<in> targets \<and> t \<notin> base \<and> worked_in c = Some p \<and> inside t p)))"

lemma only_new_refl: "only_new base targets d d"
  by (simp add: only_new_def)

lemma only_new_trans:
  assumes "only_new base targets d d1" and "only_new base targets d1 d2"
  shows "only_new base targets d d2"
  unfolding only_new_def
proof
  assume b: "base \<subseteq> on_disk d"
  with assms(1) obtain cs where cs: "on_disk d \<subseteq> on_disk d1" "issued d1 = issued d @ cs"
    "\<forall>c \<in> set cs. \<exists>t p. t \<in> targets \<and> t \<notin> base \<and> worked_in c = Some p \<and> inside t p" by (auto simp: only_new_def)
  from b cs(1) assms(2) obtain ds where ds: "on_disk d1 \<subseteq> on_disk d2" "issued d2 = issued d1 @ ds"
    "\<forall>c \<in> set ds. \<exists>t p. t \<in> targets \<and> t \<notin> base \<and> worked_in c = Some p \<and> inside t p" unfolding only_new_def by blast
  from cs(1) ds(1) show "on_disk d \<subseteq> on_disk d2 \<and> (\<exists>cs. issued d2 = issued d @ cs \<and>
      (\<forall>c \<in> set cs. \<exists>t p. t \<in> targets \<and> t \<notin> base \<and> worked_in c = Some p \<and> inside t p))"
    by (intro conjI exI [of _ "cs @ ds"]) (use cs(2,3) ds(2,3) in auto)
qed

interpretation fetching: kept "only_new base targets" for base targets
  by unfold_locales (auto intro: only_new_refl only_new_trans)

lemma only_new_dir: "only_new base targets d (fst (make_dir env p d))"
  by (auto simp: make_dir_def only_new_def)

lemma inside_target [simp]: "inside t t" "inside t (target_of t s)"
  by (auto simp: inside_def)

lemma only_new_git:
  assumes "t \<in> targets" "t \<notin> base" "inside t p"
  shows "only_new base targets d (fst (git_in env p args d))"
    and "only_new base targets d (fst (expect_head env p commit d))"
    and "only_new base targets d (fst (call_checked env [''git'', ''init'', p] d))"
  using assms by (auto simp: git_in_def call_checked_def expect_head_def only_new_def worked_in_def)

lemma only_new_checkout:
  assumes "t \<in> targets" "t \<notin> base" "f \<in> set (new_checkout env t url commit)"
  shows "only_new base targets d (fst (f d))"
  using assms only_new_git [of t targets base t] only_new_dir by (auto simp: new_checkout_def)

lemma only_new_one:
  assumes "target_of destination name \<in> targets"
  shows "only_new base targets d (fst (fetch_one env destination name d))"
proof (cases "base \<subseteq> on_disk d")
  case True
  show ?thesis
  proof (cases "map_of SOURCES name")
    case (Some entry)
    let ?t = "target_of destination name"
    obtain url commit where e: "entry = (url, commit)" by (cases entry)
    show ?thesis
    proof (cases "?t \<in> on_disk d")
      case False
      with True have n: "?t \<notin> base" by blast
      show ?thesis unfolding fetch_one_def Some e option.case prod.case Let_def if_not_P [OF False]
        by (rule fetching.by_steps)
          (use only_new_checkout [OF assms n] only_new_git(1) [OF assms n] in \<open>auto simp: nested_modules_def split: if_splits\<close>)
    qed (simp add: fetch_one_def Some e only_new_refl)
  qed (simp add: fetch_one_def only_new_refl)
qed (simp add: only_new_def)

lemma only_new_sources:
  "only_new base (target_of destination ` set (component_names component)) d (fst (fetch_sources env destination component d))"
proof -
  have "only_new base (target_of destination ` set (component_names component)) d
      (fst (run_steps (make_dir env destination # map (fetch_one env destination) (component_names component)) d))"
    by (rule fetching.by_steps) (use only_new_dir only_new_one in auto)
  then show ?thesis by (simp add: fetch_sources_def only_new_refl del: run_steps.simps)
qed

lemma only_new_submodule:
  assumes "t \<in> targets" "t \<notin> base"
  shows "only_new base targets d (fst (fetch_submodule env t submodule d))"
  unfolding fetch_submodule_def
  by (cases submodule)
    (auto intro!: fetching.by_cons fetching.by_nil only_new_git(1,2) [OF assms] simp del: run_steps.simps)

lemma only_new_client_steps:
  "target \<notin> base \<Longrightarrow> f \<in> set (client_steps env target) \<Longrightarrow> only_new base {target} d (fst (f d))"
  using only_new_checkout [of target "{target}" base] only_new_submodule [of target "{target}" base]
  by (auto simp: client_steps_def)

lemma only_new_client: "only_new base {target} d (fst (fetch_client env target d))"
proof (cases "base \<subseteq> on_disk d")
  case True
  show ?thesis
  proof (cases "target \<in> on_disk d")
    case False
    with True have "target \<notin> base" by blast
    then have "only_new base {target} d (fst (run_steps (client_steps env target) d))"
      by (intro fetching.by_steps only_new_client_steps)
    with False show ?thesis by (simp add: fetch_client_def)
  qed (simp add: fetch_client_def only_new_refl)
qed (simp add: only_new_def)

section \<open>What a download that returned leaves\<close>

lemma expect_head_done: "expect_head env p commit d = (d', None) \<Longrightarrow> head_at env p = Some commit"
  by (auto simp: expect_head_def split: option.splits if_splits)

lemma new_checkout_head:
  assumes "run_steps (new_checkout env t url commit @ fs) d = (d', None)"
  shows "head_at env t = Some commit"
  using assms by (auto simp: run_steps_append proceed_done new_checkout_def dest: expect_head_done)

lemma fetch_one_done:
  assumes "fetch_one env destination name d = (d', None)"
  obtains url commit where "map_of SOURCES name = Some (url, commit)" "target_of destination name \<notin> on_disk d"
    "head_at env (target_of destination name) = Some commit"
proof -
  from assms obtain url commit where s: "map_of SOURCES name = Some (url, commit)"
    by (auto simp: fetch_one_def split: option.splits)
  with assms have n: "target_of destination name \<notin> on_disk d" by (auto simp: fetch_one_def split: if_splits)
  have "run_steps (new_checkout env (target_of destination name) url commit @
      nested_modules env (target_of destination name) name) d = (d', None)"
    using assms s n by (simp add: fetch_one_def Let_def)
  from that [OF s n new_checkout_head [OF this]] show ?thesis .
qed

lemma fetch_sources_done:
  assumes "fetch_sources env destination component d = (d', None)" and "n \<in> set (component_names component)"
  shows "\<exists>url commit. map_of SOURCES n = Some (url, commit) \<and> target_of destination n \<notin> on_disk d \<and>
    head_at env (target_of destination n) = Some commit"
proof -
  let ?T = "target_of destination ` set (component_names component)"
  let ?fs = "make_dir env destination # map (fetch_one env destination) (component_names component)"
  have k: "only_new {} ?T t (fst (f t))" if "f \<in> set ?fs" for f t
    using that only_new_dir only_new_one by fastforce
  have "run_steps ?fs d = (d', None)"
    using assms(1) by (simp add: fetch_sources_def del: run_steps.simps split: if_splits)
  then have "\<exists>t u. only_new {} ?T d t \<and> fetch_one env destination n t = (u, None) \<and> only_new {} ?T u d'"
    by (rule fetching.by_steps_done) (use assms(2) k in auto)
  then obtain t u where t: "only_new {} ?T d t" "fetch_one env destination n t = (u, None)" by auto
  from t(1) have "on_disk d \<subseteq> on_disk t" by (simp add: only_new_def)
  with t(2) show ?thesis by (elim fetch_one_done) blast
qed

lemma fetch_client_done:
  assumes "fetch_client env target d = (d', None)"
  shows "target \<notin> on_disk d" and "head_at env target = Some (snd CLIENT_SOURCE)"
    and "(p, commit) \<in> set SUBMODULES \<Longrightarrow> head_at env (target_of target p) = Some commit"
proof -
  show n: "target \<notin> on_disk d" using assms by (auto simp: fetch_client_def split: if_splits)
  with assms have s: "run_steps (client_steps env target) d = (d', None)" by (simp add: fetch_client_def)
  then show "head_at env target = Some (snd CLIENT_SOURCE)" unfolding client_steps_def by (rule new_checkout_head)
  assume m: "(p, commit) \<in> set SUBMODULES"
  have k: "only_new {} {target} t (fst (f t))" if "f \<in> set (client_steps env target)" for f t
    using that by (intro only_new_client_steps) simp_all
  from m have "fetch_submodule env target (p, commit) \<in> set (client_steps env target)" by (simp add: client_steps_def)
  with s have "\<exists>t u. only_new {} {target} d t \<and> fetch_submodule env target (p, commit) t = (u, None) \<and>
      only_new {} {target} u d'"
    by (rule fetching.by_steps_done) (rule k)
  then obtain t u where "fetch_submodule env target (p, commit) t = (u, None)" by blast
  then show "head_at env (target_of target p) = Some commit"
    by (auto simp: fetch_submodule_def proceed_done dest: expect_head_done)
qed

text \<open>A second run after one that made its first directory.\<close>

lemma fetch_again:
  assumes "component \<in> {''sunshine'', ''mpp'', ''kvmd'', ''all''}" and "can_make env destination"
    and "target_of destination (hd (component_names component)) \<in> on_disk d"
  shows "\<exists>d'. fetch_sources env destination component d = (d', Some SystemExit) \<and> issued d' = issued d"
proof -
  let ?d = "d\<lparr>on_disk := on_disk d \<union> insert destination (set (ancestors destination))\<rparr>"
  obtain n ns where n: "component_names component = n # ns" "n \<in> {''sunshine'', ''mpp'', ''kvmd''}"
    using assms(1) by (auto simp: component_names_def split: if_splits)
  from n(2) obtain url commit where "map_of SOURCES n = Some (url, commit)" by (auto simp: SOURCES_def)
  moreover have "target_of destination n \<in> on_disk ?d" using assms(3) n(1) by simp
  ultimately have "fetch_one env destination n ?d = (?d, Some SystemExit)" by (simp add: fetch_one_def)
  then have "fetch_sources env destination component d = (?d, Some SystemExit)"
    using assms(1,2) n(1) by (simp add: fetch_sources_def make_dir_def)
  then show ?thesis by simp
qed

lemma only_new_mono: "only_new base targets d d' \<Longrightarrow> targets \<subseteq> targets' \<Longrightarrow> only_new base targets' d d'"
  unfolding only_new_def by blast

text \<open>Where git works and prints what is pinned, the download of the client returns.\<close>

lemma fetch_client_works:
  assumes "\<forall>cmd. returns_zero env cmd" and "\<forall>p. can_make env p" and "target \<notin> on_disk d"
    and "head_at env target = Some (snd CLIENT_SOURCE)"
    and "\<forall>(p, commit) \<in> set SUBMODULES. head_at env (target_of target p) = Some commit"
  shows "\<exists>d'. fetch_client env target d = (d', None)"
proof -
  have "\<exists>d'. f t = (d', None)" if "f \<in> set (client_steps env target)" for f t
  proof -
    from that consider "f \<in> set (new_checkout env target (fst CLIENT_SOURCE) (snd CLIENT_SOURCE))"
      | p commit where "(p, commit) \<in> set SUBMODULES" "f = fetch_submodule env target (p, commit)"
      by (auto simp: client_steps_def)
    then show ?thesis
    proof cases
      case 1
      then show ?thesis using assms(1,2,4) by (auto simp: new_checkout_def make_dir_def git_in_def call_checked_def expect_head_def)
    next
      case 2
      with assms(5) have "head_at env (target_of target p) = Some commit" by blast
      with 2(2) assms(1) show ?thesis by (simp add: fetch_submodule_def git_in_def call_checked_def expect_head_def)
    qed
  qed
  then have "\<exists>d'. run_steps (client_steps env target) d = (d', None)" by (rule run_steps_works)
  with assms(3) show ?thesis by (simp add: fetch_client_def)
qed

text \<open>
  C24. Both downloads, one after the other, work only in directories that were not there
  and remove nothing.  A download that returned has every source at the commit of the
  lock file, so none of the scripts that patch these sources refuses it for its
  commit.  One that got as far as its first directory is not repeated.
\<close>

theorem fetched_patchable:
  assumes "fetch_sources env destination component d = (d1, r)" and "fetch_client env target d1 = (d2, r')"
  shows "on_disk d \<subseteq> on_disk d2 \<and>
    (\<exists>cs. issued d2 = issued d @ cs \<and>
      (\<forall>c \<in> set cs. \<exists>t p. t \<in> insert target (target_of destination ` set (component_names component)) \<and>
         t \<notin> on_disk d \<and> worked_in c = Some p \<and> inside t p)) \<and>
    (r = None \<longrightarrow>
      (\<forall>n \<in> set (component_names component). \<exists>url commit. map_of SOURCES n = Some (url, commit) \<and>
         target_of destination n \<notin> on_disk d \<and> head_at env (target_of destination n) = Some commit) \<and>
      (component \<in> {''all'', ''sunshine''} \<longrightarrow> head_at env (target_of destination ''sunshine'') = Some PIN) \<and>
      (component \<in> {''all'', ''kvmd''} \<longrightarrow> head_at env (target_of destination ''kvmd'') = Some KVMD_PIN)) \<and>
    (r' = None \<longrightarrow> target \<notin> on_disk d1 \<and> head_at env target = Some (snd CLIENT_SOURCE) \<and>
      (\<forall>(p, commit) \<in> set SUBMODULES. head_at env (target_of target p) = Some commit) \<and>
      head_at env (target_of target COMMON_PATH) = Some COMMON_PIN) \<and>
    (\<forall>env'. can_make env' destination \<and> component \<in> {''sunshine'', ''mpp'', ''kvmd'', ''all''} \<and>
       target_of destination (hd (component_names component)) \<in> on_disk d1 \<longrightarrow>
       (\<exists>d'. fetch_sources env' destination component d1 = (d', Some SystemExit) \<and> issued d' = issued d1))"
proof -
  let ?T = "target_of destination ` set (component_names component)"
  have "only_new (on_disk d) (insert target ?T) d d1" "only_new (on_disk d) (insert target ?T) d1 d2"
    using only_new_sources [of "on_disk d" destination component d env] only_new_client [of "on_disk d" target d1 env] assms
    by (auto elim: only_new_mono)
  from only_new_trans [OF this] have new: "on_disk d \<subseteq> on_disk d2 \<and>
    (\<exists>cs. issued d2 = issued d @ cs \<and>
      (\<forall>c \<in> set cs. \<exists>t p. t \<in> insert target ?T \<and> t \<notin> on_disk d \<and> worked_in c = Some p \<and> inside t p))"
    unfolding only_new_def by (rule mp) simp
  have server: "r = None \<longrightarrow>
      (\<forall>n \<in> set (component_names component). \<exists>url commit. map_of SOURCES n = Some (url, commit) \<and>
         target_of destination n \<notin> on_disk d \<and> head_at env (target_of destination n) = Some commit)"
    using fetch_sources_done assms(1) by blast
  then have pins: "r = None \<longrightarrow>
      (component \<in> {''all'', ''sunshine''} \<longrightarrow> head_at env (target_of destination ''sunshine'') = Some PIN) \<and>
      (component \<in> {''all'', ''kvmd''} \<longrightarrow> head_at env (target_of destination ''kvmd'') = Some KVMD_PIN)"
    by (auto simp: component_names_def SOURCES_def PIN_def KVMD_PIN_def)
  have client: "r' = None \<longrightarrow> target \<notin> on_disk d1 \<and> head_at env target = Some (snd CLIENT_SOURCE) \<and>
      (\<forall>(p, commit) \<in> set SUBMODULES. head_at env (target_of target p) = Some commit)"
    using fetch_client_done assms(2) by blast
  then have common: "r' = None \<longrightarrow> head_at env (target_of target COMMON_PATH) = Some COMMON_PIN"
    by (simp add: SUBMODULES_def COMMON_PATH_def COMMON_PIN_def)
  show ?thesis using new server pins client common fetch_again [where d = d1] by (intro conjI) (assumption | simp)+
qed

definition toy_outside :: outside where
  "toy_outside =
     \<lparr>returns_zero = (\<lambda>_. True),
      printed = (\<lambda>cmd. map_option (\<lambda>commit. commit @ [CHR 0x0A])
        (map_of ((''v/kvmd'', KVMD_PIN) # (''c'', snd CLIENT_SOURCE) # map (\<lambda>(p, c). (''c/'' @ p, c)) SUBMODULES) (cmd ! 2))),
      can_make = (\<lambda>_. True)\<rparr>"

lemma toy_heads:
  "head_at toy_outside ''v/kvmd'' = Some KVMD_PIN" "head_at toy_outside ''c'' = Some (snd CLIENT_SOURCE)"
  "list_all (\<lambda>(p, c). head_at toy_outside (target_of ''c'' p) = Some c) SUBMODULES"
  by code_simp+

theorem fetched_patchable_witness:
  "\<exists>d1 d2. fetch_sources toy_outside ''v'' ''kvmd'' \<lparr>on_disk = {}, issued = []\<rparr> = (d1, None) \<and>
     fetch_client toy_outside ''c'' d1 = (d2, None) \<and> head_at toy_outside ''v/kvmd'' = Some KVMD_PIN \<and>
     head_at toy_outside (target_of ''c'' COMMON_PATH) = Some COMMON_PIN"
proof -
  let ?d = "\<lparr>on_disk = {}, issued = []\<rparr>"
  obtain d1 where d1: "fetch_sources toy_outside ''v'' ''kvmd'' ?d = (d1, None)" "''c'' \<notin> on_disk d1"
  proof -
    have "ancestors ''v'' = []" "ancestors ''v/kvmd'' = [''v'']" by code_simp+
    then have "\<exists>d1. fetch_sources toy_outside ''v'' ''kvmd'' ?d = (d1, None) \<and> ''c'' \<notin> on_disk d1"
      using toy_heads(1)
      by (simp add: fetch_sources_def component_names_def fetch_one_def SOURCES_def KVMD_PIN_def target_of_def Let_def
          nested_modules_def new_checkout_def git_in_def call_checked_def expect_head_def make_dir_def toy_outside_def)
    with that show ?thesis by blast
  qed
  moreover have "\<exists>d2. fetch_client toy_outside ''c'' d1 = (d2, None)"
    using toy_heads(2,3) d1(2) by (intro fetch_client_works) (auto simp: toy_outside_def list_all_iff)
  ultimately obtain d2 where "fetch_client toy_outside ''c'' d1 = (d2, None)" by blast
  from fetched_patchable [OF d1(1) this] d1 this show ?thesis
    by (intro exI [of _ d1] exI [of _ d2]) (simp add: component_names_def target_of_def)
qed

end
