(* ===== verification/Child_Exec.thy ===== *)
theory Child_Exec
  imports Run_Config Hid_Http_Laws
begin

text \<open>
  How the supervisor starts a child: \<open>spawn\<close> of \<open>tools/run.py\<close> runs
  \<open>tools/child_exec.py\<close>, which dies with its parent and becomes the command.  Whether
  \<open>prctl\<close> succeeded and the parent it then has are arguments; the log file a child
  writes to is not modelled.
\<close>

text \<open>What \<open>Popen\<close> makes of its arguments, one after the other.\<close>

fun str_args :: "json list \<Rightarrow> string list res" where
  "str_args [] = Inr []"
| "str_args (JStr s # rest) =
     (if CHR 0x00 \<in> set s then Inl ValueError
      else (case str_args rest of Inl e \<Rightarrow> Inl e | Inr ss \<Rightarrow> Inr (s # ss)))"
| "str_args (_ # rest) = Inl TypeError"

definition spawn :: "string \<Rightarrow> string \<Rightarrow> nat \<Rightarrow> json list \<Rightarrow> string list res" where
  "spawn python base pid args =
     str_args (map JStr [python, base @ ''/tools/child_exec.py'', nat_str pid, ''--''] @ args)"

text \<open>\<open>argv\<close> is \<open>sys.argv\<close>, which begins with the script.\<close>

definition child_exec :: "string list \<Rightarrow> bool \<Rightarrow> int \<Rightarrow> string list res" where
  "child_exec argv armed ppid =
     (if length argv < 4 \<or> argv ! 2 \<noteq> ''--'' then Inl SystemExit
      else
        (case py_int 10 (strip is_str_space (argv ! 1)) of
           None \<Rightarrow> Inl ValueError
         | Some parent \<Rightarrow>
             let cmd = drop 3 argv in
               if \<not> is_abs (cmd ! 0) then Inl SystemExit
               else if \<not> armed \<or> ppid \<noteq> parent then Inl SystemExit
               else Inr cmd))"

lemma str_args_Inr: "str_args args = Inr ss \<longleftrightarrow> args = map JStr ss \<and> (\<forall>s \<in> set ss. CHR 0x00 \<notin> set s)"
proof (induction args arbitrary: ss rule: str_args.induct)
  case (2 s rest)
  show ?case
  proof (cases "CHR 0x00 \<in> set s")
    case False
    show ?thesis
    proof (cases "str_args rest")
      case (Inl e)
      with 2 [OF False] False show ?thesis by (cases ss) auto
    next
      case (Inr tt)
      with 2 [OF False, of tt] 2 [OF False, of "tl ss"] False show ?thesis by (cases ss) auto
    qed
  qed auto
qed auto

lemma spawn_Inr:
  "spawn python base pid args = Inr cmd \<longleftrightarrow>
     (\<exists>ss. args = map JStr ss \<and> cmd = [python, base @ ''/tools/child_exec.py'', nat_str pid, ''--''] @ ss \<and>
       (\<forall>s \<in> set cmd. CHR 0x00 \<notin> set s))"
proof -
  have "map JStr [python, base @ ''/tools/child_exec.py'', nat_str pid, ''--''] @ args = map JStr cmd \<longleftrightarrow>
      (\<exists>ss. args = map JStr ss \<and> cmd = [python, base @ ''/tools/child_exec.py'', nat_str pid, ''--''] @ ss)"
    by (auto simp: Cons_eq_map_conv)
  then show ?thesis unfolding spawn_def str_args_Inr by auto
qed

lemma nat_str_text: "CHR 0x00 \<notin> set (nat_str n)"
proof
  assume "CHR 0x00 \<in> set (nat_str n)"
  then obtain k :: nat where "k < 10" "CHR 0x00 = char_of (48 + k)" using nat_str_digits by blast
  with dec_props [of k] have "digit_of (CHR 0x00) = Some (int k)" by simp
  moreover have "digit_of (CHR 0x00) = None" by code_simp
  ultimately show False by simp
qed

lemma child_exec_spawned:
  "child_exec (script # nat_str pid # ''--'' # ss) armed ppid =
     (if ss \<noteq> [] \<and> is_abs (hd ss) \<and> armed \<and> ppid = int pid then Inr ss else Inl SystemExit)"
  by (cases ss) (auto simp: child_exec_def strip_nat_str py_int_dec)

fun clean_text :: "json \<Rightarrow> bool" where
  "clean_text (JStr s) = (CHR 0x00 \<notin> set s)"
| "clean_text _ = False"

lemma clean_texts: "list_all clean_text args \<longleftrightarrow> (\<exists>ss. args = map JStr ss \<and> (\<forall>s \<in> set ss. CHR 0x00 \<notin> set s))"
proof (induction args)
  case (Cons a args)
  show ?case
  proof
    assume "list_all clean_text (a # args)"
    with Cons obtain x ss where "a = JStr x" "CHR 0x00 \<notin> set x" "args = map JStr ss" "\<forall>s \<in> set ss. CHR 0x00 \<notin> set s"
      by (cases a) auto
    then show "\<exists>ss. a # args = map JStr ss \<and> (\<forall>s \<in> set ss. CHR 0x00 \<notin> set s)" by (intro exI [of _ "x # ss"]) simp
  qed (auto simp: list_all_iff)
qed simp

lemma str_args_Inl: "str_args args = Inl e \<Longrightarrow> \<not> list_all clean_text args \<and> e \<in> {TypeError, ValueError}"
  by (induction args rule: str_args.induct) (auto split: if_splits sum.splits)

lemma spawn_cases:
  assumes "CHR 0x00 \<notin> set (python @ base)"
  shows "if list_all clean_text args
    then \<exists>ss. args = map JStr ss \<and> spawn python base pid args = Inr ([python, base @ ''/tools/child_exec.py'', nat_str pid, ''--''] @ ss)
    else spawn python base pid args \<in> {Inl TypeError, Inl ValueError}"
proof -
  have own: "list_all clean_text (map JStr [python, base @ ''/tools/child_exec.py'', nat_str pid, ''--''])"
    using assms nat_str_text by simp
  show ?thesis
  proof (cases "spawn python base pid args")
    case (Inl e)
    from str_args_Inl [OF Inl [unfolded spawn_def]] own have "\<not> list_all clean_text args" "e \<in> {TypeError, ValueError}"
      by (simp_all only: list_all_append) simp_all
    with Inl show ?thesis by auto
  next
    case (Inr cmd)
    with spawn_Inr obtain ss where "args = map JStr ss" "\<forall>s \<in> set cmd. CHR 0x00 \<notin> set s"
      "cmd = [python, base @ ''/tools/child_exec.py'', nat_str pid, ''--''] @ ss" by blast
    moreover from this have "list_all clean_text args" unfolding clean_texts by auto
    ultimately show ?thesis using Inr by auto
  qed
qed

text \<open>\<open>load\<close> looks at the names in \<open>input\<close> and at its two booleans only.\<close>

definition untyped_socket :: json where
  "untyped_socket = JObj
     [(''schema'', JInt 1), (''sunshine_binary'', JStr ''/b''), (''worker_binary'', JStr ''/w''),
      (''state_directory'', JStr ''/s''), (''capture_device'', JStr ''/dev/video0''),
      (''capture_ownership_authorized'', JBool True), (''allow_cpu_pixel_copy'', JBool True),
      (''allow_high_resolution'', JBool True),
      (''input'', JObj [(''enabled'', JBool True), (''exclusive_hid_authorized'', JBool True),
                        (''kvmd_socket'', JInt 0), (''auth_headers_file'', JNull)])]"

lemma untyped_socket_loads:
  "\<exists>c. load untyped_socket = Inr c \<and> truthy (sub (item c ''input'' JNull) ''enabled'') \<and>
     truthy (sub (item c ''input'' JNull) ''exclusive_hid_authorized'') \<and> sub (item c ''input'' JNull) ''kvmd_socket'' = JInt 0"
proof -
  have "case load untyped_socket of Inl e \<Rightarrow> False
    | Inr c \<Rightarrow> truthy (sub (item c ''input'' JNull) ''enabled'') \<and>
        truthy (sub (item c ''input'' JNull) ''exclusive_hid_authorized'') \<and>
        sub (item c ''input'' JNull) ''kvmd_socket'' = JInt 0"
    by code_simp
  then show ?thesis by (auto split: sum.splits)
qed

lemma untyped_socket_spawned:
  assumes "CHR 0x00 \<notin> set (python @ base)"
  shows "\<exists>c args. load untyped_socket = Inr c \<and> hid_command python c [] False = Inr args \<and>
    spawn python base pid args = Inl TypeError"
proof -
  obtain c where c: "load untyped_socket = Inr c" "truthy (sub (item c ''input'' JNull) ''enabled'')"
    "truthy (sub (item c ''input'' JNull) ''exclusive_hid_authorized'')" "sub (item c ''input'' JNull) ''kvmd_socket'' = JInt 0"
    using untyped_socket_loads by blast
  then obtain args where a: "hid_command python c [] False = Inr args" by (simp add: hid_command_def Let_def)
  with c have "spawn python base pid args = Inl TypeError"
    using assms nat_str_text by (auto simp: hid_command_def Let_def spawn_def)
  with c(1) a show ?thesis by blast
qed

text \<open>
  C30. A child runs exactly the command it was started with, and only while the
  supervisor that started it is its parent; a command that is no list of texts, is
  empty or is not absolute is refused.  Every accepted configuration starts its
  server, and its bridge exactly when the socket and the headers file are texts, which
  \<open>load\<close> does not check: there is an accepted configuration whose bridge raises
  \<open>TypeError\<close>.
\<close>

theorem children_accepted:
  assumes "load j = Inr c" and "CHR 0x00 \<notin> set (python @ base)" and "is_abs python"
  shows "(\<forall>args cmd. spawn python base pid args = Inr cmd \<longrightarrow>
      (\<exists>ss. args = map JStr ss \<and> hd cmd = python \<and>
        (\<forall>armed ppid. child_exec (tl cmd) armed ppid =
          (if ss \<noteq> [] \<and> is_abs (hd ss) \<and> armed \<and> ppid = int pid then Inr ss else Inl SystemExit)))) \<and>
    (\<exists>b s cmd. item c ''sunshine_binary'' JNull = JStr b \<and> item c ''state_directory'' JNull = JStr s \<and>
      spawn python base pid [JStr b, JStr (s @ ''/sunshine.conf'')] = Inr cmd \<and>
      child_exec (tl cmd) True (int pid) = Inr [b, s @ ''/sunshine.conf'']) \<and>
    (\<forall>s release args. hid_command python c s release = Inr args \<and> CHR 0x00 \<notin> set s \<longrightarrow>
      (let i = item c ''input'' JNull in
        if clean_text (sub i ''kvmd_socket'') \<and>
          (truthy (sub i ''auth_headers_file'') \<longrightarrow> clean_text (sub i ''auth_headers_file''))
        then \<exists>ss cmd. args = map JStr ss \<and> spawn python base pid args = Inr cmd \<and> child_exec (tl cmd) True (int pid) = Inr ss
        else spawn python base pid args \<in> {Inl TypeError, Inl ValueError})) \<and>
    (\<exists>j' c' args. load j' = Inr c' \<and> hid_command python c' [] False = Inr args \<and>
      spawn python base pid args = Inl TypeError)"
proof (intro conjI allI impI)
  fix args cmd
  assume "spawn python base pid args = Inr cmd"
  then obtain ss where "args = map JStr ss" "cmd = [python, base @ ''/tools/child_exec.py'', nat_str pid, ''--''] @ ss"
    unfolding spawn_Inr by blast
  then show "\<exists>ss. args = map JStr ss \<and> hd cmd = python \<and>
      (\<forall>armed ppid. child_exec (tl cmd) armed ppid =
        (if ss \<noteq> [] \<and> is_abs (hd ss) \<and> armed \<and> ppid = int pid then Inr ss else Inl SystemExit))"
    by (intro exI [of _ ss]) (simp add: child_exec_spawned)
next
  from load_accepted [OF assms(1)] obtain b s where
    b: "map_of c ''sunshine_binary'' = Some (JStr b)" "is_abs b" "\<not> list_ex bad_char b" and
    s: "map_of c ''state_directory'' = Some (JStr s)" "\<not> list_ex bad_char s"
    unfolding accepted_def path_fields_def by auto
  from b(3) s(2) have "list_all clean_text [JStr b, JStr (s @ ''/sunshine.conf'')]"
    by (auto simp: list_ex_iff bad_char_def)
  with spawn_cases [OF assms(2), of "[JStr b, JStr (s @ ''/sunshine.conf'')]"] b(2)
  show "\<exists>b s cmd. item c ''sunshine_binary'' JNull = JStr b \<and> item c ''state_directory'' JNull = JStr s \<and>
      spawn python base pid [JStr b, JStr (s @ ''/sunshine.conf'')] = Inr cmd \<and>
      child_exec (tl cmd) True (int pid) = Inr [b, s @ ''/sunshine.conf'']"
    using b(1) s(1) by (auto simp: item_def child_exec_spawned Cons_eq_map_conv)
next
  fix s release args
  let ?i = "item c ''input'' JNull"
  let ?ok = "clean_text (sub ?i ''kvmd_socket'') \<and>
    (truthy (sub ?i ''auth_headers_file'') \<longrightarrow> clean_text (sub ?i ''auth_headers_file''))"
  assume h: "hid_command python c s release = Inr args \<and> CHR 0x00 \<notin> set s"
  then have a: "list_all clean_text args \<longleftrightarrow> ?ok" and p: "\<exists>more. args = JStr python # more"
    using assms(2) by (auto simp: hid_command_def Let_def split: if_splits)
  have e: "if ?ok then \<exists>ss cmd. args = map JStr ss \<and> spawn python base pid args = Inr cmd \<and> child_exec (tl cmd) True (int pid) = Inr ss
    else spawn python base pid args \<in> {Inl TypeError, Inl ValueError}"
  proof (cases ?ok)
    case True
    with spawn_cases [OF assms(2), of args pid] a obtain ss where
      ss: "args = map JStr ss" "spawn python base pid args = Inr ([python, base @ ''/tools/child_exec.py'', nat_str pid, ''--''] @ ss)"
      by auto
    from ss(1) p have "ss \<noteq> [] \<and> hd ss = python" by (auto simp: Cons_eq_map_conv)
    with ss True assms(3) show ?thesis by (auto simp: child_exec_spawned)
  next
    case False
    with spawn_cases [OF assms(2), of args pid] a show ?thesis by auto
  qed
  then show "let i = ?i in if clean_text (sub i ''kvmd_socket'') \<and>
      (truthy (sub i ''auth_headers_file'') \<longrightarrow> clean_text (sub i ''auth_headers_file''))
    then \<exists>ss cmd. args = map JStr ss \<and> spawn python base pid args = Inr cmd \<and> child_exec (tl cmd) True (int pid) = Inr ss
    else spawn python base pid args \<in> {Inl TypeError, Inl ValueError}"
    unfolding Let_def .
next
  show "\<exists>j' c' args. load j' = Inr c' \<and> hid_command python c' [] False = Inr args \<and>
      spawn python base pid args = Inl TypeError"
    using untyped_socket_spawned [OF assms(2)] by blast
qed

theorem children_accepted_witness:
  "\<exists>c b s cmd. load (runtime_config ''kvm'') = Inr c \<and>
     spawn ''/usr/bin/python3'' ''/opt/rkmoon/current'' 77 [JStr b, JStr (s @ ''/sunshine.conf'')] = Inr cmd \<and>
     child_exec (tl cmd) True 77 = Inr [b, s @ ''/sunshine.conf'']"
proof -
  obtain c where c: "load (runtime_config ''kvm'') = Inr c" using runtime_config_loads by blast
  have "CHR 0x00 \<notin> set (''/usr/bin/python3'' @ ''/opt/rkmoon/current'')" "is_abs ''/usr/bin/python3''"
    by (simp_all add: is_abs_def starts_with_def)
  from children_accepted [OF c this, of 77] c show ?thesis by fastforce
qed

end
