(* ===== verification/Probe.thy ===== *)
theory Probe
  imports Hid_Http "HOL-Library.Char_ord" "HOL-Library.List_Lexorder"
begin

text \<open>
  \<open>tools/probe.py\<close>: the read-only report on a board.  The file system, the tools and
  what they print are arguments; a file that is no ASCII text is read as its bytes.
\<close>

record machine =
  kernel :: string
  architecture :: string
  content :: "string \<Rightarrow> string option"
  globbed :: "string \<Rightarrow> string list"
  status :: "string \<Rightarrow> (nat \<times> int \<times> int \<times> bool \<times> bool) option"
  has_tool :: "string \<Rightarrow> bool"
  ran :: "string list \<Rightarrow> (int \<times> string \<times> string) option"

section \<open>Pieces\<close>

definition read_text :: "machine \<Rightarrow> string \<Rightarrow> json" where
  "read_text m path =
     (case content m path of
        None \<Rightarrow> JNull
      | Some s \<Rightarrow>
          JStr (strip is_str_space (map (\<lambda>c. if c = CHR 0x00 then CHR '' '' else c) (take 8192 s))))"

text \<open>The commands run so far stand beside the answer.\<close>

definition ask :: "machine \<Rightarrow> string list \<Rightarrow> string list list \<Rightarrow> string list list \<times> (string \<times> json) list" where
  "ask m args asked =
     (if \<not> has_tool m (hd args) then (asked, [(''unavailable'', JStr (hd args))])
      else
        (asked @ [args],
         case ran m args of
           None \<Rightarrow> [(''error'', JStr ''unavailable or timeout'')]
         | Some (code, out, err) \<Rightarrow>
             [(''exit'', JInt code), (''stdout'', JStr (take 16000 out)), (''stderr'', JStr (take 2000 err))]))"

fun ask_all ::
  "machine \<Rightarrow> (string \<times> string list) list \<Rightarrow> string list list \<Rightarrow> string list list \<times> (string \<times> json) list" where
  "ask_all m [] asked = (asked, [])"
| "ask_all m ((key, args) # rest) asked =
     (case ask m args asked of (asked1, a) \<Rightarrow>
        (case ask_all m rest asked1 of (asked2, others) \<Rightarrow> (asked2, (key, JObj a) # others)))"

definition first_lines :: "string \<Rightarrow> string" where
  "first_lines s =
     (case take 3 (splitlines s) of
        [] \<Rightarrow> []
      | l # ls \<Rightarrow> l @ concat (map (\<lambda>k. CHR 0x0A # k) ls))"

definition octal :: "nat \<Rightarrow> string" where
  "octal n =
     (let d = (\<lambda>k. char_of (48 + k)) in
      ''0o'' @ (if n < 8 then [d n] else if n < 64 then [d (n div 8), d (n mod 8)]
               else [d (n div 64), d (n div 8 mod 8), d (n mod 8)]))"

section \<open>The report\<close>

definition QUERIES :: "string list" where
  "QUERIES = [''--all'', ''--query-dv-timings'', ''--get-fmt-video'', ''--list-formats-ext'']"

definition node_asks :: "string \<Rightarrow> (string \<times> string list) list" where
  "node_asks node =
     map (\<lambda>flag. (flag, [''v4l2-ctl'', ''--device'', node, flag])) QUERIES @ [(''open_owners'', [''fuser'', node])]"

definition local_node :: "string \<Rightarrow> bool" where
  "local_node node \<longleftrightarrow> take 5 node = ''/dev/'' \<and> CHR 0x0A \<notin> set node"

fun probe_nodes :: "machine \<Rightarrow> string list \<Rightarrow> string list list \<Rightarrow> string list list \<times> json list res" where
  "probe_nodes m [] asked = (asked, Inr [])"
| "probe_nodes m (node # nodes) asked =
     (if \<not> local_node node then (asked, Inl SystemExit)
      else
        (case ask_all m (node_asks node) asked of (asked1, answers) \<Rightarrow>
           (case probe_nodes m nodes asked1 of
              (asked2, Inl e) \<Rightarrow> (asked2, Inl e)
            | (asked2, Inr items) \<Rightarrow> (asked2, Inr (JObj ((''path'', JStr node) # answers) # items)))))"

definition PATTERNS :: "string list" where
  "PATTERNS = [''/dev/mpp_service'', ''/dev/rga'', ''/dev/dri/renderD*'', ''/dev/hidg*'', ''/dev/kvmd-hid-*'', ''/dev/dma_heap/*'']"

fun probe_devices :: "machine \<Rightarrow> string list \<Rightarrow> json list res" where
  "probe_devices m [] = Inr []"
| "probe_devices m (path # rest) =
     (case status m path of
        None \<Rightarrow> Inl OSError
      | Some (mode, uid, gid, readable, writable) \<Rightarrow>
          (case probe_devices m rest of
             Inl e \<Rightarrow> Inl e
           | Inr items \<Rightarrow>
               Inr (JObj [(''path'', JStr path), (''mode'', JStr (octal (mode mod 512))), (''uid'', JInt uid),
                          (''gid'', JInt gid), (''readable'', JBool readable), (''writable'', JBool writable)] # items)))"

text \<open>\<open>base.name\<close> and \<open>base\<close> of \<open>base/report_desc\<close>.\<close>

definition parent_dir :: "string \<Rightarrow> string" where
  "parent_dir path = rev (drop 1 (dropWhile (\<lambda>c. c \<noteq> CHR ''/'') (rev path)))"

definition last_part :: "string \<Rightarrow> string" where
  "last_part path = rev (takeWhile (\<lambda>c. c \<noteq> CHR ''/'') (rev path))"

definition gadget_descriptors :: "(string \<Rightarrow> string) \<Rightarrow> machine \<Rightarrow> json list" where
  "gadget_descriptors sha m =
     concat (map (\<lambda>path.
        case content m path of
          None \<Rightarrow> []
        | Some bytes \<Rightarrow>
            let base = parent_dir path in
              [JObj [(''function'', JStr (last_part base)), (''report_length'', read_text m (base @ ''/report_length'')),
                     (''descriptor_length'', JInt (int (length bytes))), (''descriptor_sha256'', JStr (sha bytes))]])
       (globbed m ''/sys/kernel/config/usb_gadget/*/functions/hid.*/report_desc''))"

definition SERVICES :: "string list" where
  "SERVICES = [''kvmd.service'', ''kvmd-vnc.service'', ''t6-kvm.service'', ''t6-kvmd.service'', ''t6-kvmd-vnc.service'',
     ''t6-kvm-panel.service'', ''sunshine.service'']"

definition VERSIONS :: "(string \<times> string list) list" where
  "VERSIONS = [(''v4l2-ctl'', [''--version'']), (''ffmpeg'', [''-version'']), (''cmake'', [''--version'']), (''g++'', [''--version'']),
     (''pkg-config'', [''--modversion'', ''rockchip_mpp''])]"

fun shorten :: "string \<times> json \<Rightarrow> string \<times> json" where
  "shorten (tool, JObj fs) =
     (tool, JObj (map (\<lambda>(k, v). (k, case v of JStr s \<Rightarrow> if k = ''stdout'' then JStr (first_lines s) else v | _ \<Rightarrow> v)) fs))"
| "shorten other = other"

text \<open>\<open>videos\<close> are the nodes named on the command line.\<close>

definition probe_main ::
  "(string \<Rightarrow> string) \<Rightarrow> machine \<Rightarrow> string list \<Rightarrow> string list list \<times> json res" where
  "probe_main sha m videos =
     (let nodes = (if videos \<noteq> [] then videos else sort (globbed m ''/dev/video*''));
          thermal = map (\<lambda>t. JObj [(''type'', read_text m (t @ ''/type'')), (''millidegrees_c'', read_text m (t @ ''/temp''))])
                      (globbed m ''/sys/class/thermal/thermal_zone*'')
      in
        (case probe_nodes m nodes [] of
           (asked, Inl e) \<Rightarrow> (asked, Inl e)
         | (asked, Inr video) \<Rightarrow>
             (case probe_devices m (concat (map (\<lambda>p. sort (globbed m p)) PATTERNS)) of
                Inl e \<Rightarrow> (asked, Inl e)
              | Inr devices \<Rightarrow>
                  (case ask_all m (map (\<lambda>u. (u, [''systemctl'', ''is-active'', u])) SERVICES) asked of (asked1, services) \<Rightarrow>
                     (case ask_all m (map (\<lambda>(tool, args). (tool, tool # args)) VERSIONS) asked1 of (asked2, tools) \<Rightarrow>
                        (asked2,
                         Inr (JObj [(''schema'', JInt 1), (''read_only'', JBool True), (''kernel'', JStr (kernel m)),
                              (''machine'', JStr (architecture m)), (''model'', read_text m ''/proc/device-tree/model''),
                              (''os_release'', read_text m ''/etc/os-release''), (''memory'', read_text m ''/proc/meminfo''),
                              (''thermal'', JList thermal), (''video'', JList video), (''devices'', JList devices),
                              (''gadget_descriptors'', JList (gadget_descriptors sha m)),
                              (''service_state'', JObj services), (''tools'', JObj (map shorten tools))])))))))"

text \<open>\<open>f.open('x')\<close> refuses a file that is there.\<close>

definition save_report :: "string \<Rightarrow> string option \<Rightarrow> (string \<rightharpoonup> string) \<Rightarrow> (string \<rightharpoonup> string) \<times> exn option" where
  "save_report text output fs =
     (case output of
        None \<Rightarrow> (fs, None)
      | Some path \<Rightarrow> if fs path \<noteq> None then (fs, Some OSError) else (fs(path \<mapsto> text @ [CHR 0x0A]), None))"

section \<open>Only questions are asked\<close>

text \<open>The commands that read: the four queries of a node, its owners, states and versions.\<close>

definition question :: "string list \<Rightarrow> bool" where
  "question c \<longleftrightarrow>
     (\<exists>node. local_node node \<and> c \<in> snd ` set (node_asks node)) \<or>
     c \<in> set (map (\<lambda>u. [''systemctl'', ''is-active'', u]) SERVICES) \<or>
     c \<in> set (map (\<lambda>(tool, args). tool # args) VERSIONS)"

lemma ask_all_log: "set (fst (ask_all m qs asked)) \<subseteq> set asked \<union> snd ` set qs"
proof (induction m qs asked rule: ask_all.induct)
  case (2 m key args rest asked)
  obtain asked1 a where a: "ask m args asked = (asked1, a)" by fastforce
  then have "set asked1 \<subseteq> insert args (set asked)" by (auto simp: ask_def split: if_splits)
  moreover from 2 [OF a [symmetric]] have "set (fst (ask_all m rest asked1)) \<subseteq> set asked1 \<union> snd ` set rest" by simp
  ultimately show ?case using a by (auto split: prod.splits)
qed simp

lemma probe_nodes_log:
  "(\<forall>c \<in> set asked. question c) \<Longrightarrow> (\<forall>c \<in> set (fst (probe_nodes m nodes asked)). question c)"
proof (induction m nodes asked rule: probe_nodes.induct)
  case (2 m node nodes asked)
  show ?case
  proof (cases "local_node node")
    case True
    obtain asked1 a where a: "ask_all m (node_asks node) asked = (asked1, a)" by fastforce
    with ask_all_log [of m "node_asks node" asked] have "set asked1 \<subseteq> set asked \<union> snd ` set (node_asks node)" by simp
    moreover have "question c" if "c \<in> snd ` set (node_asks node)" for c
      using True that unfolding question_def by blast
    ultimately have "\<forall>c \<in> set asked1. question c" using 2(2) by blast
    from 2(1) [OF _ a [symmetric] this] True have "\<forall>c \<in> set (fst (probe_nodes m nodes asked1)). question c" by simp
    with a True show ?thesis by (auto split: prod.splits sum.splits)
  qed (use 2(2) in simp)
qed simp

text \<open>
  Whatever nodes are given, the report only asks questions, about nodes under /dev; it
  replaces no file.
\<close>

lemma refused_node: "list_ex (\<lambda>n. \<not> local_node n) nodes \<Longrightarrow> \<exists>asked'. probe_nodes m nodes asked = (asked', Inl SystemExit)"
  by (induction m nodes asked rule: probe_nodes.induct) (auto split: prod.split sum.split)

lemma probe_only_asks:
  "(\<forall>c \<in> set (fst (probe_main sha m videos)). question c) \<and>
   (list_ex (\<lambda>n. \<not> local_node n) videos \<longrightarrow> snd (probe_main sha m videos) = Inl SystemExit) \<and>
   (\<forall>p t. fs p = Some t \<longrightarrow> fst (save_report text output fs) p = Some t)"
proof (intro conjI impI)
  let ?nodes = "if videos \<noteq> [] then videos else sort (globbed m ''/dev/video*'')"
  obtain asked r where n: "probe_nodes m ?nodes [] = (asked, r)" by fastforce
  have a: "\<forall>c \<in> set asked. question c" using probe_nodes_log [of "[]" m ?nodes] n by simp
  let ?s = "map (\<lambda>u. (u, [''systemctl'', ''is-active'', u])) SERVICES"
  let ?v = "map (\<lambda>(tool, args). (tool, tool # args)) VERSIONS"
  obtain asked1 s where s: "ask_all m ?s asked = (asked1, s)" by fastforce
  obtain asked2 t where t: "ask_all m ?v asked1 = (asked2, t)" by fastforce
  have "set asked1 \<subseteq> set asked \<union> snd ` set ?s" "set asked2 \<subseteq> set asked1 \<union> snd ` set ?v"
    using ask_all_log [of m ?s asked] ask_all_log [of m ?v asked1] s t by simp_all
  moreover have "question c" if "c \<in> snd ` set ?s \<union> snd ` set ?v" for c
    using that by (auto simp: question_def)
  ultimately have "\<forall>c \<in> set asked2. question c" using a by blast
  with a show "\<forall>c \<in> set (fst (probe_main sha m videos)). question c"
    unfolding probe_main_def Let_def n s prod.case by (cases r) (auto simp: t split: sum.split)
next
  assume v: "list_ex (\<lambda>n. \<not> local_node n) videos"
  from refused_node [OF this] obtain asked where "probe_nodes m videos [] = (asked, Inl SystemExit)" by blast
  moreover have "videos \<noteq> []" using v by auto
  ultimately show "snd (probe_main sha m videos) = Inl SystemExit" by (simp add: probe_main_def)
next
  show "\<forall>p t. fs p = Some t \<longrightarrow> fst (save_report text output fs) p = Some t"
    by (auto simp: save_report_def split: option.split)
qed

end
