(* ===== verification/Spec2Isabelle.thy ===== *)
theory Spec2Isabelle
  imports Hid_Keys Hid_Events Hid_Queue Hid_Sink Hid_Lease Hid_Lease_Laws Hid_Stream Hid_Stream_Laws
    Hid_Http Hid_Http_Laws Hid_Kvmd Hid_Kvmd_Laws Hid_Server Hid_Server_Laws Hid_Server_Inv Hid_Server_Live Hid_Server_Lock
    Input_Service Hid_Open Edid Edid_Laws Edid_Final Run_Config Run_Supervisor Overlay_Sunshine Overlay_Moonlight Prepare Audio_Bind Input_Install Capture_Run
    Fetch Child_Exec Probe
begin

text \<open>
  A KVM built from a NanoPC-T6: a patched Sunshine streams what the board's HDMI
  receiver captures, and a small daemon (the bridge) turns the viewer's input
  into USB reports that kvmd writes.  The development models the Python of the
  repository under \<open>src/python/rkmoon_hid\<close>, \<open>src/tools\<close> and
  \<open>src/client/tools\<close>.

  \<^bold>\<open>The bridge.\<close>  Sunshine connects to a Unix socket and sends one JSON event per
  line.  \<open>Hid_Keys\<close> holds the tables of \<open>keys.py\<close>.  \<open>Hid_Events\<close> (\<open>parse_event\<close>,
  \<open>chunks\<close>) and \<open>Hid_Queue\<close> (\<open>Queue\<close>) model the first half of \<open>lease.py\<close>,
  \<open>Hid_Lease\<close> the class \<open>Lease\<close>.  A lease talks to an input backend, which is a
  \<open>sink\<close> (\<open>Hid_Sink\<close>): what a lease needs of one is the locale \<open>hid_sink\<close>, what
  it gets from one that works is \<open>reliable_sink\<close>; traces of calls, the test
  backend \<open>Fake\<close> and the two clients of kvmd interpret them.  Those clients are
  \<open>Hid_Stream\<close> (\<open>KvmdStream\<close>: frames, pacing, read loop, flush) and \<open>Hid_Http\<close>
  with \<open>Hid_Kvmd\<close> (\<open>Kvmd.request\<close> and what is built on it: \<open>check\<close>, \<open>wake\<close>,
  \<open>select_mouse\<close>, \<open>neutralize\<close>).  \<open>Hid_Open\<close> models how the bridge opens the
  stream, the private header file and its own socket.  \<open>Hid_Server\<close> models \<open>server.py\<close> and
  \<open>__main__.py\<close>: a record for the attributes of \<open>Server\<close> with one phase per
  connection, and a step relation whose steps are the stretches between two
  awaits.  Theories named \<open>_Laws\<close>, \<open>_Inv\<close> and \<open>_Live\<close> hold the lemmas,
  \<open>Hid_Server_Lock\<close> the lock that the bridge refines.

  \<^bold>\<open>Around it.\<close>  \<open>Run_Config\<close> and \<open>Run_Supervisor\<close> model \<open>tools/run.py\<close>, which
  starts the bridge and Sunshine and releases everything at the end, with
  \<open>tools/systemd_release.py\<close>, which repeats a release that failed; \<open>Child_Exec\<close> models
  how it starts a child (\<open>tools/child_exec.py\<close>).
  \<open>Input_Service\<close> models \<open>tools/input_config.py\<close> and \<open>tools/input_runtime.py\<close>: the
  configuration of kvmd and the script that owns the USB gadget, \<open>Input_Install\<close> its
  installer (\<open>tools/install_input.py\<close>).  \<open>Edid\<close> models
  the generator and the installer of display data, \<open>Edid_Final\<close> the script behind
  the EDID that is shipped, \<open>Audio_Bind\<close> the
  rebinding of the audio codec, \<open>Prepare\<close> two generators of patched sources,
  \<open>Fetch\<close> the two scripts that download the pinned sources, with their lock files,
  \<open>Probe\<close> the read-only report on a board (\<open>tools/probe.py\<close>),
  \<open>Install\<close> the packaging (\<open>tools/package_server.py\<close>) and the whole installation
  (\<open>tools/install_server.py\<close>) of releases, \<open>Capture_Run\<close> the recording
  of a stream (\<open>tools/p1_capture.py\<close>) and \<open>Capture\<close> its judgement
  (\<open>tools/validate_capture.py\<close>).  The installers and the downloads are scripts:
  lists of steps that change a state and may raise.  \<open>Steps\<close> runs such lists, and its
  locale \<open>kept\<close> carries a relation that every step respects to the whole script;
  \<open>Install\<close>, \<open>Input_Install\<close> and \<open>Fetch\<close> interpret it.

  \<^bold>\<open>The overlays.\<close>  \<open>tools/apply_sunshine.py\<close> and \<open>client/tools/apply_moonlight.py\<close>
  patch the pinned sources of server and client.  \<open>Overlay\<close> models \<open>once\<close> and the
  write of the changed files, \<open>Overlay_Edits\<close> makes every operation of
  \<open>make_changes\<close> a value of the datatype \<open>edit\<close> (\<open>at_entry\<close> with its regular
  expression included) and decides which texts a list of edits certainly puts in
  or takes out; \<open>Overlay_Sunshine\<close> and \<open>Overlay_Moonlight\<close> hold the tables, literal
  by literal, and the two \<open>main\<close> functions.

  \<^bold>\<open>What is shown.\<close>  Below: at most one owner of the lease, an idle bridge has
  released everything, a busy one has somebody to free it and can be freed, a
  served session is well formed, and the start.  In \<open>Hid_Server_Lock\<close>: every step of
  the bridge is a step of a lock with four states.  In \<open>Hid_Lease_Laws\<close>: the lease
  refines the set of pressed inputs, units of motion and wheel are conserved, a
  confirmed session leaves nothing down.  In \<open>Hid_Queue\<close>: merging is invisible.
  In \<open>Hid_Stream_Laws\<close> and \<open>Hid_Http_Laws\<close>: what is sent is read back, in order,
  within bounds, and cannot be forged.  In \<open>Hid_Kvmd_Laws\<close>: what the selection and
  the neutralization guarantee.  The other theories state their properties at
  their end.  Five properties describe where the code falls short of what it means
  to do: \<open>unconfirmed_release\<close>, \<open>tap_left_down\<close>, \<open>stream_open_leaks\<close>,
  \<open>retry_refused\<close>, and the last part of \<open>children_accepted\<close>; \<open>installation_keeps\<close> also records one.

  \<^bold>\<open>Conventions.\<close>  An exception is \<open>Inl\<close> of a sum, or an \<open>exn option\<close> beside the
  state reached.  What the program calls outside itself (kvmd, sockets, the
  clock, sysfs, git, SHA-256, \<open>json.loads\<close>) is an argument.  A loop whose end the
  code bounds (five reads after a selection) is recursion on that bound; every
  other loop is a total function with a measure, but for the watch over a capture,
  which is a partial function shown to return; no fuel is used.  Bytes are
  8-bit words, Python integers are \<open>int\<close>, Python floats that are only compared
  and added are rationals.

  \<^bold>\<open>Not modelled.\<close>  Logging and most argument parsing; owners and modes of what the
  installers create; the unified diff the overlays print; what a script prints when it is done; the three
  drivers that run the built programs under test.
\<close>

section \<open>The bridge\<close>

text \<open>
  C1. At most one connection is past admission, and while there is one the bridge is busy
  and no recovery runs.
\<close>

theorem one_owner:
  assumes "reachable C w \<sigma>" and "in_tables w"
    and "conns \<sigma> i = Some p" and "holds p" and "conns \<sigma> j = Some q" and "holds q"
  shows "i = j \<and> busy \<sigma> \<and> recovery \<sigma> = None"
proof -
  have o: "ownership \<sigma>" using reachable_inv [OF assms(1, 2)] by blast
  then have "i \<in> holders \<sigma>" "j \<in> holders \<sigma>"
    using assms(3-6) by (simp_all add: in_holders)
  then have "i = j" using o unfolding ownership_def owned_def by blast
  then show ?thesis using ownership_busy [OF o assms(3, 4)] by simp
qed

theorem one_owner_witness:
  "\<exists>\<sigma>. reachable lab (True, []) \<sigma> \<and> conns \<sigma> 0 = Some Greeting \<and> busy \<sigma> \<and>
     (\<forall>j q. conns \<sigma> j = Some q \<longrightarrow> holds q \<longrightarrow> j = 0)"
proof -
  obtain \<sigma> where r: "reachable lab (True, []) \<sigma>" and g: "conns \<sigma> 0 = Some Greeting"
    using lab_greets by blast
  have "in_tables (True, [])" by (simp add: in_tables_def)
  note own = one_owner [OF r this g holds_simps(3)]
  from own [OF g holds_simps(3)] have "busy \<sigma>" by simp
  moreover have "j = 0" if "conns \<sigma> j = Some q" "holds q" for j q
    using own [OF that] by simp
  ultimately show ?thesis using r g by blast
qed





text \<open>
  A bridge that refuses leases and is not stopping has a connection that holds the
  lease or a recovery that will clear it.
\<close>

lemma busy_has_owner:
  assumes "reachable C w \<sigma>" and "in_tables w" and "busy \<sigma>" and "\<not> stopping \<sigma>"
  shows "(\<exists>i p. conns \<sigma> i = Some p \<and> owns p) \<or> recovery \<sigma> \<noteq> None"
proof -
  have "ownership \<sigma>" using reachable_inv [OF assms(1, 2)] by blast
  then have "recovery \<sigma> \<noteq> None \<or> holders \<sigma> \<noteq> {}" and "\<not> aborted \<sigma>"
    using assms(3, 4) by (auto simp: ownership_def owned_def)
  then show ?thesis
    by (auto simp: holders_def holds_def aborted_def)
qed



text \<open>
  C11. The bridge starts only when authorised, and then either refuses leases until the
  recovery has finished or has nothing down.
\<close>

theorem start_neutral:
  assumes "start C authorized release_all w = Started \<sigma>" and "in_tables w"
  shows "authorized \<and> \<not> release_all \<and> (\<forall>i. conns \<sigma> i = None) \<and>
    (busy \<sigma> \<and> recovery \<sigma> = Some Recover \<or>
     \<not> busy \<sigma> \<and> open_keys (snd (net \<sigma>)) = {} \<and> open_buttons (snd (net \<sigma>)) = {})"
proof -
  obtain w' r where cn: "check_and_neutralize C w = (w', r)" by fastforce
  with assms check_and_neutralize_trace [OF cn] show ?thesis
    by (auto simp: start_def in_tables_def idle_def block_until_neutral_def split: if_splits option.splits prod.splits)
qed

theorem start_neutral_witness:
  "\<exists>\<sigma>. start steady True False ((), [Sent Http (CKey ''KeyA'' True) True]) = Started \<sigma> \<and>
     open_keys (snd (net \<sigma>)) = {}"
proof -
  let ?w = "((), [Sent Http (CKey ''KeyA'' True) True])"
  obtain v where "check_and_neutralize steady ?w = (v, None)"
    using responsive_neutralize [OF steady_responsive] by blast
  then have s: "start steady True False ?w = Started (idle v)" by (simp add: start_def)
  have "KEYS 0x41 = Some ''KeyA''" by code_simp
  then have "''KeyA'' \<in> snd ` set KEYS_items" by (rule KEYS_in_ran)
  then have "in_tables ?w" by (simp add: in_tables_def)
  from start_neutral [OF s this] s show ?thesis by (auto simp: idle_def)
qed

text \<open>
  C7. A bridge that accepts leases can be reached in which the neutral tap of \<open>wake\<close> has left
  \<open>ShiftLeft\<close> down: the tap is tracked by no lease, and the clean-up of a handler whose
  selection failed clears \<open>busy\<close> without releasing it.
\<close>

theorem tap_left_down:
  "\<exists>\<sigma>. reachable lab (True, []) \<sigma> \<and> \<not> busy \<sigma> \<and> recovery \<sigma> = None \<and> \<not> stopping \<sigma> \<and>
     ''ShiftLeft'' \<in> open_keys (snd (net \<sigma>))"
proof -
  obtain \<sigma> t where r: "reachable lab (True, []) \<sigma>" and g: "conns \<sigma> 0 = Some Greeting"
    and n: "net \<sigma> = (True, t)" "\<not> stopping \<sigma>" "recovery \<sigma> = None" using lab_greets by blast
  let ?t = "Sent Http (CKey ''ShiftLeft'' False) False # Sent Http (CKey ''ShiftLeft'' True) True # t"
  let ?s1 = "goto 0 (Selecting Relative) \<sigma>"
  let ?s2 = "?s1\<lparr>net := (False, snd (net ?s1))\<rparr>"
  let ?s3 = "goto 0 (Closing True None False) (?s2\<lparr>net := (False, ?t)\<rparr>)"
  let ?s4 = "goto 0 (Releasing None) (?s3\<lparr>active_writer := None\<rparr>)"
  let ?s5 = "goto 0 Done (?s4\<lparr>busy := False\<rparr>)"
  have "reachable lab (True, []) ?s1"
    using r by (rule reachable_step) (rule hello [OF g lab_hello])
  then have "reachable lab (True, []) ?s2"
    by (rule reachable_step) (rule outside)
  then have "reachable lab (True, []) ?s3"
    by (rule reachable_step)
      (rule select_failed [where m = Relative and e = BackendError], simp_all add: goto_def n mode_str_def lab_tap_fails)
  then have "reachable lab (True, []) ?s4"
    by (rule reachable_step) (rule closed_plain, simp add: goto_def)
  then have "reachable lab (True, []) ?s5"
    by (rule reachable_step) (rule no_lease, simp add: goto_def)
  with n show ?thesis by (rule_tac exI [of _ ?s5]) (simp add: goto_def)
qed

end
